(* ===== verification/Base.thy ===== *)
theory Base
  imports Main "HOL-Library.Word" "HOL-Library.Char_ord" "HOL-Library.List_Lexorder"
begin

text \<open>
  Prelude of the development: the names of the machine types, the result type of fallible code
  with its early-return combinator, the ordered map of the Rust standard library
  (\<open>std::collections::BTreeMap\<close>, which is also what \<open>serde_json::Map\<close> is in this build: the
  lock file enables no \<open>preserve_order\<close>), and the generic lemmas the components share.
  Strings and byte slices are both \<open>string\<close>: a Rust \<open>String\<close> is its UTF-8 bytes, a \<open>char\<close> of
  HOL is one byte, \<open>len()\<close> counts bytes and the order of strings is the order of their bytes.
\<close>

subsection \<open>Types\<close>

type_synonym u8 = "8 word"
type_synonym u32 = "32 word"
type_synonym u64 = "64 word"
type_synonym bytes = string

named_theorems rust_simps \<open>unfolding rules for the result type and the map operations\<close>

subsection \<open>Results and early return\<close>

text \<open>\<open>Result<T, E>\<close> is \<open>'e + 'a\<close>; \<open>rbind\<close> is the question-mark operator.\<close>

definition rbind :: "'e + 'a \<Rightarrow> ('a \<Rightarrow> 'e + 'b) \<Rightarrow> 'e + 'b" where
  "rbind r f = (case r of Inl e \<Rightarrow> Inl e | Inr x \<Rightarrow> f x)"

definition ok_or :: "'a option \<Rightarrow> 'e \<Rightarrow> 'e + 'a" where
  "ok_or x e = (case x of None \<Rightarrow> Inl e | Some v \<Rightarrow> Inr v)"

definition map_err :: "('e \<Rightarrow> 'f) \<Rightarrow> 'e + 'a \<Rightarrow> 'f + 'a" where
  "map_err f r = (case r of Inl e \<Rightarrow> Inl (f e) | Inr x \<Rightarrow> Inr x)"

definition is_ok :: "'e + 'a \<Rightarrow> bool" where
  "is_ok r = (case r of Inl _ \<Rightarrow> False | Inr _ \<Rightarrow> True)"

definition unwrap_or :: "'a option \<Rightarrow> 'a \<Rightarrow> 'a" where
  "unwrap_or x d = (case x of None \<Rightarrow> d | Some v \<Rightarrow> v)"

lemma rbind_simps [simp]: "rbind (Inl e) f = Inl e" "rbind (Inr x) f = f x"
  by (simp_all add: rbind_def)

lemma ok_or_simps [simp]: "ok_or None e = Inl e" "ok_or (Some v) e = Inr v"
  by (simp_all add: ok_or_def)

lemma map_err_simps [simp]: "map_err f (Inl e) = Inl (f e)" "map_err f (Inr x) = Inr x"
  by (simp_all add: map_err_def)

lemma is_ok_simps [simp]: "\<not> is_ok (Inl e)" "is_ok (Inr x)"
  by (simp_all add: is_ok_def)

lemma unwrap_or_simps [simp]: "unwrap_or None d = d" "unwrap_or (Some v) d = v"
  by (simp_all add: unwrap_or_def)

lemma rbind_eq_Inr [simp]: "rbind r f = Inr y \<longleftrightarrow> (\<exists>x. r = Inr x \<and> f x = Inr y)"
  by (cases r) simp_all

lemma ok_or_eq_Inr [simp]: "ok_or x e = Inr y \<longleftrightarrow> x = Some y"
  by (cases x) simp_all

lemma map_err_eq_Inr [simp]: "map_err f r = Inr y \<longleftrightarrow> r = Inr y"
  by (cases r) simp_all

lemma rbind_cong [fundef_cong]:
  "r = r' \<Longrightarrow> (\<And>x. r' = Inr x \<Longrightarrow> f x = g x) \<Longrightarrow> rbind r f = rbind r' g"
  by (cases r') simp_all

subsection \<open>Machine arithmetic of the standard library\<close>

text \<open>\<open>saturating_add\<close>, \<open>saturating_sub\<close> and \<open>div_ceil\<close> of the unsigned integers.\<close>

definition saturating_add :: "'l::len word \<Rightarrow> 'l word \<Rightarrow> 'l word" where
  "saturating_add x y = (if unat x + unat y < 2 ^ LENGTH('l) then x + y else - 1)"

definition saturating_sub :: "'l::len word \<Rightarrow> 'l word \<Rightarrow> 'l word" where
  "saturating_sub x y = (if x < y then 0 else x - y)"

definition div_ceil :: "'l::len word \<Rightarrow> 'l word \<Rightarrow> 'l word" where
  "div_ceil x y = (if x mod y = 0 then x div y else x div y + 1)"

lemma unat_bound: "unat (w :: 'l::len word) < 2 ^ LENGTH('l)"
  by (rule unsigned_less)

lemma unat_saturating_sub: "unat (saturating_sub x y) = unat x - unat y"
  by (auto simp: saturating_sub_def unat_sub word_le_nat_alt word_less_nat_alt)

lemma unat_saturating_add:
  fixes x :: "'l::len word"
  shows "unat (saturating_add x y) = min (unat x + unat y) (2 ^ LENGTH('l) - 1)"
  by (auto simp: saturating_add_def unat_word_ariths unsigned_minus_1_eq_mask mask_eq_exp_minus_1 min_def)

subsection \<open>String slices\<close>

text \<open>
  \<open>&s[a..b]\<close> panics (\<open>None\<close>) when the range is not inside the string or cuts a character:
  an index is a boundary at the ends and at every byte that is no UTF-8 continuation byte.
\<close>

definition is_continuation :: "char \<Rightarrow> bool" where
  "is_continuation c = (128 \<le> (of_char c :: nat) \<and> (of_char c :: nat) < 192)"

definition char_boundary :: "string \<Rightarrow> nat \<Rightarrow> bool" where
  "char_boundary s i = (i = 0 \<or> i = length s \<or> (i < length s \<and> \<not> is_continuation (s ! i)))"

definition str_slice :: "string \<Rightarrow> nat \<Rightarrow> nat \<Rightarrow> string option" where
  "str_slice s a b =
     (if a \<le> b \<and> b \<le> length s \<and> char_boundary s a \<and> char_boundary s b
      then Some (take (b - a) (drop a s)) else None)"

definition ascii :: "string \<Rightarrow> bool" where
  "ascii s = (\<forall>c \<in> set s. (of_char c :: nat) < 128)"

lemma ascii_boundary: "ascii s \<Longrightarrow> i \<le> length s \<Longrightarrow> char_boundary s i"
  unfolding ascii_def char_boundary_def is_continuation_def by (metis le_neq_implies_less nth_mem not_le)

lemma ascii_slice: "ascii s \<Longrightarrow> a \<le> b \<Longrightarrow> b \<le> length s \<Longrightarrow> str_slice s a b = Some (take (b - a) (drop a s))"
  by (simp add: str_slice_def ascii_boundary)

text \<open>A prefix test and its removal (\<open>starts_with\<close>, \<open>strip_prefix\<close>, \<open>strip_suffix\<close>).\<close>

definition starts_with :: "string \<Rightarrow> string \<Rightarrow> bool" where
  "starts_with s p = (take (length p) s = p)"

definition strip_prefix :: "string \<Rightarrow> string \<Rightarrow> string option" where
  "strip_prefix s p = (if starts_with s p then Some (drop (length p) s) else None)"

definition strip_suffix :: "string \<Rightarrow> string \<Rightarrow> string option" where
  "strip_suffix s p = map_option rev (strip_prefix (rev s) (rev p))"

lemma starts_with_append [simp]: "starts_with (p @ s) p"
  by (simp add: starts_with_def)

lemma strip_prefix_append [simp]: "strip_prefix (p @ s) p = Some s"
  by (simp add: strip_prefix_def)

lemma strip_suffix_append [simp]: "strip_suffix (s @ p) p = Some s"
  by (simp add: strip_suffix_def)

lemma strip_prefix_Some: "strip_prefix s p = Some r \<longleftrightarrow> s = p @ r"
  by (auto simp: strip_prefix_def starts_with_def) (metis append_take_drop_id)

subsection \<open>Ordered maps\<close>

text \<open>
  A \<open>BTreeMap\<close> is the list of its entries in key order. Insertion replaces the value of a
  present key, removal of an absent key does nothing.
\<close>

fun bt_insert :: "'k::linorder \<Rightarrow> 'v \<Rightarrow> ('k \<times> 'v) list \<Rightarrow> ('k \<times> 'v) list" where
  "bt_insert k v [] = [(k, v)]"
| "bt_insert k v (p # m) =
     (if fst p < k then p # bt_insert k v m
      else if k = fst p then (k, v) # m
      else (k, v) # p # m)"

definition bt_remove :: "'k \<Rightarrow> ('k \<times> 'v) list \<Rightarrow> ('k \<times> 'v) list" where
  "bt_remove k m = filter (\<lambda>p. fst p \<noteq> k) m"

definition bt_ok :: "('k::linorder \<times> 'v) list \<Rightarrow> bool" where
  "bt_ok m = sorted_wrt (<) (map fst m)"

text \<open>The contract a client of an ordered map relies on, and what follows from it alone.\<close>

locale ordered_map =
  fixes emp :: 'm
    and ins :: "'k::linorder \<Rightarrow> 'v \<Rightarrow> 'm \<Rightarrow> 'm"
    and del :: "'k \<Rightarrow> 'm \<Rightarrow> 'm"
    and get :: "'m \<Rightarrow> 'k \<Rightarrow> 'v option"
    and inv :: "'m \<Rightarrow> bool"
  assumes inv_emp: "inv emp"
    and inv_ins: "inv m \<Longrightarrow> inv (ins k v m)"
    and inv_del: "inv m \<Longrightarrow> inv (del k m)"
    and get_emp: "get emp k = None"
    and get_ins: "inv m \<Longrightarrow> get (ins k v m) j = (if j = k then Some v else get m j)"
    and get_del: "inv m \<Longrightarrow> get (del k m) j = (if j = k then None else get m j)"
    and ext: "inv m \<Longrightarrow> inv n \<Longrightarrow> (\<And>j. get m j = get n j) \<Longrightarrow> m = n"
begin

lemma ins_commute:
  assumes "inv m" and "j \<noteq> k"
  shows "ins j u (ins k v m) = ins k v (ins j u m)"
  by (rule ext) (use assms in \<open>auto simp: inv_ins get_ins\<close>)

lemma ins_overwrite: "inv m \<Longrightarrow> ins k u (ins k v m) = ins k u m"
  by (rule ext) (auto simp: inv_ins get_ins)

lemma del_ins_same: "inv m \<Longrightarrow> del k (ins k v m) = del k m"
  by (rule ext) (auto simp: inv_ins inv_del get_ins get_del)

lemma del_ins_other: "inv m \<Longrightarrow> j \<noteq> k \<Longrightarrow> del j (ins k v m) = ins k v (del j m)"
  by (rule ext) (auto simp: inv_ins inv_del get_ins get_del)

lemma del_absent: "inv m \<Longrightarrow> get m k = None \<Longrightarrow> del k m = m"
  by (rule ext) (auto simp: inv_del get_del)

lemma ins_present: "inv m \<Longrightarrow> get m k = Some v \<Longrightarrow> ins k v m = m"
  by (rule ext) (auto simp: inv_ins get_ins)

end

lemma set_bt_insert: "fst ` set (bt_insert k v m) = insert k (fst ` set m)"
  by (induction m) auto

lemma values_bt_insert: "q \<in> set (bt_insert k v m) \<Longrightarrow> snd q = v \<or> q \<in> set m"
  by (induction m) (auto split: if_splits)

lemma values_bt_remove: "q \<in> set (bt_remove k m) \<Longrightarrow> q \<in> set m"
  by (simp add: bt_remove_def)

lemma bt_ok_Nil [simp]: "bt_ok []"
  by (simp add: bt_ok_def)

lemma bt_ok_Cons: "bt_ok (p # m) \<longleftrightarrow> (\<forall>q \<in> set m. fst p < fst q) \<and> bt_ok m"
  by (auto simp: bt_ok_def)

lemma bt_ok_insert: "bt_ok m \<Longrightarrow> bt_ok (bt_insert k v m)"
proof (induction m)
  case (Cons p m)
  show ?case
  proof (cases "fst p < k")
    case True
    have "fst p < fst q" if "q \<in> set (bt_insert k v m)" for q
    proof -
      from that have "fst q \<in> insert k (fst ` set m)"
        by (metis image_eqI set_bt_insert)
      with True Cons.prems show ?thesis by (auto simp: bt_ok_Cons)
    qed
    with True Cons show ?thesis by (simp add: bt_ok_Cons)
  next
    case False
    with Cons.prems show ?thesis by (auto simp: bt_ok_Cons not_less order.strict_trans2)
  qed
qed (simp add: bt_ok_Cons)

lemma bt_ok_remove: "bt_ok m \<Longrightarrow> bt_ok (bt_remove k m)"
  by (simp add: bt_ok_def bt_remove_def sorted_wrt_map sorted_wrt_filter)

lemma map_of_bt_insert: "bt_ok m \<Longrightarrow> map_of (bt_insert k v m) j = (if j = k then Some v else map_of m j)"
  by (induction m) (auto simp: bt_ok_Cons split: if_splits)

lemma map_of_bt_remove: "map_of (bt_remove k m) j = (if j = k then None else map_of m j)"
  by (induction m) (auto simp: bt_remove_def)

lemma bt_get_below: "\<forall>q \<in> set m. (k::'k::linorder) < fst q \<Longrightarrow> map_of m k = None"
  by (induction m) auto

lemma bt_ext: "bt_ok m \<Longrightarrow> bt_ok n \<Longrightarrow> (\<And>j. map_of m j = map_of n j) \<Longrightarrow> m = n"
proof -
  assume m: "bt_ok m" and n: "bt_ok n" and eq: "\<And>j. map_of m j = map_of n j"
  have dist: "distinct (map fst l)" if "bt_ok l" for l :: "('a \<times> 'b) list"
    using that unfolding bt_ok_def by (simp add: strict_sorted_iff)
  from eq have "map_of m = map_of n" by (rule ext)
  with m n have "set m = set n"
    by (metis dist map_of_inject_set)
  moreover have "sorted (map fst m)" "sorted (map fst n)"
    using m n unfolding bt_ok_def by (simp_all add: strict_sorted_iff)
  ultimately show ?thesis
    using dist [OF m] dist [OF n] by (metis map_sorted_distinct_set_unique set_map distinct_map
        Un_absorb)
qed

interpretation bt: ordered_map "[] :: ('k::linorder \<times> 'v) list" bt_insert bt_remove map_of bt_ok
  by unfold_locales
    (simp_all add: bt_ok_insert bt_ok_remove map_of_bt_insert map_of_bt_remove bt_ext)

lemmas bt_simps = map_of_bt_insert map_of_bt_remove bt_ok_insert bt_ok_remove

end
