(* ===== verification/Json.thy ===== *)
theory Json
  imports Base
begin

text \<open>
  The JSON values every component passes around (\<open>serde_json::Value\<close>), the accessors the code
  uses on them, and the third-party code of Layer 0 as one parameter: a record \<open>libs\<close> holds
  the JSON printer, the JSON parser and the blake3 digest in hexadecimal. What the code relies
  on is stated as named predicates over that record (\<open>serde_laws\<close>, \<open>digest_laws\<close>).
\<close>

subsection \<open>Values\<close>

text \<open>
  A number is an unsigned or a negative 64-bit integer, or a float by its IEEE bits; an object
  is an ordered map with distinct keys.
\<close>

datatype number = PosInt u64 | NegInt u64 | Float u64

datatype json =
    JNull
  | JBool bool
  | JNum number
  | JStr string
  | JArr "json list"
  | JObj "(string \<times> json) list"

lemma size_member: "(k, v) \<in> set m \<Longrightarrow> size v < Suc (size_list (size_prod (\<lambda>x. 0) size) m)"
  by (induction m) auto

lemma size_element: "v \<in> set vs \<Longrightarrow> size v < Suc (size_list size vs)"
  by (induction vs) auto

text \<open>Values as the program can hold them: the keys of every object are in order.\<close>

function jwf :: "json \<Rightarrow> bool" where
  "jwf JNull = True"
| "jwf (JBool b) = True"
| "jwf (JNum n) = True"
| "jwf (JStr s) = True"
| "jwf (JArr vs) = (\<forall>v \<in> set vs. jwf v)"
| "jwf (JObj m) = (bt_ok m \<and> (\<forall>v \<in> snd ` set m. jwf v))"
  by pat_completeness auto
termination
  by (relation "measure size") (auto simp: size_member size_element)

text \<open>No float at any depth, inside arrays too.\<close>

function no_float :: "json \<Rightarrow> bool" where
  "no_float JNull = True"
| "no_float (JBool b) = True"
| "no_float (JNum n) = (case n of Float _ \<Rightarrow> False | _ \<Rightarrow> True)"
| "no_float (JStr s) = True"
| "no_float (JArr vs) = (\<forall>v \<in> set vs. no_float v)"
| "no_float (JObj m) = (\<forall>v \<in> snd ` set m. no_float v)"
  by pat_completeness auto
termination
  by (relation "measure size") (auto simp: size_member size_element)

subsection \<open>Accessors\<close>

text \<open>
  \<open>as_object\<close>, \<open>as_str\<close>, \<open>as_u64\<close>, \<open>as_bool\<close>, \<open>get\<close> and the indexing \<open>v["k"]\<close>, which
  reads \<open>Null\<close> where the key is missing or the value is no object.
\<close>

fun as_object :: "json \<Rightarrow> (string \<times> json) list option" where
  "as_object (JObj m) = Some m"
| "as_object _ = None"

fun as_str :: "json \<Rightarrow> string option" where
  "as_str (JStr s) = Some s"
| "as_str _ = None"

fun as_u64 :: "json \<Rightarrow> u64 option" where
  "as_u64 (JNum (PosInt n)) = Some n"
| "as_u64 _ = None"

fun as_bool :: "json \<Rightarrow> bool option" where
  "as_bool (JBool b) = Some b"
| "as_bool _ = None"

fun jget :: "json \<Rightarrow> string \<Rightarrow> json option" where
  "jget (JObj m) k = map_of m k"
| "jget _ k = None"

definition jidx :: "json \<Rightarrow> string \<Rightarrow> json" where
  "jidx v k = unwrap_or (jget v k) JNull"

text \<open>
  Writing \<open>v["k"] = x\<close>: a missing key is added, \<open>Null\<close> becomes an object, and any other value
  panics (\<open>None\<close>).
\<close>

fun jset :: "json \<Rightarrow> string \<Rightarrow> json \<Rightarrow> json option" where
  "jset (JObj m) k x = Some (JObj (bt_insert k x m))"
| "jset JNull k x = Some (JObj [(k, x)])"
| "jset _ k x = None"

text \<open>The \<open>json!\<close> literals: an object from its fields in the order they are written.\<close>

definition jobject :: "(string \<times> json) list \<Rightarrow> json" where
  "jobject fields = JObj (fold (\<lambda>(k, v). bt_insert k v) fields [])"

abbreviation ju64 :: "u64 \<Rightarrow> json" where
  "ju64 n \<equiv> JNum (PosInt n)"

lemma jget_Some: "jget v k = Some x \<longleftrightarrow> (\<exists>m. v = JObj m \<and> map_of m k = Some x)"
  by (cases v) simp_all

lemma as_object_Some [simp]: "as_object v = Some m \<longleftrightarrow> v = JObj m"
  by (cases v) simp_all

lemma as_str_Some [simp]: "as_str v = Some s \<longleftrightarrow> v = JStr s"
  by (cases v) simp_all

lemma as_u64_Some: "as_u64 v = Some n \<longleftrightarrow> v = JNum (PosInt n)"
  by (cases v rule: as_u64.cases) simp_all

lemma jwf_insert: "jwf (JObj m) \<Longrightarrow> jwf v \<Longrightarrow> jwf (JObj (bt_insert k v m))"
  by (auto simp: bt_ok_insert dest!: values_bt_insert)

lemma jwf_remove: "jwf (JObj m) \<Longrightarrow> jwf (JObj (bt_remove k m))"
  by (auto simp: bt_ok_remove dest!: values_bt_remove)

lemma no_float_insert: "no_float (JObj m) \<Longrightarrow> no_float v \<Longrightarrow> no_float (JObj (bt_insert k v m))"
  by (auto dest!: values_bt_insert)

lemma no_float_remove: "no_float (JObj m) \<Longrightarrow> no_float (JObj (bt_remove k m))"
  by (auto dest!: values_bt_remove)

lemma jwf_jobject:
  assumes "\<forall>(k, v) \<in> set fields. jwf v"
  shows "jwf (jobject fields)"
proof -
  have "jwf (JObj m) \<Longrightarrow> \<forall>(k, v) \<in> set fs. jwf v \<Longrightarrow>
      jwf (JObj (fold (\<lambda>(k, v). bt_insert k v) fs m))" for fs m
    by (induction fs arbitrary: m) (auto simp: jwf_insert simp del: jwf.simps)
  from this [of "[]" fields] assms show ?thesis by (simp add: jobject_def del: jwf.simps(6)) (simp)
qed

subsection \<open>Third-party code as a parameter\<close>

text \<open>
  \<open>to_vec\<close> is \<open>serde_json::to_writer\<close> / \<open>to_vec\<close> on a value (\<open>None\<close> when the serializer
  fails), \<open>from_slice\<close> the parser, \<open>b3hex\<close> is \<open>blake3::hash(..).to_hex()\<close> and \<open>b3_bytes\<close>
  is \<open>blake3::hash(..).as_bytes()\<close>.
\<close>

record libs =
  to_vec :: "json \<Rightarrow> bytes option"
  from_slice :: "bytes \<Rightarrow> json option"
  b3hex :: "bytes \<Rightarrow> string"
  b3_bytes :: "bytes \<Rightarrow> u8 list"

text \<open>The members of an object as the compact printer writes them.\<close>

fun compact_members :: "libs \<Rightarrow> (string \<times> json) list \<Rightarrow> bytes option" where
  "compact_members L [] = Some []"
| "compact_members L ((k, v) # m) =
     (case (to_vec L (JStr k), to_vec L v, compact_members L m) of
        (Some kb, Some vb, Some rest) \<Rightarrow>
          Some (kb @ '':'' @ vb @ (if m = [] then [] else '','' @ rest))
      | _ \<Rightarrow> None)"

text \<open>
  The documented behaviour of \<open>serde_json\<close> the code relies on: serialising a \<open>Value\<close> to memory
  succeeds; the compact form of an object is its members between braces, without whitespace;
  the compact form has no line feed and is not empty; parsing it gives the value back (floats
  are left out: without the \<open>float_roundtrip\<close> feature they may come back one unit off). The parser
  refuses values nested 128 levels deep or more, which the last law does not say; the values the
  services print and read back were read by that same parser, or are flat ones of their own making.
\<close>

definition serde_laws :: "libs \<Rightarrow> bool" where
  "serde_laws L \<longleftrightarrow>
     (\<forall>v. \<exists>b. to_vec L v = Some b \<and> b \<noteq> [] \<and> CHR 0x0A \<notin> set b) \<and>
     (\<forall>m. to_vec L (JObj m) = map_option (\<lambda>b. ''{'' @ b @ ''}'') (compact_members L m)) \<and>
     (\<forall>v. jwf v \<and> no_float v \<longrightarrow> from_slice L (the (to_vec L v)) = Some v)"

text \<open>A digest is 32 bytes, 64 hexadecimal characters.\<close>

definition digest_laws :: "libs \<Rightarrow> bool" where
  "digest_laws L \<longleftrightarrow> (\<forall>b. length (b3hex L b) = 64 \<and> length (b3_bytes L b) = 32)"

lemma serde_total: "serde_laws L \<Longrightarrow> \<exists>b. to_vec L v = Some b"
  unfolding serde_laws_def by blast

lemma serde_line: "serde_laws L \<Longrightarrow> to_vec L v = Some b \<Longrightarrow> b \<noteq> [] \<and> CHR 0x0A \<notin> set b"
  unfolding serde_laws_def by (metis option.inject)

lemma serde_object:
  "serde_laws L \<Longrightarrow> to_vec L (JObj m) = map_option (\<lambda>b. ''{'' @ b @ ''}'') (compact_members L m)"
  unfolding serde_laws_def by blast

lemma serde_roundtrip:
  "serde_laws L \<Longrightarrow> jwf v \<Longrightarrow> no_float v \<Longrightarrow> to_vec L v = Some b \<Longrightarrow> from_slice L b = Some v"
  unfolding serde_laws_def by (metis option.sel)

lemma to_vec_inj:
  assumes "serde_laws L" "jwf v" "no_float v" "jwf w" "no_float w" "to_vec L v = to_vec L w"
  shows "v = w"
proof -
  obtain b where "to_vec L v = Some b" using serde_total [OF assms(1)] by blast
  then show ?thesis using assms serde_roundtrip by (metis option.inject)
qed

end
