(* ===== verification/Events.thy ===== *)
theory Events
  imports Json
begin

text \<open>
  \<open>crates/vihs-core/src/event.rs\<close> and \<open>ids.rs\<close>: the typed event of the log and the session
  identifier. The conversion between JSON values and events is code that serde derives, so it
  stays a parameter where a component uses it.
\<close>

definition EVENT_V :: u32 where
  "EVENT_V = 1"

datatype role = User | Assistant | System | Tool

datatype kind = Utterance | ToolCall | ToolResult | Note | Summary

record covers =
  from_turn :: u64
  to_turn :: u64

record meta =
  m_asr_conf_bp :: "u32 option"
  m_interrupted :: bool
  m_latency_ms :: "u64 option"
  m_voice :: "string option"
  m_tokens :: "u64 option"
  m_covers :: "covers option"
  m_epoch :: "u64 option"
  m_owner :: "string option"

definition default_meta :: meta where
  "default_meta = \<lparr>m_asr_conf_bp = None, m_interrupted = False, m_latency_ms = None,
     m_voice = None, m_tokens = None, m_covers = None, m_epoch = None, m_owner = None\<rparr>"

record event =
  ev_v :: u32
  ev_session_id :: string
  ev_turn_id :: u64
  ev_ts :: string
  ev_role :: role
  ev_kind :: kind
  ev_text :: string
  ev_audio_ref :: "string option"
  ev_meta :: meta
  ev_prev_hash :: string
  ev_hash :: string

definition is_utterance :: "event \<Rightarrow> bool" where
  "is_utterance e = (ev_kind e = Utterance)"

definition is_summary :: "event \<Rightarrow> bool" where
  "is_summary e = (ev_kind e = Summary)"

text \<open>The display prefix of a session id: four bytes at most; \<open>None\<close> is a panic.\<close>

definition short :: "string \<Rightarrow> string option" where
  "short sid = str_slice sid 0 (min 4 (length sid))"

lemma short_ascii: "ascii sid \<Longrightarrow> short sid = Some (take 4 sid)"
  by (simp add: short_def ascii_slice min_def)

end
