(* ===== verification/Decimal.thy ===== *)
theory Decimal
  imports Base
begin

text \<open>
  The standard library's decimal formatting and parsing of integers, as the code uses them:
  \<open>to_string()\<close> / \<open>{}\<close> in keys, Redis fields and rendered text, \<open>{:012}\<close> in object keys, and
  \<open>str::parse\<close> on the way back. Parsing takes an optional sign, at least one digit, and fails
  on a value out of range.
\<close>

definition digit_char :: "nat \<Rightarrow> char" where
  "digit_char d = char_of (48 + d)"

fun show_nat :: "nat \<Rightarrow> string" where
  "show_nat n = (if n < 10 then [digit_char n] else show_nat (n div 10) @ [digit_char (n mod 10)])"

declare show_nat.simps [simp del]

definition show_u64 :: "u64 \<Rightarrow> string" where
  "show_u64 w = show_nat (unat w)"

definition show_u32 :: "u32 \<Rightarrow> string" where
  "show_u32 w = show_nat (unat w)"

definition show_int :: "int \<Rightarrow> string" where
  "show_int i = (if i < 0 then ''-'' @ show_nat (nat (- i)) else show_nat (nat i))"

text \<open>\<open>{:012}\<close>: zeros on the left up to twelve characters.\<close>

definition pad12 :: "string \<Rightarrow> string" where
  "pad12 s = replicate (12 - length s) (CHR ''0'') @ s"

definition digit_val :: "char \<Rightarrow> nat option" where
  "digit_val c = (if 48 \<le> (of_char c :: nat) \<and> (of_char c :: nat) \<le> 57 then Some (of_char c - 48) else None)"

fun digits_val :: "nat \<Rightarrow> string \<Rightarrow> nat option" where
  "digits_val acc [] = Some acc"
| "digits_val acc (c # cs) = (case digit_val c of None \<Rightarrow> None | Some d \<Rightarrow> digits_val (10 * acc + d) cs)"

definition parse_nat :: "string \<Rightarrow> nat option" where
  "parse_nat s = (if s = [] then None else digits_val 0 s)"

definition drop_plus :: "string \<Rightarrow> string" where
  "drop_plus s = (if s \<noteq> [] \<and> hd s = CHR ''+'' then tl s else s)"

definition parse_u64 :: "string \<Rightarrow> u64 option" where
  "parse_u64 s =
     (case parse_nat (drop_plus s) of
        None \<Rightarrow> None
      | Some n \<Rightarrow> if int n < 2 ^ 64 then Some (of_nat n) else None)"

definition parse_i64 :: "string \<Rightarrow> int option" where
  "parse_i64 s =
     (if s \<noteq> [] \<and> hd s = CHR ''-'' then
        (case parse_nat (tl s) of Some n \<Rightarrow> if int n \<le> 2 ^ 63 then Some (- int n) else None | None \<Rightarrow> None)
      else
        (case parse_nat (drop_plus s) of
           Some n \<Rightarrow> if int n < 2 ^ 63 then Some (int n) else None | None \<Rightarrow> None))"

subsection \<open>Round trips\<close>

lemma digit_val_char: "d < 10 \<Longrightarrow> digit_val (digit_char d) = Some d"
  by (simp add: digit_val_def digit_char_def)

lemma digits_val_append:
  "digits_val acc (xs @ ys) = Option.bind (digits_val acc xs) (\<lambda>a. digits_val a ys)"
  by (induction xs arbitrary: acc) (auto split: option.splits)

lemma digits_val_zeros: "digits_val 0 (replicate n (CHR ''0'') @ s) = digits_val 0 s"
  by (induction n) (auto simp: digit_val_def)

lemma digits_val_show: "digits_val 0 (show_nat n) = Some n"
proof (induction n rule: show_nat.induct)
  case (1 n)
  then show ?case
    by (cases "n < 10") (simp_all add: show_nat.simps [of n] digits_val_append digit_val_char)
qed

lemma show_nat_ne: "show_nat n \<noteq> []"
  by (simp add: show_nat.simps [of n])

lemma parse_nat_show: "parse_nat (replicate k (CHR ''0'') @ show_nat n) = Some n"
  by (simp add: parse_nat_def digits_val_zeros digits_val_show show_nat_ne)

lemma show_nat_digits: "c \<in> set (show_nat n) \<Longrightarrow> \<exists>d<10. c = digit_char d"
proof (induction n rule: show_nat.induct)
  case (1 n)
  then show ?case
    using mod_less_divisor [of 10 n]
    by (cases "n < 10") (auto simp: show_nat.simps [of n] simp del: mod_less_divisor)
qed

lemma digit_char_neq:
  assumes "d < 10"
  shows "digit_char d \<noteq> CHR ''+''" "digit_char d \<noteq> CHR ''-''" "digit_char d \<noteq> CHR ''/''"
    "digit_char d \<noteq> CHR ''.''" "digit_char d \<noteq> CHR 0x0A"
proof -
  from assms have "d \<in> {0,1,2,3,4,5,6,7,8,9}" by auto
  then show "digit_char d \<noteq> CHR ''+''" "digit_char d \<noteq> CHR ''-''" "digit_char d \<noteq> CHR ''/''"
    "digit_char d \<noteq> CHR ''.''" "digit_char d \<noteq> CHR 0x0A"
    by (auto simp: digit_char_def char_of_eq_iff)
qed

lemma show_nat_clean:
  "CHR ''+'' \<notin> set (show_nat n)" "CHR ''-'' \<notin> set (show_nat n)" "CHR ''/'' \<notin> set (show_nat n)"
  "CHR ''.'' \<notin> set (show_nat n)" "CHR 0x0A \<notin> set (show_nat n)"
  using digit_char_neq show_nat_digits by metis+

lemma no_sign: "CHR ''+'' \<notin> set s \<Longrightarrow> drop_plus s = s"
  by (cases s) (auto simp: drop_plus_def)

lemma uint_range: "uint (w :: u64) < 18446744073709551616"
  by (rule order.strict_trans2 [OF unsigned_less]) simp

lemma parse_show_u64 [simp]: "parse_u64 (show_u64 w) = Some w"
  using parse_nat_show [of 0 "unat w"] no_sign [OF show_nat_clean(1), of "unat w"] uint_range [of w]
  by (simp add: parse_u64_def show_u64_def)

lemma parse_pad12_u64 [simp]: "parse_u64 (pad12 (show_u64 w)) = Some w"
proof -
  have "CHR ''+'' \<notin> set (pad12 (show_nat (unat w)))"
    by (auto simp: pad12_def show_nat_clean)
  then have "drop_plus (pad12 (show_nat (unat w))) = pad12 (show_nat (unat w))" by (rule no_sign)
  then show ?thesis
    using parse_nat_show uint_range [of w]
    by (simp add: parse_u64_def show_u64_def pad12_def)
qed

lemma parse_show_i64: "- (2 ^ 63) \<le> i \<Longrightarrow> i < 2 ^ 63 \<Longrightarrow> parse_i64 (show_int i) = Some i"
proof (cases "i < 0")
  case True
  moreover assume "- (2 ^ 63) \<le> i"
  ultimately show ?thesis
    using parse_nat_show [of 0 "nat (- i)"] by (simp add: parse_i64_def show_int_def nat_le_iff)
next
  case False
  moreover assume "i < 2 ^ 63"
  moreover have "hd (show_nat (nat i)) \<noteq> CHR ''-''"
    using show_nat_clean(2) show_nat_ne by (metis list.set_sel(1))
  ultimately show ?thesis
    using parse_nat_show [of 0 "nat i"] no_sign [OF show_nat_clean(1), of "nat i"]
    by (simp add: parse_i64_def show_int_def nat_less_iff)
qed

lemma show_u64_inj: "show_u64 v = show_u64 w \<Longrightarrow> v = w"
  by (metis option.inject parse_show_u64)

lemma pad12_u64_inj: "pad12 (show_u64 v) = pad12 (show_u64 w) \<Longrightarrow> v = w"
  by (metis option.inject parse_pad12_u64)

end
