(* ===== verification/Render.thy ===== *)
theory Render
  imports Events Decimal
begin

text \<open>
  \<open>crates/vihs-core/src/render.rs\<close>: the transcript and the continuity memory as functions of the
  events. A render is \<open>None\<close> where the code would panic, which it does when a slice cuts a
  character of a session id or of a timestamp. The lemmas say when a render exists, how an
  append changes it, which turns the memory keeps, and that only the last summary counts.
\<close>

subsection \<open>Text\<close>

abbreviation em_dash :: string where "em_dash \<equiv> [CHR 0xE2, CHR 0x80, CHR 0x94]"
abbreviation en_dash :: string where "en_dash \<equiv> [CHR 0xE2, CHR 0x80, CHR 0x93]"
abbreviation mid_dot :: string where "mid_dot \<equiv> [CHR 0xC2, CHR 0xB7]"
abbreviation nl :: string where "nl \<equiv> [CHR 0x0A]"
abbreviation dquote :: string where "dquote \<equiv> [CHR 0x22]"

definition INTERRUPTED_MARK :: string where
  "INTERRUPTED_MARK =
     [CHR 0xE2, CHR 0x9F, CHR 0xAA] @ ''interrupted'' @ [CHR 0xE2, CHR 0x9F, CHR 0xAB]"

text \<open>
  \<open>str::lines\<close>: a line ends at a line feed, a carriage return before it goes too; the last
  piece is a line when it is not empty and keeps its carriage return.
\<close>

definition strip_cr :: "string \<Rightarrow> string" where
  "strip_cr l = (if l \<noteq> [] \<and> last l = CHR 0x0D then butlast l else l)"

fun lines_from :: "string \<Rightarrow> string \<Rightarrow> string list" where
  "lines_from acc [] = (if acc = [] then [] else [acc])"
| "lines_from acc (c # cs) =
     (if c = CHR 0x0A then strip_cr acc # lines_from [] cs else lines_from (acc @ [c]) cs)"

definition str_lines :: "string \<Rightarrow> string list" where
  "str_lines s = lines_from [] s"

text \<open>Pieces pushed one after the other; one panic ends the whole render.\<close>

fun push_all :: "string option list \<Rightarrow> string option" where
  "push_all [] = Some []"
| "push_all (p # ps) = Option.bind p (\<lambda>s. map_option ((@) s) (push_all ps))"

subsection \<open>Speakers and times\<close>

definition is_persona :: "event \<Rightarrow> bool" where
  "is_persona e = (ev_role e = System \<and> ev_kind e \<noteq> Summary \<and> m_owner (ev_meta e) = None)"

definition persona_name :: "event list \<Rightarrow> string" where
  "persona_name events = (case find is_persona events of Some e \<Rightarrow> ev_text e | None \<Rightarrow> ''Assistant'')"

definition speaker_label :: "event \<Rightarrow> string \<Rightarrow> string" where
  "speaker_label e persona = (case ev_role e of User \<Rightarrow> ''User'' | _ \<Rightarrow> persona)"

definition hhmm :: "string \<Rightarrow> string option" where
  "hhmm ts = (if length ts \<ge> 16 then str_slice ts 11 16 else Some ''--:--'')"

text \<open>One utterance: speaker, time, text, and the marker when the audio was cut off.\<close>

definition render_line :: "string \<Rightarrow> event \<Rightarrow> string option" where
  "render_line persona e =
     map_option (\<lambda>t. ''**'' @ speaker_label e persona @ ''** ('' @ t @ ''): '' @ ev_text e @
       (if m_interrupted (ev_meta e) then '' '' @ INTERRUPTED_MARK else []) @ nl) (hhmm (ev_ts e))"

definition first_short :: "event list \<Rightarrow> string option" where
  "first_short events = (case events of [] \<Rightarrow> Some ''????'' | e # _ \<Rightarrow> short (ev_session_id e))"

subsection \<open>The transcript\<close>

definition render_transcript :: "event list \<Rightarrow> string option" where
  "render_transcript events =
     (let persona = persona_name events in
      push_all ([Some ''# Session '', first_short events, Some ('' '' @ em_dash @ '' Transcript'' @ nl),
          Some (''Persona: '' @ dquote @ persona @ dquote @ nl @ nl)] @
        map (render_line persona) (filter is_utterance events)))"

subsection \<open>The continuity memory\<close>

definition last_summary :: "event list \<Rightarrow> event option" where
  "last_summary events = find is_summary (rev events)"

definition last_turn_of :: "event list \<Rightarrow> u64" where
  "last_turn_of events = fold max (map ev_turn_id events) 0"

definition cover_to :: "event list \<Rightarrow> u64" where
  "cover_to events =
     (case Option.bind (last_summary events) (\<lambda>s. m_covers (ev_meta s)) of
        Some c \<Rightarrow> to_turn c | None \<Rightarrow> 0)"

definition tail_from :: "event list \<Rightarrow> u64" where
  "tail_from events = saturating_add (cover_to events) 1"

definition tail_events :: "event list \<Rightarrow> event list" where
  "tail_events events = filter (\<lambda>e. is_utterance e \<and> ev_turn_id e \<ge> tail_from events) events"

text \<open>
  The loop over the tail, newest event first: a turn is added when it is new, and the loop ends
  as soon as there are \<open>tail\<close> turns.
\<close>

fun collect_turns :: "nat \<Rightarrow> u64 list \<Rightarrow> u64 list \<Rightarrow> u64 list" where
  "collect_turns tail seen [] = seen"
| "collect_turns tail seen (t # ts) =
     (let seen' = (if t \<in> set seen then seen else seen @ [t]) in
      if length seen' \<ge> tail then seen' else collect_turns tail seen' ts)"

definition kept_events :: "event list \<Rightarrow> nat \<Rightarrow> event list" where
  "kept_events events tail =
     (let seen_turns = rev (collect_turns tail [] (map ev_turn_id (rev (tail_events events)))) in
      filter (\<lambda>e. ev_turn_id e \<in> set seen_turns) (tail_events events))"

definition summary_block :: "event \<Rightarrow> u64 \<Rightarrow> string" where
  "summary_block s cov =
     (let (from, upto) = (case m_covers (ev_meta s) of Some c \<Rightarrow> (from_turn c, to_turn c) | None \<Rightarrow> (1, cov)) in
      ''## Summary (turns '' @ show_u64 from @ en_dash @ show_u64 upto @ '')'' @ nl @
      concat (map (\<lambda>l. ''> '' @ l @ nl) (str_lines (ev_text s))) @ nl)"

definition render_memory :: "event list \<Rightarrow> nat \<Rightarrow> string option" where
  "render_memory events verbatim_tail =
     (let persona = persona_name events;
          summary = last_summary events;
          last_turn = last_turn_of events;
          cov = cover_to events in
      push_all ([Some ''# Session '', first_short events, Some ('' '' @ em_dash @ '' Continuity Memory'' @ nl),
          Some (''Persona: '' @ dquote @ persona @ dquote @ '' '' @ mid_dot @ '' Turns: '' @ show_u64 last_turn),
          Some (case summary of None \<Rightarrow> []
             | Some s \<Rightarrow> '' '' @ mid_dot @ '' Compacted through turn '' @
                 show_u64 (case m_covers (ev_meta s) of Some c \<Rightarrow> to_turn c | None \<Rightarrow> 0)),
          Some (nl @ nl),
          Some (case summary of None \<Rightarrow> [] | Some s \<Rightarrow> summary_block s cov),
          Some (if summary \<noteq> None
            then ''## Recent turns ('' @ show_u64 (tail_from events) @ en_dash @ show_u64 last_turn @
                   '', verbatim)'' @ nl
            else ''## Recent turns (verbatim)'' @ nl)] @
        map (render_line persona) (kept_events events verbatim_tail)))"

subsection \<open>When a render exists\<close>

lemma push_all_eq: "push_all ps = (if None \<in> set ps then None else Some (concat (map the ps)))"
proof (induction ps)
  case (Cons p ps)
  then show ?case by (cases p) auto
qed simp

lemma push_all_append: "push_all (ps @ qs) = Option.bind (push_all ps) (\<lambda>s. map_option ((@) s) (push_all qs))"
  by (auto simp: push_all_eq)

text \<open>
  A timestamp is whatever string the client sent: one of at least sixteen bytes with a character
  that starts before byte 11 and goes on there makes the slice of the time panic.
\<close>

lemma hhmm_panics: "16 \<le> length ts \<Longrightarrow> is_continuation (ts ! 11) \<Longrightarrow> hhmm ts = None"
  by (auto simp: hhmm_def str_slice_def char_boundary_def)

lemma render_line_panics: "16 \<le> length (ev_ts e) \<Longrightarrow> is_continuation (ev_ts e ! 11) \<Longrightarrow> render_line persona e = None"
  by (simp add: render_line_def hhmm_panics)

lemma hhmm_ascii: "ascii ts \<Longrightarrow> hhmm ts \<noteq> None"
  by (simp add: hhmm_def ascii_slice)

lemma render_line_ascii: "ascii (ev_ts e) \<Longrightarrow> render_line p e \<noteq> None"
  by (simp add: render_line_def hhmm_ascii)

lemma first_short_ascii: "\<forall>e \<in> set es. ascii (ev_session_id e) \<Longrightarrow> first_short es \<noteq> None"
  by (cases es) (simp_all add: first_short_def short_ascii)

subsection \<open>Appending to a log\<close>

lemma find_append: "find P (xs @ ys) = (case find P xs of None \<Rightarrow> find P ys | Some x \<Rightarrow> Some x)"
  by (induction xs) auto

lemma persona_name_snoc:
  assumes "find is_persona es \<noteq> None \<or> \<not> is_persona e"
  shows "persona_name (es @ [e]) = persona_name es"
  using assms by (auto simp: persona_name_def find_append split: option.splits)

lemma first_short_append: "es \<noteq> [] \<Longrightarrow> first_short (es @ fs) = first_short es"
  by (cases es) (simp_all add: first_short_def)

definition transcript_pieces :: "event list \<Rightarrow> string option list" where
  "transcript_pieces es =
     [Some ''# Session '', first_short es, Some ('' '' @ em_dash @ '' Transcript'' @ nl),
      Some (''Persona: '' @ dquote @ persona_name es @ dquote @ nl @ nl)] @
     map (render_line (persona_name es)) (filter is_utterance es)"

lemma render_transcript_pieces: "render_transcript es = push_all (transcript_pieces es)"
  by (simp only: render_transcript_def transcript_pieces_def Let_def)

subsection \<open>The window of turns\<close>

lemma remdups_snoc: "remdups (xs @ [x]) = remdups (filter (\<lambda>y. y \<noteq> x) xs) @ [x]"
  by (induction xs) auto

lemma collect_turns_eq:
  assumes "length seen < tail \<or> seen = []" and "seen \<noteq> [] \<or> ts \<noteq> []"
  shows "collect_turns tail seen ts =
    take (max 1 tail) (seen @ rev (remdups (filter (\<lambda>t. t \<notin> set seen) (rev ts))))"
  using assms
proof (induction ts arbitrary: seen)
  case Nil
  then show ?case by auto
next
  case (Cons t ts)
  show ?case
  proof (cases "t \<in> set seen")
    case True
    then have "length seen < tail" "seen \<noteq> []" using Cons.prems by auto
    with True Cons.IH [of seen] show ?thesis by simp
  next
    case False
    let ?new = "seen @ [t]"
    have eq: "seen @ rev (remdups (filter (\<lambda>x. x \<notin> set seen) (rev (t # ts)))) =
        ?new @ rev (remdups (filter (\<lambda>x. x \<notin> set ?new) (rev ts)))"
      using False by (simp add: remdups_snoc conj_commute)
    show ?thesis
    proof (cases "tail \<le> length ?new")
      case True
      with Cons.prems have "max 1 tail = length ?new" by auto
      then have "take (max 1 tail) (?new @ rev (remdups (filter (\<lambda>x. x \<notin> set ?new) (rev ts)))) = ?new"
        by (metis append_eq_conv_conj)
      with False True show ?thesis unfolding eq by simp
    next
      case more: False
      then have "collect_turns tail seen (t # ts) = collect_turns tail ?new ts"
        using False by simp
      also have "\<dots> = take (max 1 tail) (?new @ rev (remdups (filter (\<lambda>x. x \<notin> set ?new) (rev ts))))"
        using more by (intro Cons.IH) auto
      finally show ?thesis unfolding eq .
    qed
  qed
qed

text \<open>The turns in play, each once, in the order of their last utterance.\<close>

definition tail_turns :: "event list \<Rightarrow> u64 list" where
  "tail_turns events = remdups (map ev_turn_id (tail_events events))"

lemma kept_events_eq:
  "kept_events events tail =
     filter (\<lambda>e. ev_turn_id e \<in> set (take (max 1 tail) (rev (tail_turns events)))) (tail_events events)"
proof (cases "tail_events events = []")
  case False
  then have "collect_turns tail [] (map ev_turn_id (rev (tail_events events))) =
      take (max 1 tail) (rev (tail_turns events))"
    by (subst collect_turns_eq) (simp_all add: tail_turns_def rev_map)
  then show ?thesis by (simp add: kept_events_def)
qed (simp add: kept_events_def)

subsection \<open>The last summary\<close>

lemma last_summary_append_Some:
  "last_summary ys \<noteq> None \<Longrightarrow> last_summary (xs @ ys) = last_summary ys"
  by (auto simp: last_summary_def find_append split: option.splits)

lemma fold_max_eq: "fold max ts (a::'a::linorder) = Max (insert a (set ts))"
  by (metis Max.set_eq_fold list.simps(15))

lemma last_turn_of_Max: "last_turn_of es = Max (insert 0 (ev_turn_id ` set es))"
  by (simp add: last_turn_of_def fold_max_eq)

lemma last_turn_of_drop:
  assumes "ev_turn_id s \<le> last_turn_of (xs @ ys)"
  shows "last_turn_of (xs @ s # ys) = last_turn_of (xs @ ys)"
proof -
  let ?T = "insert 0 (ev_turn_id ` set (xs @ ys))"
  have "Max (insert (ev_turn_id s) ?T) = max (ev_turn_id s) (Max ?T)" by (rule Max.insert) auto
  moreover have "ev_turn_id s \<le> Max ?T" using assms by (simp only: last_turn_of_Max)
  moreover have "insert (ev_turn_id s) ?T = insert 0 (ev_turn_id ` set (xs @ s # ys))" by auto
  ultimately show ?thesis unfolding last_turn_of_Max by (metis max.absorb2)
qed

lemma superseded_views:
  assumes "is_summary s" and "last_summary ys \<noteq> None" and "xs \<noteq> []"
    and "ev_turn_id s \<le> last_turn_of (xs @ ys)"
  shows "persona_name (xs @ s # ys) = persona_name (xs @ ys)"
    and "first_short (xs @ s # ys) = first_short (xs @ ys)"
    and "last_summary (xs @ s # ys) = last_summary (xs @ ys)"
    and "last_turn_of (xs @ s # ys) = last_turn_of (xs @ ys)"
    and "cover_to (xs @ s # ys) = cover_to (xs @ ys)"
    and "tail_from (xs @ s # ys) = tail_from (xs @ ys)"
    and "tail_events (xs @ s # ys) = tail_events (xs @ ys)"
proof -
  from assms(1) have "\<not> is_persona s" "\<not> is_utterance s"
    by (auto simp: is_summary_def is_persona_def is_utterance_def)
  then show "persona_name (xs @ s # ys) = persona_name (xs @ ys)"
    by (simp add: persona_name_def find_append split: option.splits)
  show "first_short (xs @ s # ys) = first_short (xs @ ys)"
    using assms(3) by (simp add: first_short_append)
  show ls: "last_summary (xs @ s # ys) = last_summary (xs @ ys)"
    using assms(2) last_summary_append_Some [of ys "xs @ [s]"] last_summary_append_Some [of ys xs]
    by simp
  show "last_turn_of (xs @ s # ys) = last_turn_of (xs @ ys)"
    using assms(4) by (rule last_turn_of_drop)
  show ct: "cover_to (xs @ s # ys) = cover_to (xs @ ys)"
    by (simp add: cover_to_def ls)
  then show tf: "tail_from (xs @ s # ys) = tail_from (xs @ ys)"
    by (simp add: tail_from_def)
  show "tail_events (xs @ s # ys) = tail_events (xs @ ys)"
    using \<open>\<not> is_utterance s\<close> by (simp add: tail_events_def tf)
qed

subsection \<open>Properties\<close>

text \<open>
  The transcript is append-only. Once the log has an event and its persona is settled, an
  appended utterance adds exactly its own line at the end of the transcript, and any other event
  leaves the transcript unchanged.
\<close>

theorem render_transcript_append:
  assumes "es \<noteq> []" and "find is_persona es \<noteq> None \<or> \<not> is_persona e"
    and "render_transcript es = Some t"
  shows "render_transcript (es @ [e]) =
    (if is_utterance e then map_option ((@) t) (render_line (persona_name es) e) else Some t)"
proof -
  define ps where "ps = transcript_pieces es"
  have "transcript_pieces (es @ [e]) = ps @ (if is_utterance e then [render_line (persona_name es) e] else [])"
    by (simp add: ps_def transcript_pieces_def persona_name_snoc [OF assms(2)] first_short_append [OF assms(1)])
  moreover have "push_all ps = Some t" using assms(3) by (simp add: ps_def render_transcript_pieces)
  ultimately show ?thesis
    by (cases "render_line (persona_name es) e") (simp_all add: render_transcript_pieces push_all_append)
qed

text \<open>
  Rendering never panics on a log whose session ids and timestamps are ASCII, which is what
  a UUID and an RFC 3339 timestamp are: both the transcript and the memory exist.
\<close>

theorem render_total_ascii:
  assumes "\<forall>e \<in> set es. ascii (ev_session_id e) \<and> ascii (ev_ts e)"
  shows "render_transcript es \<noteq> None \<and> render_memory es n \<noteq> None"
proof -
  have pieces: "None \<notin> set (map (render_line p) xs)" if "set xs \<subseteq> set es" for p xs
  proof
    assume "None \<in> set (map (render_line p) xs)"
    then obtain e where "e \<in> set xs" "render_line p e = None" by auto
    with that assms show False using render_line_ascii by blast
  qed
  have first: "None \<noteq> first_short es" using assms first_short_ascii by metis
  have kept: "set (kept_events es n) \<subseteq> set es" by (auto simp: kept_events_eq tail_events_def)
  have utt: "set (filter is_utterance es) \<subseteq> set es" by auto
  show ?thesis
    using pieces [OF kept] pieces [OF utt] first
    by (simp add: render_transcript_def render_memory_def Let_def push_all_eq)
qed

text \<open>
  The verbatim tail of the memory is the reference selection: of the utterances after the
  summary's last covered turn, exactly those whose turn is one of the newest \<open>n\<close> distinct
  turns (of the newest one when \<open>n\<close> is 0), in log order; so it never shows more than
  \<open>max 1 n\<close> turns and nothing the summary covers.
\<close>

theorem kept_events_window:
  "kept_events es n =
     filter (\<lambda>e. ev_turn_id e \<in> set (take (max 1 n) (rev (tail_turns es)))) (tail_events es) \<and>
   card (ev_turn_id ` set (kept_events es n)) \<le> max 1 n \<and>
   set (kept_events es n) \<subseteq> {e. is_utterance e \<and> tail_from es \<le> ev_turn_id e}"
proof -
  let ?w = "set (take (max 1 n) (rev (tail_turns es)))"
  have "card (ev_turn_id ` set (kept_events es n)) \<le> card ?w"
    by (rule card_mono) (auto simp: kept_events_eq)
  also have "\<dots> \<le> max 1 n"
    using card_length [of "take (max 1 n) (rev (tail_turns es))"] by (simp add: min_def split: if_splits)
  finally show ?thesis by (auto simp: kept_events_eq tail_events_def)
qed

text \<open>
  C36. Only the last summary counts. Dropping a summary event that a later one supersedes changes
  no byte of the continuity memory, as long as it is not the first event of the log and its turn
  is not above every other.
\<close>

theorem render_memory_superseded:
  assumes "is_summary s" and "last_summary ys \<noteq> None" and "xs \<noteq> []"
    and "ev_turn_id s \<le> last_turn_of (xs @ ys)"
  shows "render_memory (xs @ s # ys) n = render_memory (xs @ ys) n"
  by (simp only: render_memory_def kept_events_def superseded_views [OF assms])

subsection \<open>Witnesses\<close>

definition event0 :: "u64 \<Rightarrow> kind \<Rightarrow> string \<Rightarrow> event" where
  "event0 turn k txt =
     \<lparr>ev_v = EVENT_V, ev_session_id = ''0123abcd'', ev_turn_id = turn, ev_ts = ''2025-01-01T10:11:12Z'',
      ev_role = (case k of Utterance \<Rightarrow> User | _ \<Rightarrow> System), ev_kind = k, ev_text = txt, ev_audio_ref = None,
      ev_meta = default_meta, ev_prev_hash = [], ev_hash = []\<rparr>"

lemma render_transcript_append_witness:
  "render_transcript [event0 1 Utterance ''hi'', event0 2 Utterance ''bye''] =
     map_option ((@) (the (render_transcript [event0 1 Utterance ''hi''])))
       (render_line ''Assistant'' (event0 2 Utterance ''bye''))"
proof -
  have "render_transcript [event0 1 Utterance ''hi''] = Some (the (render_transcript [event0 1 Utterance ''hi'']))"
    "\<not> is_persona (event0 2 Utterance ''bye'')" "is_utterance (event0 2 Utterance ''bye'')"
    "persona_name [event0 1 Utterance ''hi''] = ''Assistant''" by code_simp+
  then show ?thesis
    using render_transcript_append [of "[event0 1 Utterance ''hi'']" "event0 2 Utterance ''bye''"] by simp
qed

lemma render_total_ascii_witness: "render_memory [event0 1 Utterance ''hi'', event0 1 Summary ''all''] 3 \<noteq> None"
  using render_total_ascii [of "[event0 1 Utterance ''hi'', event0 1 Summary ''all'']" 3]
  by (simp add: event0_def ascii_def)

lemma render_memory_superseded_witness:
  "render_memory ([event0 1 Utterance ''hi''] @ event0 1 Summary ''old'' # [event0 1 Summary ''new'']) 3 =
   render_memory ([event0 1 Utterance ''hi''] @ [event0 1 Summary ''new'']) 3"
proof (rule render_memory_superseded)
  show "is_summary (event0 1 Summary ''old'')" "last_summary [event0 1 Summary ''new''] \<noteq> None"
    "ev_turn_id (event0 1 Summary ''old'') \<le> last_turn_of ([event0 1 Utterance ''hi''] @ [event0 1 Summary ''new''])"
    by code_simp+
qed simp

end
