(* ===== verification/Codec.thy ===== *)
theory Codec
  imports Json
begin

text \<open>
  A concrete instance of the third-party record \<open>libs\<close>: a compact printer and its parser that
  satisfy \<open>serde_laws\<close>, and a digest that satisfies \<open>digest_laws\<close>. It models no code of the
  repository; it shows that what the properties assume of \<open>serde_json\<close> and of blake3 can hold,
  and the witnesses evaluate the model with it. Strings are quoted with escapes and objects are
  printed as JSON prints them; a number is a tag and its 64 bits.
\<close>

subsection \<open>Strings and words\<close>

abbreviation quote_char :: char where "quote_char \<equiv> CHR 0x22"
abbreviation escape_char :: char where "escape_char \<equiv> CHR 0x5C"
abbreviation newline :: char where "newline \<equiv> CHR 0x0A"

definition esc :: "char \<Rightarrow> string" where
  "esc c = (if c = quote_char then [escape_char, CHR ''q'']
            else if c = escape_char then [escape_char, CHR ''b'']
            else if c = newline then [escape_char, CHR ''n''] else [c])"

fun unesc :: "string \<Rightarrow> (string \<times> string) option" where
  "unesc [] = None"
| "unesc (c # cs) =
     (if c = quote_char then Some ([], cs)
      else if c = escape_char then
        (case cs of
           d # ds \<Rightarrow> map_option (apfst ((#) (if d = CHR ''q'' then quote_char
                       else if d = CHR ''b'' then escape_char else newline))) (unesc ds)
         | [] \<Rightarrow> None)
      else map_option (apfst ((#) c)) (unesc cs))"

lemma unesc_esc: "unesc (concat (map esc s) @ quote_char # rest) = Some (s, rest)"
  by (induction s) (auto simp: esc_def)

definition bits :: "u64 \<Rightarrow> string" where
  "bits w = map (\<lambda>i. if bit w i then CHR ''1'' else CHR ''0'') [0..<64]"

definition unbits :: "string \<Rightarrow> u64" where
  "unbits s = horner_sum of_bool 2 (map (\<lambda>c. c = CHR ''1'') s)"

lemma length_bits [simp]: "length (bits w) = 64"
  by (simp add: bits_def)

lemma unbits_bits: "unbits (bits w) = w"
proof -
  have "map (\<lambda>c. c = CHR ''1'') (bits w) = map (bit w) [0..<64]"
    by (simp add: bits_def)
  then show ?thesis
    by (simp add: unbits_def horner_sum_bit_eq_take_bit take_bit_word_eq_self)
qed

subsection \<open>The printer\<close>

fun pr_num :: "number \<Rightarrow> string" where
  "pr_num (PosInt w) = ''+'' @ bits w"
| "pr_num (NegInt w) = ''-'' @ bits w"
| "pr_num (Float w) = ''.'' @ bits w"

definition pr_str :: "string \<Rightarrow> string" where
  "pr_str s = quote_char # concat (map esc s) @ [quote_char]"

fun join_members :: "(string \<times> string) list \<Rightarrow> string" where
  "join_members [] = []"
| "join_members ((k, v) # m) =
     pr_str k @ '':'' @ v @ (if m = [] then [] else '','' @ join_members m)"

function pr :: "json \<Rightarrow> string" where
  "pr JNull = ''n''"
| "pr (JBool b) = (if b then ''t'' else ''f'')"
| "pr (JNum n) = pr_num n"
| "pr (JStr s) = pr_str s"
| "pr (JArr vs) = ''['' @ concat (map (\<lambda>v. pr v @ '','') vs) @ '']''"
| "pr (JObj m) = ''{'' @ join_members (map (\<lambda>(k, v). (k, pr v)) m) @ ''}''"
  by pat_completeness auto
termination
  by (relation "measure size") (auto simp: size_member size_element)

subsection \<open>The parser\<close>

fun rd :: "nat \<Rightarrow> string \<Rightarrow> (json \<times> string) option"
  and rd_elems :: "nat \<Rightarrow> string \<Rightarrow> (json list \<times> string) option"
  and rd_members :: "nat \<Rightarrow> string \<Rightarrow> ((string \<times> json) list \<times> string) option" where
  "rd 0 s = None"
| "rd (Suc f) s =
     (case s of
        [] \<Rightarrow> None
      | c # cs \<Rightarrow>
          if c = CHR ''n'' then Some (JNull, cs)
          else if c = CHR ''t'' then Some (JBool True, cs)
          else if c = CHR ''f'' then Some (JBool False, cs)
          else if c = CHR ''+'' then Some (JNum (PosInt (unbits (take 64 cs))), drop 64 cs)
          else if c = CHR ''-'' then Some (JNum (NegInt (unbits (take 64 cs))), drop 64 cs)
          else if c = CHR ''.'' then Some (JNum (Float (unbits (take 64 cs))), drop 64 cs)
          else if c = quote_char then map_option (apfst JStr) (unesc cs)
          else if c = CHR ''['' then map_option (apfst JArr) (rd_elems f cs)
          else if c = CHR ''{'' then
            (case cs of
               d # ds \<Rightarrow> if d = CHR ''}'' then Some (JObj [], ds)
                          else map_option (apfst JObj) (rd_members f cs)
             | [] \<Rightarrow> None)
          else None)"
| "rd_elems 0 s = None"
| "rd_elems (Suc f) s =
     (case s of
        [] \<Rightarrow> None
      | c # cs \<Rightarrow>
          if c = CHR '']'' then Some ([], cs)
          else Option.bind (rd f s) (\<lambda>(v, r). map_option (apfst ((#) v)) (rd_elems f (tl r))))"
| "rd_members 0 s = None"
| "rd_members (Suc f) s =
     Option.bind (unesc (tl s)) (\<lambda>(k, r).
     Option.bind (rd f (tl r)) (\<lambda>(v, r').
     case r' of
       [] \<Rightarrow> None
     | c # cs \<Rightarrow> if c = CHR ''}'' then Some ([(k, v)], cs)
                  else map_option (apfst ((#) (k, v))) (rd_members f cs)))"

definition ref_parse :: "bytes \<Rightarrow> json option" where
  "ref_parse s = map_option fst (rd (Suc (length s)) s)"

text \<open>A digest of the right shape, not one that resists collisions.\<close>

definition ref_digest :: "bytes \<Rightarrow> string" where
  "ref_digest s = take 64 (rev s @ replicate 64 (CHR ''0''))"

definition ref_libs :: libs where
  "ref_libs = \<lparr>to_vec = (\<lambda>v. Some (pr v)), from_slice = ref_parse, b3hex = ref_digest,
     b3_bytes = (\<lambda>s. map (\<lambda>c. of_nat (of_char c)) (take 32 (rev s @ replicate 32 (CHR ''0''))))\<rparr>"

subsection \<open>The laws hold\<close>

lemma pr_Cons: "\<exists>c cs. pr v = c # cs \<and> c \<noteq> CHR '']''"
proof (cases v)
  case (JNum n)
  then show ?thesis by (cases n) auto
qed (auto simp: pr_str_def)

definition reads :: "json \<Rightarrow> bool" where
  "reads v \<longleftrightarrow> (\<forall>f rest. length (pr v) < f \<longrightarrow> rd f (pr v @ rest) = Some (v, rest))"

lemma reads_elems:
  assumes "\<forall>v \<in> set vs. reads v" and "length (concat (map (\<lambda>v. pr v @ '','') vs)) + 1 < f"
  shows "rd_elems f (concat (map (\<lambda>v. pr v @ '','') vs) @ CHR '']'' # rest) = Some (vs, rest)"
  using assms
proof (induction vs arbitrary: f)
  case Nil
  then show ?case by (cases f) auto
next
  case (Cons v vs)
  obtain g where f: "f = Suc g" using Cons.prems(2) by (cases f) auto
  obtain c cs where c: "pr v = c # cs" "c \<noteq> CHR '']''" using pr_Cons by blast
  let ?r = "concat (map (\<lambda>v. pr v @ '','') vs) @ CHR '']'' # rest"
  have "rd g (pr v @ CHR '','' # ?r) = Some (v, CHR '','' # ?r)"
    using Cons.prems f by (simp add: reads_def)
  moreover have "rd_elems g ?r = Some (vs, rest)"
    using Cons f by simp
  ultimately show ?case using f c by simp
qed

lemma reads_members:
  assumes "\<forall>v \<in> snd ` set m. reads v" and "m \<noteq> []"
    and "length (join_members (map (\<lambda>(k, v). (k, pr v)) m)) + 1 < f"
  shows "rd_members f (join_members (map (\<lambda>(k, v). (k, pr v)) m) @ CHR ''}'' # rest) = Some (m, rest)"
  using assms
proof (induction m arbitrary: f)
  case (Cons p m)
  obtain k v where p: "p = (k, v)" by (cases p)
  obtain g where f: "f = Suc g" using Cons.prems(3) by (cases f) auto
  let ?r = "(if m = [] then [] else '','' @ join_members (map (\<lambda>(k, v). (k, pr v)) m)) @ CHR ''}'' # rest"
  have len: "length (pr v) < g" using Cons.prems p f by (auto simp: pr_str_def)
  then have "rd g (pr v @ ?r) = Some (v, ?r)"
    using Cons.prems(1) p by (simp add: reads_def)
  moreover have "unesc (tl (pr_str k) @ '':'' @ pr v @ ?r) = Some (k, CHR '':'' # pr v @ ?r)"
    using unesc_esc [of k] by (simp add: pr_str_def)
  moreover have "rd_members g (join_members (map (\<lambda>(k, v). (k, pr v)) m) @ CHR ''}'' # rest) = Some (m, rest)"
    if "m \<noteq> []" using that Cons p f by (auto simp: pr_str_def)
  ultimately show ?case using p f by (auto simp: pr_str_def)
qed simp

lemma reads_all: "reads v"
proof (induction v rule: pr.induct)
  case (5 vs)
  then have "rd_elems g (concat (map (\<lambda>v. pr v @ '','') vs) @ CHR '']'' # rest) = Some (vs, rest)"
    if "length (concat (map (\<lambda>v. pr v @ '','') vs)) + 1 < g" for g rest
    using that by (intro reads_elems) auto
  then have "rd f (pr (JArr vs) @ rest) = Some (JArr vs, rest)" if "length (pr (JArr vs)) < f" for f rest
    using that by (cases f) simp_all
  then show ?case unfolding reads_def by blast
next
  case (6 m)
  then have "rd_members g (join_members (map (\<lambda>(k, v). (k, pr v)) m) @ CHR ''}'' # rest) = Some (m, rest)"
    if "m \<noteq> []" "length (join_members (map (\<lambda>(k, v). (k, pr v)) m)) + 1 < g" for g rest
    using that by (intro reads_members) auto
  moreover have "\<exists>cs. join_members (map (\<lambda>(k, v). (k, pr v)) m) = quote_char # cs" if "m \<noteq> []"
    using that by (cases m) (auto simp: pr_str_def)
  ultimately have "rd f (pr (JObj m) @ rest) = Some (JObj m, rest)" if "length (pr (JObj m)) < f" for f rest
    using that by (cases f; cases "m = []") fastforce+
  then show ?case unfolding reads_def by blast
next
  case (3 n)
  have "rd f (pr (JNum n) @ rest) = Some (JNum n, rest)" if "length (pr (JNum n)) < f" for f rest
    using that by (cases f; cases n) (simp_all add: unbits_bits)
  then show ?case unfolding reads_def by blast
next
  case (4 s)
  then show ?case unfolding reads_def
    by (auto simp: pr_str_def unesc_esc elim!: less_natE)
qed (auto simp: reads_def elim!: less_natE)

lemma newline_free_str: "newline \<notin> set (pr_str s)"
  by (auto simp: pr_str_def esc_def split: if_splits)

lemma newline_free_members:
  "\<forall>(k, v) \<in> set m. newline \<notin> set v \<Longrightarrow> newline \<notin> set (join_members m)"
  by (induction m rule: join_members.induct) (auto simp: newline_free_str)

lemma newline_free: "newline \<notin> set (pr v)"
proof (induction v rule: pr.induct)
  case (3 n)
  then show ?case by (cases n) (auto simp: bits_def)
next
  case (6 m)
  have "newline \<notin> set (join_members (map (\<lambda>(k, v). (k, pr v)) m))"
    by (rule newline_free_members) (use 6 in auto)
  then show ?case by simp
qed (auto simp: newline_free_str)

lemma compact_members_ref: "compact_members ref_libs m = Some (join_members (map (\<lambda>(k, v). (k, pr v)) m))"
  by (induction m) (auto simp: ref_libs_def)

lemma ref_serde: "serde_laws ref_libs"
proof -
  have "ref_parse (pr v) = Some v" for v
    using reads_all [of v, unfolded reads_def, rule_format, of "Suc (length (pr v))" "[]"]
    by (simp add: ref_parse_def)
  moreover have "pr v \<noteq> []" for v
    using pr_Cons [of v] by auto
  ultimately show ?thesis
    unfolding serde_laws_def compact_members_ref
    by (simp add: ref_libs_def newline_free)
qed

lemma ref_digest_laws: "digest_laws ref_libs"
  by (simp add: digest_laws_def ref_libs_def ref_digest_def min_def)

end
