(* ===== verification/Chain.thy ===== *)
theory Chain
  imports Codec "HOL-Library.Multiset"
begin

text \<open>
  \<open>crates/vihs-core/src/chain.rs\<close>: canonical encoding, the blake3 hash chain, sealing of event
  bodies and the verification of a whole log. The lemmas say what the canonical bytes are, that
  they determine the event up to its \<open>hash\<close> field, what a log accepted by \<open>fsck\<close> looks like,
  and that two accepted logs with the same tip are equal unless blake3 has collided on two
  events of theirs.
\<close>

subsection \<open>Errors and constants\<close>

definition GENESIS :: string where
  "GENESIS = ''blake3:genesis''"

datatype chain_error =
    NotObject
  | FloatInHashedField
  | Encode
  | MissingField string
  | Torn u64
  | BadHash u64
  | TurnRegression u64

subsection \<open>Canonical bytes\<close>

text \<open>
  The members of an object, already in key order, each with the canonical bytes of its value;
  \<open>i\<close> is the position, a comma goes before every member but the first. The first failure
  ends the encoding.
\<close>

fun canon_members ::
    "libs \<Rightarrow> nat \<Rightarrow> (string \<times> (chain_error + bytes)) list \<Rightarrow> chain_error + bytes" where
  "canon_members L i [] = Inr []"
| "canon_members L i ((k, r) # rest) =
     rbind (ok_or (to_vec L (JStr k)) Encode) (\<lambda>kb.
     rbind r (\<lambda>vb.
     rbind (canon_members L (Suc i) rest) (\<lambda>b.
     Inr ((if i > 0 then '','' else []) @ kb @ '':'' @ vb @ b))))"

function canon :: "libs \<Rightarrow> json \<Rightarrow> chain_error + bytes" where
  "canon L (JObj m) =
     rbind (canon_members L 0 (sort_key fst (map (\<lambda>(k, v). (k, canon L v)) m)))
       (\<lambda>b. Inr (''{'' @ b @ ''}''))"
| "canon L (JNum (Float b)) = Inl FloatInHashedField"
| "canon L JNull = ok_or (to_vec L JNull) Encode"
| "canon L (JBool b) = ok_or (to_vec L (JBool b)) Encode"
| "canon L (JNum (PosInt n)) = ok_or (to_vec L (JNum (PosInt n))) Encode"
| "canon L (JNum (NegInt n)) = ok_or (to_vec L (JNum (NegInt n))) Encode"
| "canon L (JStr s) = ok_or (to_vec L (JStr s)) Encode"
| "canon L (JArr vs) = ok_or (to_vec L (JArr vs)) Encode"
  by pat_completeness auto
termination
  by (relation "measure (\<lambda>(L, v). size v)") (auto simp: size_member)

definition canonical_bytes :: "libs \<Rightarrow> json \<Rightarrow> chain_error + bytes" where
  "canonical_bytes L event =
     rbind (ok_or (as_object event) NotObject) (\<lambda>m.
     canon L (JObj (bt_remove ''hash'' m)))"

definition compute_hash :: "libs \<Rightarrow> json \<Rightarrow> chain_error + string" where
  "compute_hash L event =
     rbind (canonical_bytes L event) (\<lambda>b. Inr (''blake3:'' @ b3hex L b))"

definition seal :: "libs \<Rightarrow> json \<Rightarrow> string \<Rightarrow> chain_error + json" where
  "seal L body prev =
     rbind (ok_or (as_object body) NotObject) (\<lambda>obj.
     let with_prev = JObj (bt_insert ''prev_hash'' (JStr prev) obj) in
     rbind (compute_hash L with_prev) (\<lambda>h.
     rbind (ok_or (as_object with_prev) NotObject) (\<lambda>final_obj.
     Inr (JObj (bt_insert ''hash'' (JStr h) final_obj)))))"

subsection \<open>Verification of a log\<close>

text \<open>The loop state of \<open>fsck\<close>: the number of events read, the tip and the last turn.\<close>

type_synonym fsck_state = "u64 \<times> string \<times> u64"

definition fsck_step :: "libs \<Rightarrow> fsck_state \<Rightarrow> json \<Rightarrow> chain_error + fsck_state" where
  "fsck_step L st ev =
     (let (n, tip, last_turn) = st in
      rbind (ok_or (Option.bind (jget ev ''prev_hash'') as_str) (MissingField ''prev_hash'')) (\<lambda>prev.
      if prev \<noteq> tip then Inl (Torn n) else
      rbind (ok_or (Option.bind (jget ev ''hash'') as_str) (MissingField ''hash'')) (\<lambda>claimed.
      rbind (compute_hash L ev) (\<lambda>h.
      if h \<noteq> claimed then Inl (BadHash n) else
      rbind (ok_or (Option.bind (jget ev ''turn_id'') as_u64) (MissingField ''turn_id'')) (\<lambda>t.
      if t < last_turn then Inl (TurnRegression n) else
      Inr (n + 1, claimed, t))))))"

fun fsck_loop :: "libs \<Rightarrow> fsck_state \<Rightarrow> json list \<Rightarrow> chain_error + fsck_state" where
  "fsck_loop L st [] = Inr st"
| "fsck_loop L st (ev # evs) = rbind (fsck_step L st ev) (\<lambda>st'. fsck_loop L st' evs)"

definition fsck :: "libs \<Rightarrow> json list \<Rightarrow> chain_error + u64 \<times> string" where
  "fsck L evs =
     rbind (fsck_loop L (0, GENESIS, 0) evs) (\<lambda>(n, tip, last_turn). Inr (n, tip))"

subsection \<open>What the canonical bytes are\<close>

text \<open>
  The canonicaliser looks for floats along objects only: an array goes to the printer whole.
\<close>

function obj_float_free :: "json \<Rightarrow> bool" where
  "obj_float_free (JObj m) = (\<forall>v \<in> snd ` set m. obj_float_free v)"
| "obj_float_free (JNum n) = (case n of Float _ \<Rightarrow> False | _ \<Rightarrow> True)"
| "obj_float_free JNull = True"
| "obj_float_free (JBool b) = True"
| "obj_float_free (JStr s) = True"
| "obj_float_free (JArr vs) = True"
  by pat_completeness auto
termination
  by (relation "measure size") (auto simp: size_member)

lemma no_float_obj_float_free: "no_float v \<Longrightarrow> obj_float_free v"
  by (induction v rule: obj_float_free.induct) auto

lemma sort_key_bt_ok: "bt_ok m \<Longrightarrow> sort_key fst (map (\<lambda>(k, v). (k, f v)) m) = map (\<lambda>(k, v). (k, f v)) m"
proof -
  assume "bt_ok m"
  then have "sorted (map fst (map (\<lambda>(k, v). (k, f v)) m))"
    by (simp add: bt_ok_def strict_sorted_iff comp_def case_prod_unfold)
  then show ?thesis by (rule sort_key_id_if_sorted)
qed

lemma canon_members_compact:
  assumes "serde_laws L" and "\<forall>v \<in> snd ` set m. canon L v = Inr (the (to_vec L v))"
  shows "canon_members L i (map (\<lambda>(k, v). (k, canon L v)) m) =
    Inr ((if i > 0 \<and> m \<noteq> [] then '','' else []) @ the (compact_members L m))"
  using assms(2)
proof (induction m arbitrary: i)
  case (Cons p m)
  obtain k v where p: "p = (k, v)" by (cases p)
  obtain kb vb where "to_vec L (JStr k) = Some kb" "to_vec L v = Some vb"
    using serde_total [OF assms(1)] by meson
  moreover obtain rest where "compact_members L m = Some rest"
    using serde_total [OF assms(1), of "JObj m"] by (auto simp: serde_object [OF assms(1)])
  ultimately show ?case using Cons p by auto
qed simp

lemma canon_members_float:
  assumes "serde_laws L"
    and "\<forall>v \<in> snd ` set m. canon L v = (if obj_float_free v then Inr (the (to_vec L v)) else Inl FloatInHashedField)"
    and "\<exists>v \<in> snd ` set m. \<not> obj_float_free v"
  shows "canon_members L i (map (\<lambda>(k, v). (k, canon L v)) m) = Inl FloatInHashedField"
  using assms(2,3)
proof (induction m arbitrary: i)
  case (Cons p m)
  obtain k v where p: "p = (k, v)" by (cases p)
  obtain kb where "to_vec L (JStr k) = Some kb"
    using serde_total [OF assms(1)] by meson
  then show ?case using Cons p by (cases "obj_float_free v") auto
qed simp

lemma canon_eq:
  "serde_laws L \<Longrightarrow> jwf v \<Longrightarrow>
     canon L v = (if obj_float_free v then Inr (the (to_vec L v)) else Inl FloatInHashedField)"
proof (induction L v rule: canon.induct)
  case (1 L m)
  then have IH: "\<forall>v \<in> snd ` set m. canon L v =
      (if obj_float_free v then Inr (the (to_vec L v)) else Inl FloatInHashedField)"
    by auto
  from 1 have sorted: "sort_key fst (map (\<lambda>(k, v). (k, canon L v)) m) = map (\<lambda>(k, v). (k, canon L v)) m"
    by (simp add: sort_key_bt_ok)
  obtain b where b: "compact_members L m = Some b"
    using serde_total [OF "1.prems"(1), of "JObj m"] by (auto simp: serde_object [OF "1.prems"(1)])
  show ?case
  proof (cases "obj_float_free (JObj m)")
    case True
    with IH have "\<forall>v \<in> snd ` set m. canon L v = Inr (the (to_vec L v))" by auto
    from canon_members_compact [OF "1.prems"(1) this, of 0] True b show ?thesis
      by (simp only: canon.simps sorted serde_object [OF "1.prems"(1)]) simp
  next
    case False
    then have "\<exists>v \<in> snd ` set m. \<not> obj_float_free v" by auto
    from canon_members_float [OF "1.prems"(1) IH this, of 0] False show ?thesis
      by (simp only: canon.simps sorted) simp
  qed
qed (use serde_total in \<open>fastforce+\<close>)

lemma canonical_bytes_eq:
  assumes "serde_laws L" and "jwf (JObj m)"
  shows "canonical_bytes L (JObj m) =
    (if obj_float_free (JObj (bt_remove ''hash'' m)) then Inr (the (to_vec L (JObj (bt_remove ''hash'' m))))
     else Inl FloatInHashedField)"
  using canon_eq [OF assms(1) jwf_remove [OF assms(2)]] by (simp add: canonical_bytes_def)

lemma canonical_bytes_inj:
  assumes "serde_laws L" "jwf (JObj m)" "no_float (JObj m)" "jwf (JObj n)" "no_float (JObj n)"
    and "canonical_bytes L (JObj m) = Inr b" "canonical_bytes L (JObj n) = Inr b"
  shows "bt_remove ''hash'' m = bt_remove ''hash'' n"
proof -
  have vec: "to_vec L (JObj (bt_remove ''hash'' l)) = Some b"
    if "jwf (JObj l)" "canonical_bytes L (JObj l) = Inr b" for l
    using that canonical_bytes_eq [OF assms(1) that(1)]
      serde_total [OF assms(1), of "JObj (bt_remove ''hash'' l)"] by (auto split: if_splits)
  have "JObj (bt_remove ''hash'' m) = JObj (bt_remove ''hash'' n)"
    by (rule to_vec_inj [OF assms(1)])
      (simp_all only: assms(2-5) jwf_remove no_float_remove vec [OF assms(2,6)] vec [OF assms(4,7)])
  then show ?thesis by simp
qed

lemma canonical_bytes_insert_hash [simp]:
  "bt_ok m \<Longrightarrow> canonical_bytes L (JObj (bt_insert ''hash'' x m)) = canonical_bytes L (JObj m)"
  by (simp add: canonical_bytes_def bt.del_ins_same)

lemma compute_hash_insert_hash [simp]:
  "bt_ok m \<Longrightarrow> compute_hash L (JObj (bt_insert ''hash'' x m)) = compute_hash L (JObj m)"
  by (simp add: compute_hash_def)

lemma jobject_eq_perm:
  assumes "mset fs = mset gs" and "distinct (map fst fs)"
  shows "jobject fs = jobject gs"
proof -
  have ok: "bt_ok (fold (\<lambda>(k, v). bt_insert k v) l m)" if "bt_ok m" for l :: "(string \<times> json) list" and m
    using that by (induction l arbitrary: m) (auto simp: bt_ok_insert)
  have get: "map_of (fold (\<lambda>(k, v). bt_insert k v) l m) j =
      (case map_of (rev l) j of None \<Rightarrow> map_of m j | Some v \<Rightarrow> Some v)"
    if "bt_ok m" for l :: "(string \<times> json) list" and m j
    using that by (induction l arbitrary: m)
      (auto simp: bt_simps map_add_def split: option.splits)
  have dist: "distinct (map fst gs)" and same: "set fs = set gs"
    using assms by (metis distinct_map mset_eq_imp_distinct_iff mset_map, metis set_mset_mset)
  have "map_of (rev fs) j = map_of (rev gs) j" for j
    using assms(2) dist same by (metis distinct_rev map_of_inject_set rev_map set_rev)
  then have "fold (\<lambda>(k, v). bt_insert k v) fs [] = fold (\<lambda>(k, v). bt_insert k v) gs []"
    by (intro bt.ext) (simp_all add: ok get)
  then show ?thesis by (simp add: jobject_def)
qed

subsection \<open>Accepted logs\<close>

abbreviation str_field :: "json \<Rightarrow> string \<Rightarrow> string option" where
  "str_field ev k \<equiv> Option.bind (jget ev k) as_str"

abbreviation u64_field :: "json \<Rightarrow> string \<Rightarrow> u64 option" where
  "u64_field ev k \<equiv> Option.bind (jget ev k) as_u64"

definition log_tip :: "json list \<Rightarrow> string" where
  "log_tip evs = (if evs = [] then GENESIS else the (str_field (last evs) ''hash''))"

definition log_turn :: "json list \<Rightarrow> u64" where
  "log_turn evs = (if evs = [] then 0 else the (u64_field (last evs) ''turn_id''))"

text \<open>
  The rules of the log, without the loop: every event carries its own hash, every event names
  the hash of the one before it (the first names the genesis marker), and the turns never go
  down.
\<close>

definition valid_log :: "libs \<Rightarrow> json list \<Rightarrow> bool" where
  "valid_log L evs \<longleftrightarrow>
     (\<forall>e \<in> set evs. \<exists>h. str_field e ''hash'' = Some h \<and> compute_hash L e = Inr h) \<and>
     map (\<lambda>e. str_field e ''prev_hash'') evs =
       take (length evs) (Some GENESIS # map (\<lambda>e. str_field e ''hash'') evs) \<and>
     (\<forall>e \<in> set evs. u64_field e ''turn_id'' \<noteq> None) \<and>
     sorted (map (\<lambda>e. the (u64_field e ''turn_id'')) evs)"

lemma fsck_step_Inr:
  "fsck_step L (n, tip, turn) e = Inr st \<longleftrightarrow>
     str_field e ''prev_hash'' = Some tip \<and>
     (\<exists>h t. str_field e ''hash'' = Some h \<and> compute_hash L e = Inr h \<and>
        u64_field e ''turn_id'' = Some t \<and> turn \<le> t \<and> st = (n + 1, h, t))"
  by (auto simp: fsck_step_def not_less)

lemma fsck_loop_append:
  "fsck_loop L st (xs @ ys) = rbind (fsck_loop L st xs) (\<lambda>st'. fsck_loop L st' ys)"
proof (induction xs arbitrary: st)
  case (Cons x xs)
  then show ?case by (cases "fsck_step L st x") simp_all
qed simp

lemma fsck_loop_state:
  "fsck_loop L (0, GENESIS, 0) evs = Inr st \<Longrightarrow> st = (of_nat (length evs), log_tip evs, log_turn evs)"
proof (induction evs arbitrary: st rule: rev_induct)
  case Nil
  then show ?case by (simp add: log_tip_def log_turn_def)
next
  case (snoc e evs)
  then show ?case
    by (auto simp: fsck_loop_append fsck_step_Inr log_tip_def log_turn_def add.commute
        split: prod.splits)
qed

lemma valid_log_Nil [simp]: "valid_log L []"
  by (simp add: valid_log_def)

lemma sorted_snoc_last:
  "sorted (xs @ [x]) \<longleftrightarrow> sorted xs \<and> (xs \<noteq> [] \<longrightarrow> last xs \<le> (x::'a::linorder))"
  by (cases xs rule: rev_cases) (auto simp: sorted_append)

lemma take_shift_snoc:
  "take (length (xs @ [x])) (g # map f (xs @ [x])) =
     take (length xs) (g # map f xs) @ [last (g # map f xs)]"
proof -
  have "take (length xs) (g # map f xs) = butlast (g # map f xs)"
    by (simp add: butlast_conv_take)
  then show ?thesis by (simp only: append_butlast_last_id list.distinct(1)) simp
qed

lemma valid_log_snoc:
  "valid_log L (evs @ [e]) \<longleftrightarrow>
     valid_log L evs \<and>
     str_field e ''prev_hash'' = Some (log_tip evs) \<and>
     (\<exists>h t. str_field e ''hash'' = Some h \<and> compute_hash L e = Inr h \<and>
        u64_field e ''turn_id'' = Some t \<and> log_turn evs \<le> t)"
proof -
  let ?h = "\<lambda>e. str_field e ''hash''" and ?t = "\<lambda>e. the (u64_field e ''turn_id'')"
  have tip: "last (Some GENESIS # map ?h evs) = Some (log_tip evs)" if "valid_log L evs"
  proof (cases "evs = []")
    case False
    then have "last evs \<in> set evs" by simp
    with that obtain h where "?h (last evs) = Some h" unfolding valid_log_def by blast
    with False show ?thesis by (simp add: log_tip_def last_map)
  qed (simp add: log_tip_def)
  have turn: "sorted (map ?t (evs @ [e])) \<longleftrightarrow> sorted (map ?t evs) \<and> log_turn evs \<le> ?t e"
    by (auto simp: sorted_snoc_last log_turn_def last_map)
  have prev: "map (\<lambda>e. str_field e ''prev_hash'') (evs @ [e]) =
      take (length (evs @ [e])) (Some GENESIS # map ?h (evs @ [e])) \<longleftrightarrow>
    map (\<lambda>e. str_field e ''prev_hash'') evs = take (length evs) (Some GENESIS # map ?h evs) \<and>
    str_field e ''prev_hash'' = last (Some GENESIS # map ?h evs)"
    unfolding take_shift_snoc by simp
  show ?thesis
    unfolding valid_log_def [of L "evs @ [e]"] prev turn
    using tip by (auto simp: valid_log_def)
qed

text \<open>The loop accepts exactly the valid logs, and ends in the state the log determines.\<close>

lemma fsck_loop_valid:
  "fsck_loop L (0, GENESIS, 0) evs = Inr (of_nat (length evs), log_tip evs, log_turn evs) \<longleftrightarrow>
     valid_log L evs"
proof (induction evs rule: rev_induct)
  case Nil
  then show ?case by (simp add: log_tip_def log_turn_def)
next
  case (snoc e evs)
  let ?s = "\<lambda>evs. (of_nat (length evs), log_tip evs, log_turn evs)"
  have "fsck_loop L (0, GENESIS, 0) (evs @ [e]) = Inr (?s (evs @ [e])) \<longleftrightarrow>
      (\<exists>st. fsck_loop L (0, GENESIS, 0) evs = Inr st \<and> fsck_step L st e = Inr (?s (evs @ [e])))"
    by (simp add: fsck_loop_append)
  also have "\<dots> \<longleftrightarrow> valid_log L evs \<and> fsck_step L (?s evs) e = Inr (?s (evs @ [e]))"
    using snoc fsck_loop_state by blast
  also have "\<dots> \<longleftrightarrow> valid_log L (evs @ [e])"
    unfolding valid_log_snoc fsck_step_Inr
    by (auto simp: log_tip_def [of "evs @ [e]"] log_turn_def [of "evs @ [e]"])
  finally show ?case .
qed

lemma fsck_loop_Inr_valid: "fsck_loop L (0, GENESIS, 0) evs = Inr st \<Longrightarrow> valid_log L evs"
  using fsck_loop_state fsck_loop_valid by blast

lemma fsck_Inr:
  "fsck L evs = Inr (n, tip) \<longleftrightarrow> valid_log L evs \<and> n = of_nat (length evs) \<and> tip = log_tip evs"
proof -
  have "fsck L evs = Inr (n, tip) \<longleftrightarrow>
      (\<exists>t. fsck_loop L (0, GENESIS, 0) evs = Inr (n, tip, t))"
    by (auto simp: fsck_def)
  also have "\<dots> \<longleftrightarrow> valid_log L evs \<and> n = of_nat (length evs) \<and> tip = log_tip evs"
    using fsck_loop_state fsck_loop_valid fsck_loop_Inr_valid by blast
  finally show ?thesis .
qed

text \<open>A failure stops at the first event that breaks a rule; everything before it is valid.\<close>

lemma fsck_loop_Inl:
  assumes "fsck_loop L (0, GENESIS, 0) evs = Inl err"
  shows "\<exists>xs e rest. evs = xs @ e # rest \<and> valid_log L xs \<and>
    fsck_step L (of_nat (length xs), log_tip xs, log_turn xs) e = Inl err"
  using assms
proof (induction evs rule: rev_induct)
  case (snoc e evs)
  show ?case
  proof (cases "fsck_loop L (0, GENESIS, 0) evs")
    case (Inl err')
    with snoc show ?thesis by (fastforce simp: fsck_loop_append)
  next
    case (Inr st)
    with snoc.prems have "fsck_step L st e = Inl err"
      by (cases "fsck_step L st e") (simp_all add: fsck_loop_append)
    with Inr fsck_loop_state fsck_loop_Inr_valid show ?thesis by blast
  qed
qed simp

lemma fsck_Inl:
  assumes "fsck L evs = Inl err"
  shows "\<exists>xs e rest. evs = xs @ e # rest \<and> valid_log L xs \<and>
    fsck_step L (of_nat (length xs), log_tip xs, log_turn xs) e = Inl err"
proof -
  from assms have "fsck_loop L (0, GENESIS, 0) evs = Inl err"
    by (cases "fsck_loop L (0, GENESIS, 0) evs") (auto simp: fsck_def split: prod.splits)
  then show ?thesis by (rule fsck_loop_Inl)
qed

subsection \<open>Sealing and extending\<close>

lemma seal_Inr:
  "seal L body prev = Inr s \<longleftrightarrow>
     (\<exists>m h. body = JObj m \<and> compute_hash L (JObj (bt_insert ''prev_hash'' (JStr prev) m)) = Inr h \<and>
        s = JObj (bt_insert ''hash'' (JStr h) (bt_insert ''prev_hash'' (JStr prev) m)))"
  by (auto simp: seal_def)

lemma seal_fields:
  assumes "seal L (JObj m) prev = Inr s" and "bt_ok m"
  shows "str_field s ''prev_hash'' = Some prev"
    and "\<exists>h. str_field s ''hash'' = Some h \<and> compute_hash L s = Inr h"
    and "k \<noteq> ''prev_hash'' \<Longrightarrow> k \<noteq> ''hash'' \<Longrightarrow> jget s k = map_of m k"
  using assms by (auto simp: seal_Inr bt_simps)

lemma valid_log_seal:
  assumes "valid_log L evs" and "seal L (JObj m) (log_tip evs) = Inr s" and "bt_ok m"
    and "u64_field (JObj m) ''turn_id'' = Some t" and "log_turn evs \<le> t"
  shows "valid_log L (evs @ [s])"
  using assms seal_fields [OF assms(2,3)] by (auto simp: valid_log_snoc)

subsection \<open>Collisions\<close>

text \<open>What blake3 is applied to when a log is verified.\<close>

definition preimages :: "libs \<Rightarrow> json list \<Rightarrow> bytes set" where
  "preimages L evs = {b. \<exists>e \<in> set evs. canonical_bytes L e = Inr b}"

definition collision :: "libs \<Rightarrow> json list \<Rightarrow> json list \<Rightarrow> bool" where
  "collision L xs ys \<longleftrightarrow>
     (\<exists>a \<in> preimages L xs. \<exists>b \<in> preimages L ys. a \<noteq> b \<and> b3hex L a = b3hex L b)"

lemma collision_mono: "collision L xs ys \<Longrightarrow> set xs \<subseteq> set xs' \<Longrightarrow> set ys \<subseteq> set ys' \<Longrightarrow> collision L xs' ys'"
  unfolding collision_def preimages_def by blast

lemma compute_hash_Inr:
  "compute_hash L e = Inr h \<longleftrightarrow> (\<exists>b. canonical_bytes L e = Inr b \<and> h = ''blake3:'' @ b3hex L b)"
  by (auto simp: compute_hash_def)

lemma hash_not_genesis:
  assumes "digest_laws L" and "compute_hash L e = Inr h"
  shows "h \<noteq> GENESIS"
proof -
  from assms have "length h = 71" by (auto simp: compute_hash_Inr digest_laws_def)
  then show ?thesis by (auto simp: GENESIS_def)
qed

lemma valid_log_tip_nonempty:
  assumes "valid_log L evs" and "evs \<noteq> []" and "digest_laws L"
  shows "log_tip evs \<noteq> GENESIS"
proof -
  from assms(1,2) obtain h where "str_field (last evs) ''hash'' = Some h" "compute_hash L (last evs) = Inr h"
    unfolding valid_log_def by (meson last_in_set)
  with assms show ?thesis by (simp add: log_tip_def hash_not_genesis)
qed

lemma same_hash_same_event:
  assumes "serde_laws L" "jwf e" "no_float e" "jwf f" "no_float f"
    and "str_field e ''hash'' = Some h" "compute_hash L e = Inr h"
    and "str_field f ''hash'' = Some h" "compute_hash L f = Inr h"
  shows "e = f \<or> collision L [e] [f]"
proof (cases "collision L [e] [f]")
  case False
  obtain m n where mn: "e = JObj m" "f = JObj n" "map_of m ''hash'' = Some (JStr h)" "map_of n ''hash'' = Some (JStr h)"
    using assms(6,8) by (auto simp: bind_eq_Some_conv jget_Some)
  from False assms(7,9) obtain b where "canonical_bytes L e = Inr b" "canonical_bytes L f = Inr b"
    by (auto simp: compute_hash_Inr collision_def preimages_def)
  with assms mn have "bt_remove ''hash'' m = bt_remove ''hash'' n"
    by (intro canonical_bytes_inj [OF assms(1)]) simp_all
  then have "map_of m j = map_of n j" for j
    using mn(3,4) map_of_bt_remove [of "''hash''" m j] map_of_bt_remove [of "''hash''" n j]
    by (auto split: if_splits)
  with assms(2,4) mn show ?thesis by (simp add: bt.ext)
qed simp

lemma equal_tips_equal_logs:
  assumes "serde_laws L" and "digest_laws L"
    and "\<forall>e \<in> set xs \<union> set ys. jwf e \<and> no_float e"
    and "valid_log L xs" "valid_log L ys" "log_tip xs = log_tip ys"
  shows "xs = ys \<or> collision L xs ys"
  using assms(3-)
proof (induction xs arbitrary: ys rule: rev_induct)
  case Nil
  then show ?case using valid_log_tip_nonempty [OF _ _ assms(2)] by (metis log_tip_def)
next
  case (snoc x xs)
  from snoc.prems(2,4) valid_log_tip_nonempty [OF snoc.prems(2) _ assms(2)]
  have "ys \<noteq> []" by (auto simp: log_tip_def)
  then obtain y ys' where ys: "ys = ys' @ [y]" by (metis rev_exhaust)
  from snoc.prems ys obtain h where
    "str_field x ''hash'' = Some h" "compute_hash L x = Inr h"
    "str_field y ''hash'' = Some h" "compute_hash L y = Inr h"
    by (auto simp: valid_log_snoc log_tip_def)
  with snoc.prems ys have "x = y \<or> collision L [x] [y]"
    by (intro same_hash_same_event [OF assms(1)]) auto
  then show ?case
  proof
    assume "collision L [x] [y]"
    then have "collision L (xs @ [x]) ys" by (rule collision_mono) (auto simp: ys)
    then show ?thesis ..
  next
    assume "x = y"
    with snoc.prems ys have "log_tip xs = log_tip ys'" by (auto simp: valid_log_snoc)
    with snoc.prems ys have "xs = ys' \<or> collision L xs ys'"
      by (intro snoc.IH) (auto simp: valid_log_snoc)
    with \<open>x = y\<close> ys show ?thesis using collision_mono [of L xs ys' "xs @ [x]" ys] by auto
  qed
qed

lemma canon_members_Inl:
  "canon_members L i rs = Inl x \<Longrightarrow> x = Encode \<or> (\<exists>k. (k, Inl x) \<in> set rs)"
proof (induction L i rs rule: canon_members.induct)
  case (2 L i k r rest)
  then show ?case
    by (cases "to_vec L (JStr k)"; cases r; cases "canon_members L (Suc i) rest") auto
qed simp

lemma canon_Inl: "canon L v = Inl x \<Longrightarrow> x \<in> {FloatInHashedField, Encode}"
proof (induction L v rule: canon.induct)
  case (1 L m)
  then have "canon_members L 0 (sort_key fst (map (\<lambda>(k, v). (k, canon L v)) m)) = Inl x"
    by (cases "canon_members L 0 (sort_key fst (map (\<lambda>(k, v). (k, canon L v)) m))") simp_all
  from canon_members_Inl [OF this] show ?case using "1.IH" by fastforce
qed (auto simp: ok_or_def split: option.splits)

lemma compute_hash_Inl: "compute_hash L e = Inl x \<Longrightarrow> x \<in> {NotObject, FloatInHashedField, Encode}"
  by (cases e)
    (auto simp: compute_hash_def canonical_bytes_def simp del: canon.simps dest: canon_Inl
      simp: rbind_def split: sum.splits)

lemma fsck_step_Inl:
  assumes "fsck_step L (n, tip, turn) e = Inl err"
  shows "case err of
       MissingField f \<Rightarrow> f \<in> {''prev_hash'', ''hash''} \<and> str_field e f = None \<or>
         f = ''turn_id'' \<and> u64_field e f = None
     | Torn i \<Rightarrow> i = n \<and> (\<exists>p. str_field e ''prev_hash'' = Some p \<and> p \<noteq> tip)
     | BadHash i \<Rightarrow> i = n \<and>
         (\<exists>h c. compute_hash L e = Inr h \<and> str_field e ''hash'' = Some c \<and> h \<noteq> c)
     | TurnRegression i \<Rightarrow> i = n \<and> (\<exists>t. u64_field e ''turn_id'' = Some t \<and> t < turn)
     | _ \<Rightarrow> compute_hash L e = Inl err"
proof -
  have errs: "compute_hash L e = Inl x \<Longrightarrow> x \<in> {NotObject, FloatInHashedField, Encode}" for x
    by (rule compute_hash_Inl)
  show ?thesis
  proof (cases "str_field e ''prev_hash''")
    case (Some p)
    note P = this
    show ?thesis
    proof (cases "p = tip")
      case True
      note T = this
      show ?thesis
      proof (cases "str_field e ''hash''")
        case (Some c)
        with P T assms errs show ?thesis
          by (cases "compute_hash L e"; cases "u64_field e ''turn_id''")
            (auto simp: fsck_step_def split: if_splits)
      qed (use assms P T in \<open>auto simp: fsck_step_def\<close>)
    qed (use assms P in \<open>auto simp: fsck_step_def\<close>)
  qed (use assms in \<open>auto simp: fsck_step_def\<close>)
qed

subsection \<open>Properties\<close>

text \<open>
  C1. Tamper evidence: two logs that both pass verification and end in the same tip hash are
  the same log, event for event, unless the digest has collided on two events of theirs. So the
  recorded tip pins every byte of the history before it.
\<close>

theorem fsck_tip_determines_log:
  assumes "serde_laws L" and "digest_laws L"
    and "\<forall>e \<in> set xs \<union> set ys. jwf e \<and> no_float e"
    and "fsck L xs = Inr (n, tip)" and "fsck L ys = Inr (k, tip)"
  shows "xs = ys \<or> collision L xs ys"
  using equal_tips_equal_logs [OF assms(1-3)] assms(4,5) by (auto simp: fsck_Inr)

text \<open>
  C2. Verification accepts exactly the logs that obey the rules (each event carries its own
  hash, names its predecessor's hash or the genesis marker, and the turns never go down), and
  then reports the number of events (as a 64-bit count) and the hash of the last one.
\<close>

theorem fsck_accepts_exactly_valid_logs:
  "fsck L evs = Inr (n, tip) \<longleftrightarrow> valid_log L evs \<and> n = of_nat (length evs) \<and> tip = log_tip evs"
  by (rule fsck_Inr)

text \<open>
  A rejection names the first offending event: everything before it is a valid log, and the
  error says what is wrong with that event (a field that is missing or of the wrong type, a
  predecessor hash that is not the tip, a hash that does not recompute, a lower turn, or a float
  in a hashed field), with its position in the log.
\<close>

theorem fsck_rejects_first_offender:
  assumes "fsck L evs = Inl err"
  shows "\<exists>xs e rest. evs = xs @ e # rest \<and> valid_log L xs \<and>
    (case err of
       MissingField f \<Rightarrow> f \<in> {''prev_hash'', ''hash''} \<and> str_field e f = None \<or>
         f = ''turn_id'' \<and> u64_field e f = None
     | Torn i \<Rightarrow> i = of_nat (length xs) \<and> (\<exists>p. str_field e ''prev_hash'' = Some p \<and> p \<noteq> log_tip xs)
     | BadHash i \<Rightarrow> i = of_nat (length xs) \<and>
         (\<exists>h c. compute_hash L e = Inr h \<and> str_field e ''hash'' = Some c \<and> h \<noteq> c)
     | TurnRegression i \<Rightarrow> i = of_nat (length xs) \<and>
         (\<exists>t. u64_field e ''turn_id'' = Some t \<and> t < log_turn xs)
     | _ \<Rightarrow> compute_hash L e = Inl err)"
proof -
  from fsck_Inl [OF assms] obtain xs e rest where *: "evs = xs @ e # rest" "valid_log L xs"
    and step: "fsck_step L (of_nat (length xs), log_tip xs, log_turn xs) e = Inl err" by blast
  note info = fsck_step_Inl [OF step]
  show ?thesis by (rule exI, rule exI, rule exI, rule conjI [OF *(1)], rule conjI [OF *(2) info])
qed

text \<open>
  Sealing extends a valid log: for any object body without floats (outside arrays) and with
  a turn that is not below the last one, and whatever chain fields the caller put into it,
  sealing succeeds, the sealed event is the body with only \<open>prev_hash\<close> and \<open>hash\<close> replaced,
  and the log with the event appended passes verification with the new hash as its tip.
\<close>

theorem seal_extends_valid_log:
  assumes "serde_laws L" and "jwf (JObj m)" and "obj_float_free (JObj m)"
    and "fsck L evs = Inr (n, tip)"
    and "u64_field (JObj m) ''turn_id'' = Some t" and "log_turn evs \<le> t"
  shows "\<exists>h. let s = JObj (bt_insert ''hash'' (JStr h) (bt_insert ''prev_hash'' (JStr tip) m)) in
    seal L (JObj m) tip = Inr s \<and> fsck L (evs @ [s]) = Inr (n + 1, h)"
proof -
  let ?m = "bt_insert ''prev_hash'' (JStr tip) m"
  from assms(4) have log: "valid_log L evs" "n = of_nat (length evs)" "tip = log_tip evs" by (auto simp: fsck_Inr)
  have ok: "bt_ok m" using assms(2) by simp
  have "jwf (JObj ?m)" by (rule jwf_insert [OF assms(2)]) simp
  moreover have "obj_float_free (JObj (bt_remove ''hash'' ?m))"
    using assms(3) by (auto dest!: values_bt_remove values_bt_insert)
  ultimately obtain b where "canonical_bytes L (JObj ?m) = Inr b" using canonical_bytes_eq [OF assms(1)] by simp
  then obtain h where seal: "seal L (JObj m) tip = Inr (JObj (bt_insert ''hash'' (JStr h) ?m))" (is "_ = Inr ?s")
    by (auto simp: seal_Inr compute_hash_Inr)
  from valid_log_seal [OF log(1) _ ok assms(5,6)] seal log(3) have "valid_log L (evs @ [?s])" by simp
  moreover have "log_tip (evs @ [?s]) = h" by (simp add: log_tip_def bt_simps ok)
  ultimately have "fsck L (evs @ [?s]) = Inr (n + 1, h)" by (simp add: fsck_Inr log(2))
  with seal show ?thesis by (auto simp: Let_def)
qed

text \<open>
  C9. The canonical bytes determine the event: for events without floats, two events have the
  same canonical bytes exactly when they agree on every field other than \<open>hash\<close>.
\<close>

theorem canonical_bytes_determine_event:
  assumes "serde_laws L" "jwf (JObj m)" "no_float (JObj m)" "jwf (JObj k)" "no_float (JObj k)"
  shows "canonical_bytes L (JObj m) = canonical_bytes L (JObj k) \<longleftrightarrow> bt_remove ''hash'' m = bt_remove ''hash'' k"
proof
  assume eq: "canonical_bytes L (JObj m) = canonical_bytes L (JObj k)"
  obtain b where "canonical_bytes L (JObj m) = Inr b"
    using canonical_bytes_eq [OF assms(1,2)] no_float_obj_float_free [OF no_float_remove [OF assms(3)]] by simp
  with eq show "bt_remove ''hash'' m = bt_remove ''hash'' k" using canonical_bytes_inj [OF assms] by metis
qed (simp add: canonical_bytes_def)

text \<open>
  What the canonical form is and when it is refused: a value that is no object is refused
  as such; an object is refused exactly when a float is reached along objects (after \<open>hash\<close> is
  dropped); otherwise the canonical bytes are the compact print of the object without \<open>hash\<close>.
\<close>

theorem canonical_bytes_exact:
  assumes "serde_laws L" and "jwf ev"
  shows "canonical_bytes L ev =
    (case ev of
       JObj m \<Rightarrow>
         (let body = JObj (bt_remove ''hash'' m) in
          if obj_float_free body then Inr (the (to_vec L body)) else Inl FloatInHashedField)
     | _ \<Rightarrow> Inl NotObject)"
  using canonical_bytes_eq [OF assms(1)] assms(2) by (cases ev) (simp_all add: canonical_bytes_def Let_def)

text \<open>
  A float inside an array is hashed: the canonicaliser hands arrays to the printer whole,
  so the rule that hashed fields hold no float is not enforced below an array.
\<close>

theorem canonical_bytes_accepts_float_in_array:
  assumes "serde_laws L" and "k \<noteq> ''hash''"
  shows "\<exists>b. canonical_bytes L (JObj [(k, JArr [JNum (Float w)])]) = Inr b"
proof -
  have "jwf (JObj [(k, JArr [JNum (Float w)])])" by (simp add: bt_ok_def)
  from canonical_bytes_eq [OF assms(1) this] assms(2) show ?thesis by (simp add: bt_remove_def)
qed

subsection \<open>Witnesses\<close>

text \<open>Two bodies a writer seals one after the other, and the log of the first.\<close>

definition body0 :: "(string \<times> json) list" where
  "body0 = [(''text'', JStr ''a''), (''turn_id'', ju64 1)]"

definition body1 :: "(string \<times> json) list" where
  "body1 = [(''text'', JStr ''b''), (''turn_id'', ju64 2)]"

definition sealed0 :: json where
  "sealed0 = (case seal ref_libs (JObj body0) GENESIS of Inr s \<Rightarrow> s | Inl _ \<Rightarrow> JNull)"

definition tip0 :: string where
  "tip0 = (case str_field sealed0 ''hash'' of Some h \<Rightarrow> h | None \<Rightarrow> [])"

lemma fsck_sealed0: "fsck ref_libs [sealed0] = Inr (1, tip0)"
  by code_simp

lemma fsck_tip_determines_log_witness: "[sealed0] = [sealed0] \<or> collision ref_libs [sealed0] [sealed0]"
proof (rule fsck_tip_determines_log [OF ref_serde ref_digest_laws _ fsck_sealed0 fsck_sealed0])
  have "jwf sealed0" "no_float sealed0" by code_simp+
  then show "\<forall>e \<in> set [sealed0] \<union> set [sealed0]. jwf e \<and> no_float e" by simp
qed

lemma fsck_rejects_first_offender_witness:
  "fsck ref_libs [sealed0, JNull] = Inl (MissingField ''prev_hash'') \<and>
   (\<exists>xs e rest. [sealed0, JNull] = xs @ e # rest \<and> valid_log ref_libs xs \<and>
     (''prev_hash'' \<in> {''prev_hash'', ''hash''} \<and> str_field e ''prev_hash'' = None \<or>
      ''prev_hash'' = ''turn_id'' \<and> u64_field e ''prev_hash'' = None))"
proof -
  have "fsck ref_libs [sealed0, JNull] = Inl (MissingField ''prev_hash'')" by code_simp
  with fsck_rejects_first_offender [OF this] show ?thesis by simp
qed

lemma seal_extends_valid_log_witness:
  "\<exists>h. let s = JObj (bt_insert ''hash'' (JStr h) (bt_insert ''prev_hash'' (JStr tip0) body1)) in
    seal ref_libs (JObj body1) tip0 = Inr s \<and> fsck ref_libs ([sealed0] @ [s]) = Inr (1 + 1, h)"
proof (rule seal_extends_valid_log [OF ref_serde _ _ fsck_sealed0])
  show "jwf (JObj body1)" "obj_float_free (JObj body1)" by code_simp+
  show "u64_field (JObj body1) ''turn_id'' = Some 2" "log_turn [sealed0] \<le> 2" by code_simp+
qed

lemma canonical_bytes_determine_event_witness:
  "canonical_bytes ref_libs (JObj body0) = canonical_bytes ref_libs (JObj body1) \<longleftrightarrow>
     bt_remove ''hash'' body0 = bt_remove ''hash'' body1"
proof (rule canonical_bytes_determine_event [OF ref_serde])
  show "jwf (JObj body0)" "no_float (JObj body0)" "jwf (JObj body1)" "no_float (JObj body1)" by code_simp+
qed

lemma canonical_bytes_exact_witness:
  "canonical_bytes ref_libs (JObj [(''x'', JNum (Float 0))]) = Inl FloatInHashedField"
proof -
  have "jwf (JObj [(''x'', JNum (Float 0))])" by code_simp
  from canonical_bytes_exact [OF ref_serde this] show ?thesis by (simp add: bt_remove_def)
qed

lemma canonical_bytes_accepts_float_in_array_witness:
  "\<exists>b. canonical_bytes ref_libs (JObj [(''x'', JArr [JNum (Float 0)])]) = Inr b"
  by (rule canonical_bytes_accepts_float_in_array [OF ref_serde]) simp

end
