(* ===== verification/ChainFsck.thy ===== *)
theory ChainFsck
  imports Chain
begin

text \<open>
  \<open>crates/vihs-core/src/bin/chain_fsck.rs\<close>: the command-line verifier of a log file. The file
  is what \<open>BufReader::lines\<close> yields, one entry per line, \<open>None\<close> where a read fails; what the
  program prints is a value of \<open>report\<close> and its exit status a byte.
\<close>

text \<open>
  \<open>line.trim().is_empty()\<close>: the line holds only characters with the Unicode property
  White\_Space, read off their UTF-8 bytes.
\<close>

fun blank :: "string \<Rightarrow> bool" where
  "blank [] = True"
| "blank (c # cs) =
     (let n = (of_char c :: nat) in
      if 9 \<le> n \<and> n \<le> 13 \<or> n = 32 then blank cs
      else case cs of
        [] \<Rightarrow> False
      | d # ds \<Rightarrow>
          (let k = (of_char d :: nat) in
           if n = 0xC2 \<and> (k = 0x85 \<or> k = 0xA0) then blank ds
           else case ds of
             [] \<Rightarrow> False
           | e # es \<Rightarrow>
               (let l = (of_char e :: nat) in
                if n = 0xE1 \<and> k = 0x9A \<and> l = 0x80 \<or>
                   n = 0xE2 \<and> k = 0x80 \<and> (0x80 \<le> l \<and> l \<le> 0x8A \<or> l = 0xA8 \<or> l = 0xA9 \<or> l = 0xAF) \<or>
                   n = 0xE2 \<and> k = 0x81 \<and> l = 0x9F \<or>
                   n = 0xE3 \<and> k = 0x80 \<and> l = 0x80
                then blank es else False)))"

datatype report =
    Usage
  | CannotOpen string
  | ReadError nat
  | ParseError nat
  | ChainOk u64 string
  | ChainFailed chain_error

definition exit_code :: "report \<Rightarrow> u8" where
  "exit_code r =
     (case r of
        ChainOk _ _ \<Rightarrow> 0
      | Usage \<Rightarrow> 2
      | CannotOpen _ \<Rightarrow> 2
      | _ \<Rightarrow> 1)"

text \<open>The loop over the lines; \<open>idx\<close> counts from zero, the messages from one.\<close>

fun read_values :: "libs \<Rightarrow> nat \<Rightarrow> string option list \<Rightarrow> json list \<Rightarrow> report + json list" where
  "read_values L idx [] values = Inr values"
| "read_values L idx (line # lines) values =
     (case line of
        None \<Rightarrow> Inl (ReadError (idx + 1))
      | Some l \<Rightarrow>
          if blank l then read_values L (idx + 1) lines values
          else (case from_slice L l of
                  Some v \<Rightarrow> read_values L (idx + 1) lines (values @ [v])
                | None \<Rightarrow> Inl (ParseError (idx + 1))))"

definition chain_fsck_main ::
    "libs \<Rightarrow> (string \<Rightarrow> string option list option) \<Rightarrow> string list \<Rightarrow> report" where
  "chain_fsck_main L open args =
     (if length args \<noteq> 2 then Usage
      else case open (args ! 1) of
        None \<Rightarrow> CannotOpen (args ! 1)
      | Some lines \<Rightarrow>
          (case read_values L 0 lines [] of
             Inl r \<Rightarrow> r
           | Inr values \<Rightarrow>
               (case fsck L values of
                  Inr (n, tip) \<Rightarrow> ChainOk n tip
                | Inl err \<Rightarrow> ChainFailed err)))"

subsection \<open>What is read\<close>

definition parsed_lines :: "libs \<Rightarrow> string option list \<Rightarrow> json option list" where
  "parsed_lines L lines =
     map (\<lambda>line. Option.bind line (from_slice L)) (filter (\<lambda>line. case line of Some l \<Rightarrow> \<not> blank l | None \<Rightarrow> True) lines)"

lemma read_values_Inr:
  "read_values L idx lines vs = Inr ws \<longleftrightarrow> (\<exists>us. parsed_lines L lines = map Some us \<and> ws = vs @ us)"
proof (induction L idx lines vs rule: read_values.induct)
  case (2 L idx line lines vals)
  show ?case
  proof (cases line)
    case (Some l)
    show ?thesis
    proof (cases "blank l")
      case True
      with Some "2.IH"(1) show ?thesis by (simp add: parsed_lines_def)
    next
      case False
      with Some "2.IH"(2) show ?thesis
        by (cases "from_slice L l") (auto simp: parsed_lines_def Cons_eq_map_conv)
    qed
  qed (auto simp: parsed_lines_def)
qed (auto simp: parsed_lines_def)

lemma read_values_Inl:
  "read_values L idx lines vs = Inl r \<Longrightarrow> (\<exists>n. r = ReadError n \<or> r = ParseError n)"
  by (induction L idx lines vs rule: read_values.induct) (auto split: option.splits if_splits)

lemma to_vec_object_not_blank: "serde_laws L \<Longrightarrow> to_vec L (JObj m) = Some b \<Longrightarrow> \<not> blank b"
  by (auto simp: serde_object Let_def split: list.splits)

subsection \<open>Properties\<close>

text \<open>
  The verifier exits with status zero exactly when it was given one file, the file opened,
  every line that is not blank was read and parsed, and the values form a valid log.
\<close>

theorem chain_fsck_exit_zero:
  "exit_code (chain_fsck_main L open args) = 0 \<longleftrightarrow>
     (\<exists>prog path lines evs. args = [prog, path] \<and> open path = Some lines \<and>
        parsed_lines L lines = map Some evs \<and> valid_log L evs)"
proof (cases "\<exists>prog path. args = [prog, path]")
  case False
  then have "length args \<noteq> 2" by (auto simp: length_Suc_conv numeral_2_eq_2)
  with False show ?thesis by (auto simp: chain_fsck_main_def exit_code_def)
next
  case True
  then obtain prog path where args: "args = [prog, path]" by blast
  show ?thesis
  proof (cases "open path")
    case None
    with args show ?thesis by (simp add: chain_fsck_main_def exit_code_def)
  next
    case (Some lines)
    show ?thesis
    proof (cases "read_values L 0 lines []")
      case (Inl r)
      have "\<nexists>evs. parsed_lines L lines = map Some evs"
        using read_values_Inr [of L 0 lines "[]"] Inl by simp
      with Some args Inl read_values_Inl [OF Inl] show ?thesis
        by (auto simp: chain_fsck_main_def exit_code_def)
    next
      case (Inr evs)
      then have parsed: "parsed_lines L lines = map Some evs" by (simp add: read_values_Inr)
      have "exit_code (chain_fsck_main L open args) = 0 \<longleftrightarrow> valid_log L evs"
        using fsck_Inr [of L evs] Some args Inr
        by (cases "fsck L evs") (auto simp: chain_fsck_main_def exit_code_def)
      moreover have "map Some evs = map Some ws \<longleftrightarrow> ws = evs" for ws by (auto simp: inj_map_eq_map)
      ultimately show ?thesis using args Some parsed by auto
    qed
  qed
qed

text \<open>
  Round trip through the file: a valid log of events without floats, printed one event per
  line, is accepted with its length and tip.
\<close>

theorem chain_fsck_accepts_printed_log:
  assumes "serde_laws L" and "\<forall>e \<in> set evs. jwf e \<and> no_float e" and "valid_log L evs"
  shows "chain_fsck_main L (\<lambda>_. Some (map (to_vec L) evs)) [prog, path] =
    ChainOk (of_nat (length evs)) (log_tip evs)"
proof -
  have line: "\<exists>b. to_vec L e = Some b \<and> \<not> blank b \<and> from_slice L b = Some e" if "e \<in> set evs" for e
  proof -
    from that assms(3) obtain h where "str_field e ''hash'' = Some h" unfolding valid_log_def by blast
    then obtain m where "e = JObj m" by (cases e) simp_all
    moreover obtain b where "to_vec L e = Some b" using serde_total [OF assms(1)] by blast
    ultimately show ?thesis
      using that assms serde_roundtrip [OF assms(1), of e b] to_vec_object_not_blank [OF assms(1)] by auto
  qed
  then have "parsed_lines L (map (to_vec L) evs) = map Some evs"
  proof (induction evs)
    case (Cons e es)
    obtain b where "to_vec L e = Some b" "\<not> blank b" "from_slice L b = Some e" using Cons.prems [of e] by auto
    with Cons show ?case by (simp add: parsed_lines_def)
  qed (simp add: parsed_lines_def)
  then have "read_values L 0 (map (to_vec L) evs) [] = Inr evs" by (simp add: read_values_Inr)
  moreover have "fsck L evs = Inr (of_nat (length evs), log_tip evs)" using assms(3) by (simp add: fsck_Inr)
  ultimately show ?thesis by (simp add: chain_fsck_main_def)
qed

subsection \<open>Witnesses\<close>

lemma chain_fsck_accepts_printed_log_witness:
  "chain_fsck_main ref_libs (\<lambda>_. Some (map (to_vec ref_libs) [sealed0])) [''chain-fsck'', ''log''] = ChainOk 1 tip0"
proof -
  have "jwf sealed0" "no_float sealed0" by code_simp+
  moreover have "valid_log ref_libs [sealed0]" "log_tip [sealed0] = tip0" using fsck_sealed0 by (auto simp: fsck_Inr)
  ultimately show ?thesis
    using chain_fsck_accepts_printed_log [OF ref_serde, of "[sealed0]" "''chain-fsck''" "''log''"] by simp
qed

end
