(* ===== verification/Proc.thy ===== *)
theory Proc
  imports Base
begin

text \<open>
  Procedures that talk to external services: a procedure takes the state of the services and
  returns the new state with a result, or nothing at all (\<open>None\<close>) when it never returns, which
  a loop over the pages of a listing may do. \<open>hoare P m Q\<close> is total correctness: started in a
  state with \<open>P\<close>, the procedure returns, and its result and final state satisfy \<open>Q\<close>.
\<close>

type_synonym ('s, 'e, 'a) proc = "'s \<Rightarrow> ('s \<times> ('e + 'a)) option"

definition pret :: "'a \<Rightarrow> ('s, 'e, 'a) proc" where
  "pret a = (\<lambda>s. Some (s, Inr a))"

definition perr :: "'e \<Rightarrow> ('s, 'e, 'a) proc" where
  "perr e = (\<lambda>s. Some (s, Inl e))"

text \<open>Early return: an error ends the procedure.\<close>

definition pbind :: "('s, 'e, 'a) proc \<Rightarrow> ('a \<Rightarrow> ('s, 'e, 'b) proc) \<Rightarrow> ('s, 'e, 'b) proc" where
  "pbind m f = (\<lambda>s. case m s of
     None \<Rightarrow> None
   | Some (s', Inl e) \<Rightarrow> Some (s', Inl e)
   | Some (s', Inr a) \<Rightarrow> f a s')"

text \<open>A \<open>match\<close> on the result of a call, and the conversion of its error.\<close>

definition pmatch :: "('s, 'e, 'a) proc \<Rightarrow> ('e + 'a \<Rightarrow> ('s, 'f, 'b) proc) \<Rightarrow> ('s, 'f, 'b) proc" where
  "pmatch m f = (\<lambda>s. case m s of None \<Rightarrow> None | Some (s', r) \<Rightarrow> f r s')"

definition pmap_err :: "('e \<Rightarrow> 'f) \<Rightarrow> ('s, 'e, 'a) proc \<Rightarrow> ('s, 'f, 'a) proc" where
  "pmap_err g m = pmatch m (\<lambda>r. case r of Inl e \<Rightarrow> perr (g e) | Inr a \<Rightarrow> pret a)"

definition pof :: "'e + 'a \<Rightarrow> ('s, 'e, 'a) proc" where
  "pof r = (\<lambda>s. Some (s, r))"

text \<open>A procedure on one of two services, run on both.\<close>

definition on_fst :: "('s, 'e, 'a) proc \<Rightarrow> ('s \<times> 'r, 'e, 'a) proc" where
  "on_fst m = (\<lambda>(s, r). map_option (\<lambda>(s', x). ((s', r), x)) (m s))"

definition on_snd :: "('r, 'e, 'a) proc \<Rightarrow> ('s \<times> 'r, 'e, 'a) proc" where
  "on_snd m = (\<lambda>(s, r). map_option (\<lambda>(r', x). ((s, r'), x)) (m r))"

subsection \<open>Total correctness\<close>

definition hoare :: "('s \<Rightarrow> bool) \<Rightarrow> ('s, 'e, 'a) proc \<Rightarrow> ('e + 'a \<Rightarrow> 's \<Rightarrow> bool) \<Rightarrow> bool" where
  "hoare P m Q \<longleftrightarrow> (\<forall>s. P s \<longrightarrow> (\<exists>s' r. m s = Some (s', r) \<and> Q r s'))"

lemma hoareI: "(\<And>s. P s \<Longrightarrow> \<exists>s' r. m s = Some (s', r) \<and> Q r s') \<Longrightarrow> hoare P m Q"
  by (auto simp: hoare_def)

lemma hoareE:
  assumes "hoare P m Q" and "P s"
  obtains s' r where "m s = Some (s', r)" "Q r s'"
  using assms by (auto simp: hoare_def)

lemma hoareD: "hoare P m Q \<Longrightarrow> P s \<Longrightarrow> m s = Some (s', r) \<Longrightarrow> Q r s'"
  by (fastforce simp: hoare_def)

lemma hoare_conseq:
  "hoare P m Q \<Longrightarrow> (\<And>s. P' s \<Longrightarrow> P s) \<Longrightarrow> (\<And>r s. Q r s \<Longrightarrow> Q' r s) \<Longrightarrow> hoare P' m Q'"
  unfolding hoare_def by blast

lemma hoare_pret: "(\<And>s. P s \<Longrightarrow> Q (Inr a) s) \<Longrightarrow> hoare P (pret a) Q"
  by (simp add: hoare_def pret_def)

lemma hoare_perr: "(\<And>s. P s \<Longrightarrow> Q (Inl e) s) \<Longrightarrow> hoare P (perr e) Q"
  by (simp add: hoare_def perr_def)

lemma hoare_pof: "(\<And>s. P s \<Longrightarrow> Q r s) \<Longrightarrow> hoare P (pof r) Q"
  by (simp add: hoare_def pof_def)

lemma hoare_pbind:
  assumes "hoare P m R" and "\<And>a. hoare (R (Inr a)) (f a) Q" and "\<And>e s. R (Inl e) s \<Longrightarrow> Q (Inl e) s"
  shows "hoare P (pbind m f) Q"
proof (rule hoareI)
  fix s assume "P s"
  with assms(1) obtain s' r where m: "m s = Some (s', r)" "R r s'" by (rule hoareE)
  show "\<exists>s' r. pbind m f s = Some (s', r) \<and> Q r s'"
  proof (cases r)
    case (Inl e)
    with m assms(3) show ?thesis by (simp add: pbind_def)
  next
    case (Inr a)
    with m assms(2) [of a] show ?thesis by (auto simp: pbind_def hoare_def)
  qed
qed

lemma hoare_pmatch:
  assumes "hoare P m R" and "\<And>r. hoare (R r) (f r) Q"
  shows "hoare P (pmatch m f) Q"
proof (rule hoareI)
  fix s assume "P s"
  with assms(1) obtain s' r where m: "m s = Some (s', r)" "R r s'" by (rule hoareE)
  with assms(2) [of r] show "\<exists>s' r. pmatch m f s = Some (s', r) \<and> Q r s'" by (auto simp: pmatch_def hoare_def)
qed

lemma hoare_pmap_err:
  assumes "hoare P m (\<lambda>r. Q (map_err g r))"
  shows "hoare P (pmap_err g m) Q"
  unfolding pmap_err_def
proof (rule hoare_pmatch [OF assms])
  fix r :: "'b + 'c"
  show "hoare (Q (map_err g r)) (case r of Inl e \<Rightarrow> perr (g e) | Inr a \<Rightarrow> pret a) Q"
    by (cases r) (auto intro: hoare_perr hoare_pret)
qed

text \<open>A procedure on one service leaves the other as it is.\<close>

lemma hoare_on_fst:
  assumes "\<And>r. hoare (\<lambda>s. P (s, r)) m (\<lambda>x s. Q x (s, r))"
  shows "hoare P (on_fst m) Q"
proof (rule hoareI)
  fix w assume "P w"
  obtain s r where w: "w = (s, r)" by (cases w)
  with \<open>P w\<close> obtain s' x where "m s = Some (s', x)" "Q x (s', r)" by (auto elim: hoareE [OF assms [of r], of s])
  with w show "\<exists>s' x. on_fst m w = Some (s', x) \<and> Q x s'" by (auto simp: on_fst_def)
qed

lemma hoare_on_snd:
  assumes "\<And>s. hoare (\<lambda>r. P (s, r)) m (\<lambda>x r. Q x (s, r))"
  shows "hoare P (on_snd m) Q"
proof (rule hoareI)
  fix w assume "P w"
  obtain s r where w: "w = (s, r)" by (cases w)
  with \<open>P w\<close> obtain r' x where "m r = Some (r', x)" "Q x (s, r')" by (auto elim: hoareE [OF assms [of s], of r])
  with w show "\<exists>s' x. on_snd m w = Some (s', x) \<and> Q x s'" by (auto simp: on_snd_def)
qed

lemma pret_simp [simp]: "pret a s = Some (s, Inr a)"
  by (simp add: pret_def)

lemma perr_simp [simp]: "perr e s = Some (s, Inl e)"
  by (simp add: perr_def)

lemma pof_simp [simp]: "pof r s = Some (s, r)"
  by (simp add: pof_def)

end
