(* ===== verification/Redis.thy ===== *)
theory Redis
  imports Decimal "HOL-Library.AList"
begin

text \<open>
  The Redis server as the components see it. The client library and the server are third-party
  code: a parameter \<open>'r redis\<close> executes one command on one connection at a time. The commands
  are the ones the code sends. What the code relies on is stated against the documented meaning
  of those commands on a keyspace (\<open>redis_sem\<close>, \<open>redis_reply\<close>): a command that returns a
  reply has had its documented effect, a command that returns an error may or may not have had
  it, keys whose time to live has run out are gone. An in-memory server satisfies the contract.
\<close>

subsection \<open>Commands\<close>

datatype redis_cmd =
    HSet string "(string \<times> string) list"
  | HIncrBy string string int
  | HGetAll string
  | Exists string
  | Expire string int
  | Del "string list"
  | ZAdd string string int
  | ZRem string string
  | ZRangeAll string
  | Keys string
  | Ping

datatype reply =
    RInt int
  | RStr string
  | RPairs "(string \<times> string) list"
  | RStrs "string list"

text \<open>
  The errors the code tells apart: timeout, I/O, dropped and refused connections
  (\<open>ConnDown\<close>) against everything else the server or the decoder reports.
\<close>

datatype redis_error = ConnDown | OtherErr

datatype conn = Pooled | Fresh

text \<open>
  \<open>rexec\<close> runs a command at a time in seconds; \<open>rconnect\<close> opens a fresh short-lived
  connection (\<open>False\<close> when that fails).
\<close>

record 'r redis =
  rexec :: "conn \<Rightarrow> int \<Rightarrow> redis_cmd \<Rightarrow> 'r \<Rightarrow> 'r \<times> (redis_error + reply)"
  rconnect :: "'r \<Rightarrow> bool"

text \<open>A pipeline: every command is sent, the first error in the replies is the outcome.\<close>

fun rpipe :: "'r redis \<Rightarrow> conn \<Rightarrow> int \<Rightarrow> redis_cmd list \<Rightarrow> 'r \<Rightarrow> 'r \<times> (redis_error + reply list)" where
  "rpipe R c now [] r = (r, Inr [])"
| "rpipe R c now (cmd # cmds) r =
     (let (r1, res) = rexec R c now cmd r; (r2, rest) = rpipe R c now cmds r1 in
      (r2, rbind res (\<lambda>x. rbind rest (\<lambda>xs. Inr (x # xs)))))"

text \<open>The conversions of a reply to the type the caller asks for.\<close>

fun reply_int :: "reply \<Rightarrow> redis_error + int" where
  "reply_int (RInt n) = Inr n"
| "reply_int _ = Inl OtherErr"

fun reply_pairs :: "reply \<Rightarrow> redis_error + (string \<times> string) list" where
  "reply_pairs (RPairs ps) = Inr ps"
| "reply_pairs _ = Inl OtherErr"

fun reply_strs :: "reply \<Rightarrow> redis_error + string list" where
  "reply_strs (RStrs ks) = Inr ks"
| "reply_strs _ = Inl OtherErr"

fun reply_str :: "reply \<Rightarrow> redis_error + string" where
  "reply_str (RStr s) = Inr s"
| "reply_str _ = Inl OtherErr"

subsection \<open>The documented meaning of the commands\<close>

datatype rval = RHash "string \<rightharpoonup> string" | RZSet "string \<rightharpoonup> int"

record rdb =
  keyspace :: "string \<rightharpoonup> rval"
  deadline :: "string \<rightharpoonup> int"

text \<open>Glob matching with the only wildcard the code uses.\<close>

fun glob :: "string \<Rightarrow> string \<Rightarrow> bool" where
  "glob [] s = (s = [])"
| "glob (p # ps) [] = (p = CHR ''*'' \<and> glob ps [])"
| "glob (p # ps) (c # cs) =
     (if p = CHR ''*'' then glob ps (c # cs) \<or> glob (p # ps) cs else p = c \<and> glob ps cs)"

definition purge :: "int \<Rightarrow> rdb \<Rightarrow> rdb" where
  "purge now db =
     (let dead = (\<lambda>k. case deadline db k of Some d \<Rightarrow> d \<le> now | None \<Rightarrow> False) in
      \<lparr>keyspace = (\<lambda>k. if dead k then None else keyspace db k),
       deadline = (\<lambda>k. if dead k then None else deadline db k)\<rparr>)"

definition put_key :: "string \<Rightarrow> rval \<Rightarrow> rdb \<Rightarrow> rdb" where
  "put_key k v db = db\<lparr>keyspace := (keyspace db)(k \<mapsto> v)\<rparr>"

definition drop_keys :: "string set \<Rightarrow> rdb \<Rightarrow> rdb" where
  "drop_keys ks db =
     \<lparr>keyspace = (\<lambda>k. if k \<in> ks then None else keyspace db k),
      deadline = (\<lambda>k. if k \<in> ks then None else deadline db k)\<rparr>"

text \<open>The hash at a key; a missing key is an empty hash, a sorted set is a type error.\<close>

definition hash_at :: "rdb \<Rightarrow> string \<Rightarrow> (string \<rightharpoonup> string) option" where
  "hash_at db k = (case keyspace db k of None \<Rightarrow> Some Map.empty | Some (RHash h) \<Rightarrow> Some h | Some (RZSet _) \<Rightarrow> None)"

definition zset_at :: "rdb \<Rightarrow> string \<Rightarrow> (string \<rightharpoonup> int) option" where
  "zset_at db k = (case keyspace db k of None \<Rightarrow> Some Map.empty | Some (RZSet z) \<Rightarrow> Some z | Some (RHash _) \<Rightarrow> None)"

definition int_field :: "(string \<rightharpoonup> string) \<Rightarrow> string \<Rightarrow> int option" where
  "int_field h f = (case h f of None \<Rightarrow> Some 0 | Some v \<Rightarrow> parse_i64 v)"

text \<open>The effect of a command on the keyspace; \<open>None\<close> is an error reply with no effect.\<close>

fun redis_sem :: "int \<Rightarrow> redis_cmd \<Rightarrow> rdb \<Rightarrow> rdb option" where
  "redis_sem now (HSet k fs) db = map_option (\<lambda>h. put_key k (RHash (h ++ map_of (rev fs))) db) (hash_at db k)"
| "redis_sem now (HIncrBy k f n) db =
     Option.bind (hash_at db k) (\<lambda>h. Option.bind (int_field h f) (\<lambda>i.
       if - (2 ^ 63) \<le> i + n \<and> i + n < 2 ^ 63
       then Some (put_key k (RHash (h(f \<mapsto> show_int (i + n)))) db) else None))"
| "redis_sem now (HGetAll k) db = map_option (\<lambda>_. db) (hash_at db k)"
| "redis_sem now (Exists k) db = Some db"
| "redis_sem now (Expire k s) db =
     Some (if keyspace db k = None then db
           else if s \<le> 0 then drop_keys {k} db
           else db\<lparr>deadline := (deadline db)(k \<mapsto> now + s)\<rparr>)"
| "redis_sem now (Del ks) db = Some (drop_keys (set ks) db)"
| "redis_sem now (ZAdd k m s) db = map_option (\<lambda>z. put_key k (RZSet (z(m \<mapsto> s))) db) (zset_at db k)"
| "redis_sem now (ZRem k m) db =
     map_option (\<lambda>z. if z m = None then db
       else if z(m := None) = Map.empty then drop_keys {k} db
       else put_key k (RZSet (z(m := None))) db) (zset_at db k)"
| "redis_sem now (ZRangeAll k) db = map_option (\<lambda>_. db) (zset_at db k)"
| "redis_sem now (Keys p) db = Some db"
| "redis_sem now Ping db = Some db"

text \<open>What a reply says of the keyspace; hash fields and keys come in no particular order.\<close>

fun redis_reply :: "redis_cmd \<Rightarrow> rdb \<Rightarrow> reply \<Rightarrow> bool" where
  "redis_reply (HGetAll k) db rep =
     (\<exists>ps. rep = RPairs ps \<and> distinct (map fst ps) \<and> Some (map_of ps) = hash_at db k)"
| "redis_reply (Exists k) db rep = (rep = RInt (if keyspace db k = None then 0 else 1))"
| "redis_reply (ZRangeAll k) db rep =
     (\<exists>ms. rep = RStrs ms \<and> distinct ms \<and> map_option dom (zset_at db k) = Some (set ms))"
| "redis_reply (Keys p) db rep =
     (\<exists>ks. rep = RStrs ks \<and> distinct ks \<and> set ks = {k \<in> dom (keyspace db). glob p k})"
| "redis_reply Ping db rep = (rep = RStr ''PONG'')"
| "redis_reply _ db rep = (\<exists>n. rep = RInt n)"

definition redis_laws :: "'r redis \<Rightarrow> ('r \<Rightarrow> rdb) \<Rightarrow> bool" where
  "redis_laws R db \<longleftrightarrow>
     (\<forall>c now cmd r. case rexec R c now cmd r of
        (r', Inr rep) \<Rightarrow> redis_sem now cmd (purge now (db r)) = Some (db r') \<and>
          redis_reply cmd (purge now (db r)) rep
      | (r', Inl e) \<Rightarrow> db r' = purge now (db r) \<or> redis_sem now cmd (purge now (db r)) = Some (db r'))"

lemma rexec_ok:
  "redis_laws R db \<Longrightarrow> rexec R c now cmd r = (r', Inr rep) \<Longrightarrow>
     redis_sem now cmd (purge now (db r)) = Some (db r') \<and> redis_reply cmd (purge now (db r)) rep"
  unfolding redis_laws_def by (metis (mono_tags, lifting) case_prod_conv sum.case(2))

lemma rexec_err:
  "redis_laws R db \<Longrightarrow> rexec R c now cmd r = (r', Inl e) \<Longrightarrow>
     db r' = purge now (db r) \<or> redis_sem now cmd (purge now (db r)) = Some (db r')"
  unfolding redis_laws_def by (metis (mono_tags, lifting) case_prod_conv sum.case(1))

lemma rexec_hset:
  assumes "redis_laws R db" and "rexec R c now (HSet k fs) r = (r', Inr rep)"
  shows "\<exists>h. hash_at (purge now (db r)) k = Some h \<and>
    db r' = put_key k (RHash (h ++ map_of (rev fs))) (purge now (db r))"
  using rexec_ok [OF assms] by (cases "hash_at (purge now (db r)) k") auto

lemma purge_idem [simp]: "purge now (purge now db) = purge now db"
  by (auto simp: purge_def Let_def fun_eq_iff split: option.splits)

lemma purge_keyspace: "keyspace (purge now db) k = Some v \<Longrightarrow> keyspace db k = Some v"
  by (auto simp: purge_def Let_def split: if_splits)

lemma keyspace_put_key [simp]: "keyspace (put_key k v db) = (keyspace db)(k \<mapsto> v)"
  by (simp add: put_key_def)

lemma deadline_put_key [simp]: "deadline (put_key k v db) = deadline db"
  by (simp add: put_key_def)

lemma hash_at_put_key [simp]: "hash_at (put_key k (RHash h) db) j = (if j = k then Some h else hash_at db j)"
  by (simp add: hash_at_def)

lemma keyspace_drop_keys [simp]: "keyspace (drop_keys ks db) k = (if k \<in> ks then None else keyspace db k)"
  by (simp add: drop_keys_def)

subsection \<open>An in-memory server\<close>

datatype mval = MHash "(string \<times> string) list" | MZSet "(string \<times> int) list"

text \<open>Each key with its value and its deadline, an earlier entry shadows a later one.\<close>

type_synonym mem = "(string \<times> mval \<times> int option) list"

definition mval_abs :: "mval \<Rightarrow> rval" where
  "mval_abs v = (case v of MHash h \<Rightarrow> RHash (map_of h) | MZSet z \<Rightarrow> RZSet (map_of z))"

definition mem_abs :: "mem \<Rightarrow> rdb" where
  "mem_abs m =
     \<lparr>keyspace = (\<lambda>k. map_option (\<lambda>(v, d). mval_abs v) (map_of m k)),
      deadline = (\<lambda>k. Option.bind (map_of m k) snd)\<rparr>"

definition mem_purge :: "int \<Rightarrow> mem \<Rightarrow> mem" where
  "mem_purge now m =
     filter (\<lambda>(k, v, d). case d of Some t \<Rightarrow> \<not> t \<le> now | None \<Rightarrow> True) (AList.clearjunk m)"

definition mem_put :: "string \<Rightarrow> mval \<Rightarrow> mem \<Rightarrow> mem" where
  "mem_put k v m = (k, v, Option.bind (map_of m k) snd) # m"

definition mem_drop :: "string list \<Rightarrow> mem \<Rightarrow> mem" where
  "mem_drop ks m = filter (\<lambda>p. fst p \<notin> set ks) m"

definition mem_hash :: "mem \<Rightarrow> string \<Rightarrow> (string \<times> string) list option" where
  "mem_hash m k = (case map_of m k of None \<Rightarrow> Some [] | Some (MHash h, _) \<Rightarrow> Some h | Some (MZSet _, _) \<Rightarrow> None)"

definition mem_zset :: "mem \<Rightarrow> string \<Rightarrow> (string \<times> int) list option" where
  "mem_zset m k = (case map_of m k of None \<Rightarrow> Some [] | Some (MZSet z, _) \<Rightarrow> Some z | Some (MHash _, _) \<Rightarrow> None)"

definition or_err :: "mem \<Rightarrow> (mem \<times> reply) option \<Rightarrow> mem \<times> (redis_error + reply)" where
  "or_err m x = (case x of Some (m', rep) \<Rightarrow> (m', Inr rep) | None \<Rightarrow> (m, Inl OtherErr))"

fun mem_cmd :: "int \<Rightarrow> redis_cmd \<Rightarrow> mem \<Rightarrow> (mem \<times> reply) option" where
  "mem_cmd now (HSet k fs) m = map_option (\<lambda>h. (mem_put k (MHash (rev fs @ h)) m, RInt 0)) (mem_hash m k)"
| "mem_cmd now (HIncrBy k f n) m =
     Option.bind (mem_hash m k) (\<lambda>h.
     Option.bind (case map_of h f of None \<Rightarrow> Some 0 | Some v \<Rightarrow> parse_i64 v) (\<lambda>i.
       if - (2 ^ 63) \<le> i + n \<and> i + n < 2 ^ 63
       then Some (mem_put k (MHash ((f, show_int (i + n)) # h)) m, RInt (i + n)) else None))"
| "mem_cmd now (HGetAll k) m = map_option (\<lambda>h. (m, RPairs (AList.clearjunk h))) (mem_hash m k)"
| "mem_cmd now (Exists k) m = Some (m, RInt (if map_of m k = None then 0 else 1))"
| "mem_cmd now (Expire k s) m =
     Some (case map_of m k of
             None \<Rightarrow> m
           | Some (v, d) \<Rightarrow> if s \<le> 0 then mem_drop [k] m else (k, v, Some (now + s)) # m, RInt 0)"
| "mem_cmd now (Del ks) m = Some (mem_drop ks m, RInt 0)"
| "mem_cmd now (ZAdd k x s) m = map_option (\<lambda>z. (mem_put k (MZSet ((x, s) # z)) m, RInt 0)) (mem_zset m k)"
| "mem_cmd now (ZRem k x) m =
     map_option (\<lambda>z. (if map_of z x = None then m
       else if filter (\<lambda>p. fst p \<noteq> x) z = [] then mem_drop [k] m
       else mem_put k (MZSet (filter (\<lambda>p. fst p \<noteq> x) z)) m, RInt 0)) (mem_zset m k)"
| "mem_cmd now (ZRangeAll k) m = map_option (\<lambda>z. (m, RStrs (remdups (map fst z)))) (mem_zset m k)"
| "mem_cmd now (Keys p) m = Some (m, RStrs (filter (glob p) (remdups (map fst m))))"
| "mem_cmd now Ping m = Some (m, RStr ''PONG'')"

text \<open>The server, up or down as a whole.\<close>

definition mem_redis :: "bool \<Rightarrow> mem redis" where
  "mem_redis up =
     \<lparr>rexec = (\<lambda>c now cmd m.
        if up then or_err (mem_purge now m) (mem_cmd now cmd (mem_purge now m))
        else (mem_purge now m, Inl ConnDown)),
      rconnect = (\<lambda>_. up)\<rparr>"

lemma map_of_filter_dist:
  "distinct (map fst m) \<Longrightarrow> map_of (filter (\<lambda>(k, x). P k x) m) k = (case map_of m k of Some x \<Rightarrow> if P k x then Some x else None | None \<Rightarrow> None)"
  by (induction m) (auto split: option.splits simp: rev_image_eqI map_of_eq_None_iff)

lemma mem_abs_purge: "mem_abs (mem_purge now m) = purge now (mem_abs m)"
proof -
  have "map_of (mem_purge now m) k =
      (case map_of m k of Some (v, d) \<Rightarrow> (case d of Some t \<Rightarrow> if t \<le> now then None else Some (v, d) | None \<Rightarrow> Some (v, d)) | None \<Rightarrow> None)" for k
    using map_of_filter_dist [OF distinct_clearjunk [of m], of "\<lambda>k (v, d). case d of Some t \<Rightarrow> \<not> t \<le> now | None \<Rightarrow> True" k]
    by (auto simp: mem_purge_def map_of_clearjunk case_prod_unfold split: option.splits)
  then show ?thesis
    by (auto simp: mem_abs_def purge_def Let_def fun_eq_iff split: option.splits)
qed

lemma mem_abs_put: "mem_abs (mem_put k v m) = put_key k (mval_abs v) (mem_abs m)"
  by (auto simp: mem_abs_def mem_put_def put_key_def fun_eq_iff)

lemma mem_abs_drop: "mem_abs (mem_drop ks m) = drop_keys (set ks) (mem_abs m)"
proof -
  have "map_of (mem_drop ks m) k = (if k \<in> set ks then None else map_of m k)" for k
    by (induction m) (auto simp: mem_drop_def)
  then show ?thesis by (auto simp: mem_abs_def drop_keys_def fun_eq_iff)
qed

lemma mem_hash_abs: "hash_at (mem_abs m) k = map_option map_of (mem_hash m k)"
  by (auto simp: hash_at_def mem_abs_def mem_hash_def mval_abs_def split: option.splits mval.splits)

lemma mem_zset_abs: "zset_at (mem_abs m) k = map_option map_of (mem_zset m k)"
  by (auto simp: zset_at_def mem_abs_def mem_zset_def mval_abs_def split: option.splits mval.splits)

lemma map_of_filter_other: "map_of (filter (\<lambda>p. fst p \<noteq> x) z) = (map_of z)(x := None)"
  by (induction z) auto

lemma map_of_prepend: "map_of (rev fs @ h) = map_of h ++ map_of (rev fs)"
  by (rule map_of_append)

lemma mem_cmd_sem:
  "case mem_cmd now cmd m of
     Some (m', rep) \<Rightarrow> redis_sem now cmd (mem_abs m) = Some (mem_abs m') \<and> redis_reply cmd (mem_abs m) rep
   | None \<Rightarrow> True"
proof (cases cmd)
  case (HSet k fs)
  then show ?thesis
    by (cases "mem_hash m k") (simp_all add: mem_hash_abs mem_abs_put mval_abs_def)
next
  case (HIncrBy k f n)
  then show ?thesis
    by (cases "mem_hash m k")
      (auto simp: mem_hash_abs mem_abs_put mval_abs_def int_field_def split: option.splits bind_splits if_splits)
next
  case (HGetAll k)
  then show ?thesis
    by (cases "mem_hash m k") (simp_all add: mem_hash_abs map_of_clearjunk distinct_clearjunk)
next
  case (Exists k)
  then show ?thesis by (simp add: mem_abs_def)
next
  case (Expire k s)
  have "keyspace (mem_abs m) k = None \<longleftrightarrow> map_of m k = None" by (simp add: mem_abs_def)
  moreover have "mem_abs ((k, v, Some t) # m) = (mem_abs m)\<lparr>deadline := (deadline (mem_abs m))(k \<mapsto> t)\<rparr>"
    if "map_of m k = Some (v, d)" for v d t using that by (auto simp: mem_abs_def fun_eq_iff)
  ultimately show ?thesis using Expire
    by (cases "map_of m k") (auto simp: mem_abs_drop)
next
  case (Del ks)
  then show ?thesis by (simp add: mem_abs_drop)
next
  case (ZAdd k x s)
  then show ?thesis by (cases "mem_zset m k") (simp_all add: mem_zset_abs mem_abs_put mval_abs_def)
next
  case (ZRem k x)
  have "filter (\<lambda>p. fst p \<noteq> x) z = [] \<longleftrightarrow> (map_of z)(x := None) = Map.empty" for z :: "(string \<times> int) list"
    by (metis map_of_eq_empty_iff map_of_filter_other)
  then show ?thesis using ZRem
    by (cases "mem_zset m k") (auto simp: mem_zset_abs mem_abs_put mem_abs_drop mval_abs_def map_of_filter_other)
next
  case (ZRangeAll k)
  then show ?thesis by (cases "mem_zset m k") (simp_all add: mem_zset_abs dom_map_of_conv_image_fst)
next
  case (Keys p)
  have "dom (keyspace (mem_abs m)) = fst ` set m"
    using dom_map_of_conv_image_fst [of m] by (simp add: mem_abs_def dom_map_option_comp [unfolded comp_def])
  with Keys show ?thesis by auto
next
  case Ping
  then show ?thesis by simp
qed

lemma mem_redis_laws: "redis_laws (mem_redis up) mem_abs"
  unfolding redis_laws_def
proof (intro allI)
  fix c now cmd m
  show "case rexec (mem_redis up) c now cmd m of
      (m', Inr rep) \<Rightarrow> redis_sem now cmd (purge now (mem_abs m)) = Some (mem_abs m') \<and>
        redis_reply cmd (purge now (mem_abs m)) rep
    | (m', Inl e) \<Rightarrow> mem_abs m' = purge now (mem_abs m) \<or> redis_sem now cmd (purge now (mem_abs m)) = Some (mem_abs m')"
    using mem_cmd_sem [of now cmd "mem_purge now m"]
    by (auto simp: mem_redis_def or_err_def mem_abs_purge split: option.splits)
qed

end
