(* ===== verification/Index.thy ===== *)
theory Index
  imports Proc Redis
begin

text \<open>
  \<open>crates/memoryd/src/index.rs\<close>: the session index in Redis. Every operation runs on the pooled
  connection of the parameter \<open>'r redis\<close>; the clock reading is an argument, \<open>now\<close> in seconds
  (\<open>timestamp()\<close>) and \<open>stamp\<close> as the RFC 3339 text. Messages of errors are left out.
\<close>

datatype index_err = RedisErr | Missing string

definition session_key :: "string \<Rightarrow> string" where
  "session_key sid = ''session:'' @ sid"

definition owner_sessions_key :: "string \<Rightarrow> string" where
  "owner_sessions_key owner = ''owner:'' @ owner @ '':sessions''"

record session_snapshot =
  sn_owner :: "string option"
  sn_created_at :: "string option"
  sn_last_turn_id :: "u64 option"
  sn_event_count :: "u64 option"
  sn_tip_hash :: "string option"
  sn_epoch :: "u64 option"
  sn_summary_ptr :: "string option"
  sn_live_pod :: "string option"
  sn_content_hash :: "string option"
  sn_updated_at :: "string option"
  sn_seq :: "u64 option"

subsection \<open>Commands\<close>

definition icmd :: "'r redis \<Rightarrow> int \<Rightarrow> redis_cmd \<Rightarrow> ('r, index_err, reply) proc" where
  "icmd R now cmd = (\<lambda>r. case rexec R Pooled now cmd r of (r', res) \<Rightarrow> Some (r', map_err (\<lambda>_. RedisErr) res))"

text \<open>A command whose reply is read as an integer, as pairs or as strings.\<close>

definition icmd_as :: "(reply \<Rightarrow> redis_error + 'a) \<Rightarrow> 'r redis \<Rightarrow> int \<Rightarrow> redis_cmd \<Rightarrow> ('r, index_err, 'a) proc" where
  "icmd_as f R now cmd = pbind (icmd R now cmd) (\<lambda>rep. pof (map_err (\<lambda>_. RedisErr) (f rep)))"

definition index_ping :: "'r redis \<Rightarrow> int \<Rightarrow> ('r, index_err, unit) proc" where
  "index_ping R now = (\<lambda>r.
     if \<not> rconnect R r then Some (r, Inl RedisErr)
     else (case rexec R Fresh now Ping r of
             (r', res) \<Rightarrow> Some (r', map_err (\<lambda>_. RedisErr) (rbind (rbind res reply_str) (\<lambda>_. Inr ())))))"

subsection \<open>Operations\<close>

definition create_session :: "'r redis \<Rightarrow> int \<Rightarrow> string \<Rightarrow> string \<Rightarrow> string \<Rightarrow> ('r, index_err, unit) proc" where
  "create_session R ts sid owner now =
     pbind (icmd R ts (HSet (session_key sid)
       [(''owner'', owner), (''created_at'', now), (''last_turn_id'', ''0''), (''event_count'', ''0''),
        (''epoch'', ''0''), (''updated_at'', now)])) (\<lambda>_.
     pbind (icmd_as reply_int R ts (ZAdd (owner_sessions_key owner) sid ts)) (\<lambda>_.
     pret ()))"

definition snapshot_of :: "(string \<rightharpoonup> string) \<Rightarrow> session_snapshot" where
  "snapshot_of m =
     \<lparr>sn_owner = m ''owner'',
      sn_created_at = m ''created_at'',
      sn_last_turn_id = Option.bind (m ''last_turn_id'') parse_u64,
      sn_event_count = Option.bind (m ''event_count'') parse_u64,
      sn_tip_hash = m ''tip_hash'',
      sn_epoch = Option.bind (m ''epoch'') parse_u64,
      sn_summary_ptr = m ''summary_ptr'',
      sn_live_pod = m ''live_pod'',
      sn_content_hash = m ''content_hash'',
      sn_updated_at = m ''updated_at'',
      sn_seq = Option.bind (m ''seq'') parse_u64\<rparr>"

definition snapshot :: "'r redis \<Rightarrow> int \<Rightarrow> string \<Rightarrow> ('r, index_err, session_snapshot) proc" where
  "snapshot R ts sid =
     pbind (icmd_as reply_int R ts (Exists (session_key sid))) (\<lambda>n.
     if n = 0 then perr (Missing sid)
     else pbind (icmd_as reply_pairs R ts (HGetAll (session_key sid))) (\<lambda>fields.
       pret (snapshot_of (map_of (rev fields)))))"

definition advance :: "'r redis \<Rightarrow> int \<Rightarrow> string \<Rightarrow> string \<Rightarrow> string \<Rightarrow> u64 \<Rightarrow> u64 \<Rightarrow> ('r, index_err, unit) proc" where
  "advance R ts stamp sid hash turn_id seq =
     pbind (icmd R ts (HSet (session_key sid)
       [(''tip_hash'', hash), (''last_turn_id'', show_u64 turn_id), (''seq'', show_u64 seq),
        (''updated_at'', stamp)])) (\<lambda>_.
     pbind (icmd_as reply_int R ts (HIncrBy (session_key sid) ''event_count'' 1)) (\<lambda>_.
     pret ()))"

definition heal ::
    "'r redis \<Rightarrow> int \<Rightarrow> string \<Rightarrow> string \<Rightarrow> string \<Rightarrow> u64 \<Rightarrow> u64 \<Rightarrow> u64 \<Rightarrow> string option \<Rightarrow> ('r, index_err, unit) proc" where
  "heal R ts stamp sid tip last_turn event_count seq owner =
     (let fields = [(''tip_hash'', tip), (''last_turn_id'', show_u64 last_turn),
                    (''event_count'', show_u64 event_count), (''seq'', show_u64 seq), (''updated_at'', stamp)] @
                   (case owner of Some ow \<Rightarrow> [(''owner'', ow), (''created_at'', stamp)] | None \<Rightarrow> []) in
      pbind (icmd R ts (HSet (session_key sid) fields)) (\<lambda>_.
      case owner of
        Some ow \<Rightarrow> pbind (icmd_as reply_int R ts (ZAdd (owner_sessions_key ow) sid ts)) (\<lambda>_. pret ())
      | None \<Rightarrow> pret ()))"

definition advance_epoch :: "'r redis \<Rightarrow> int \<Rightarrow> string \<Rightarrow> string \<Rightarrow> u64 \<Rightarrow> ('r, index_err, unit) proc" where
  "advance_epoch R ts sid hash epoch =
     pbind (icmd R ts (HSet (session_key sid) [(''summary_ptr'', hash), (''epoch'', show_u64 epoch)])) (\<lambda>_.
     pret ())"

definition delete_index :: "'r redis \<Rightarrow> int \<Rightarrow> string \<Rightarrow> string option \<Rightarrow> ('r, index_err, unit) proc" where
  "delete_index R ts sid owner =
     pbind (icmd_as reply_int R ts (Del [session_key sid])) (\<lambda>_.
     case owner of
       Some ow \<Rightarrow> pbind (icmd_as reply_int R ts (ZRem (owner_sessions_key ow) sid)) (\<lambda>_. pret ())
     | None \<Rightarrow> pret ())"

definition wipe :: "'r redis \<Rightarrow> int \<Rightarrow> ('r, index_err, unit) proc" where
  "wipe R ts =
     pbind (icmd_as reply_strs R ts (Keys ''session:*'')) (\<lambda>keys.
     pbind (if keys \<noteq> [] then pbind (icmd_as reply_int R ts (Del keys)) (\<lambda>_. pret ()) else pret ()) (\<lambda>_.
     pbind (icmd_as reply_strs R ts (Keys ''owner:*:sessions'')) (\<lambda>owners.
     if owners \<noteq> [] then pbind (icmd_as reply_int R ts (Del owners)) (\<lambda>_. pret ()) else pret ())))"

subsection \<open>What the operations do to the keyspace\<close>

lemma hoare_icmd:
  assumes "redis_laws R db"
  shows "hoare (\<lambda>r. purge ts (db r) = d) (icmd R ts cmd)
    (\<lambda>res r. case res of
       Inr rep \<Rightarrow> redis_sem ts cmd d = Some (db r) \<and> redis_reply cmd d rep
     | Inl e \<Rightarrow> e = RedisErr \<and> (db r = d \<or> redis_sem ts cmd d = Some (db r)))"
proof (rule hoareI)
  fix r assume d: "purge ts (db r) = d"
  obtain r' res where x: "rexec R Pooled ts cmd r = (r', res)" by fastforce
  show "\<exists>r' res. icmd R ts cmd r = Some (r', res) \<and> (case res of
       Inr rep \<Rightarrow> redis_sem ts cmd d = Some (db r') \<and> redis_reply cmd d rep
     | Inl e \<Rightarrow> e = RedisErr \<and> (db r' = d \<or> redis_sem ts cmd d = Some (db r')))"
  proof (cases res)
    case (Inl e)
    with x rexec_err [OF assms, of Pooled ts cmd r r' e] d show ?thesis by (simp add: icmd_def)
  next
    case (Inr rep)
    with x rexec_ok [OF assms, of Pooled ts cmd r r' rep] d show ?thesis by (simp add: icmd_def)
  qed
qed

lemma hoare_icmd_as:
  assumes "redis_laws R db"
  shows "hoare (\<lambda>r. purge ts (db r) = d) (icmd_as f R ts cmd)
    (\<lambda>res r. case res of
       Inr x \<Rightarrow> redis_sem ts cmd d = Some (db r) \<and> (\<exists>rep. redis_reply cmd d rep \<and> f rep = Inr x)
     | Inl e \<Rightarrow> e = RedisErr \<and> (db r = d \<or> redis_sem ts cmd d = Some (db r)))"
  unfolding icmd_as_def
  by (rule hoare_pbind [OF hoare_icmd [OF assms]])
    (auto intro!: hoare_pof simp: map_err_def split: sum.splits)

text \<open>After a command the keyspace is already purged of what had run out before it.\<close>

lemma purge_sem_stable:
  assumes "redis_sem ts cmd (purge ts d) = Some d'" and "\<And>k s. cmd \<noteq> Expire k s"
  shows "purge ts d' = d'"
proof -
  have fix_point: "purge ts x = x" if "\<And>k t. deadline x k = Some t \<Longrightarrow> \<not> t \<le> ts" for x
  proof -
    have "(case deadline x k of Some t \<Rightarrow> t \<le> ts | None \<Rightarrow> False) = False" for k using that by (auto split: option.splits)
    then show ?thesis by (simp add: purge_def)
  qed
  have dl: "deadline (purge ts d) k = Some t \<Longrightarrow> \<not> t \<le> ts" for k t
    by (auto simp: purge_def Let_def split: if_splits option.splits)
  have "deadline d' k = Some t \<Longrightarrow> deadline (purge ts d) k = Some t" for k t
    using assms
    by (cases cmd) (auto simp: put_key_def drop_keys_def split: option.splits if_splits bind_splits)
  then show ?thesis using dl by (blast intro: fix_point)
qed

lemma map_of_rev_distinct_keys: "distinct (map fst xs) \<Longrightarrow> map_of (rev xs) = map_of xs"
  by (rule map_of_inject_set [THEN iffD2]) (simp_all add: rev_map [symmetric])

lemma pbind_Inr:
  "pbind m f s = Some (s', Inr b) \<longleftrightarrow> (\<exists>s1 a. m s = Some (s1, Inr a) \<and> f a s1 = Some (s', Inr b))"
  by (auto simp: pbind_def split: option.splits sum.splits)

lemma icmd_Inr:
  assumes "redis_laws R db" and "icmd R ts cmd r = Some (r', Inr rep)"
  shows "redis_sem ts cmd (purge ts (db r)) = Some (db r')" "redis_reply cmd (purge ts (db r)) rep"
  using hoareD [OF hoare_icmd [OF assms(1)] refl assms(2)] by simp_all

lemma icmd_as_Inr:
  assumes "redis_laws R db" and "icmd_as f R ts cmd r = Some (r', Inr x)"
  shows "redis_sem ts cmd (purge ts (db r)) = Some (db r')"
    "\<exists>rep. redis_reply cmd (purge ts (db r)) rep \<and> f rep = Inr x"
  using hoareD [OF hoare_icmd_as [OF assms(1)] refl assms(2)] by simp_all

lemma icmd_hset_Inr:
  assumes "redis_laws R db" and "icmd R ts (HSet k fs) r = Some (r', Inr rep)"
  obtains h where "hash_at (purge ts (db r)) k = Some h" "db r' = put_key k (RHash (h ++ map_of (rev fs))) (purge ts (db r))"
    "purge ts (db r') = db r'"
  using icmd_Inr(1) [OF assms] purge_sem_stable [OF icmd_Inr(1) [OF assms]]
  by (cases "hash_at (purge ts (db r)) k") auto

lemma owner_not_session: "owner_sessions_key owner \<noteq> session_key sid"
  by (simp add: owner_sessions_key_def session_key_def)

text \<open>A snapshot reads the hash of the session; the session is missing exactly when it has none.\<close>

lemma snapshot_spec:
  assumes "redis_laws R db"
  shows "\<exists>r' res. snapshot R ts sid r = Some (r', res) \<and> db r' = purge ts (db r) \<and>
      (case res of
         Inr sn \<Rightarrow> \<exists>h. keyspace (purge ts (db r)) (session_key sid) = Some (RHash h) \<and> sn = snapshot_of h
       | Inl e \<Rightarrow> e = RedisErr \<or> e = Missing sid \<and> keyspace (purge ts (db r)) (session_key sid) = None)"
proof -
  let ?d = "purge ts (db r)" and ?k = "session_key sid"
  from hoareE [OF hoare_icmd_as [OF assms] refl] obtain r1 res1 where
    e1: "icmd_as reply_int R ts (Exists ?k) r = Some (r1, res1)"
      "case res1 of
         Inr x \<Rightarrow> redis_sem ts (Exists ?k) ?d = Some (db r1) \<and> (\<exists>rep. redis_reply (Exists ?k) ?d rep \<and> reply_int rep = Inr x)
       | Inl e \<Rightarrow> e = RedisErr \<and> (db r1 = ?d \<or> redis_sem ts (Exists ?k) ?d = Some (db r1))"
    by blast
  show ?thesis
  proof (cases res1)
    case (Inl e)
    with e1 show ?thesis by (auto simp: snapshot_def pbind_def)
  next
    case (Inr n)
    with e1(2) have d1: "db r1 = ?d" and n: "n = (if keyspace ?d ?k = None then 0 else 1)" by auto
    show ?thesis
    proof (cases "keyspace ?d ?k")
      case None
      with e1(1) Inr n d1 show ?thesis by (simp add: snapshot_def pbind_def)
    next
      case (Some v)
      from hoareE [OF hoare_icmd_as [OF assms] refl] obtain r2 res2 where
        e2: "icmd_as reply_pairs R ts (HGetAll ?k) r1 = Some (r2, res2)"
          "case res2 of
             Inr x \<Rightarrow> redis_sem ts (HGetAll ?k) (purge ts (db r1)) = Some (db r2) \<and>
               (\<exists>rep. redis_reply (HGetAll ?k) (purge ts (db r1)) rep \<and> reply_pairs rep = Inr x)
           | Inl e \<Rightarrow> e = RedisErr \<and> (db r2 = purge ts (db r1) \<or> redis_sem ts (HGetAll ?k) (purge ts (db r1)) = Some (db r2))"
        by blast
      have snap: "snapshot R ts sid r = pbind (\<lambda>_. Some (r2, res2)) (\<lambda>fs. pret (snapshot_of (map_of (rev fs)))) r1"
        using e1(1) Inr n Some e2(1) by (simp add: snapshot_def pbind_def)
      show ?thesis
      proof (cases res2)
        case (Inl e)
        with e2(2) d1 snap show ?thesis by (auto simp: pbind_def)
      next
        case (Inr fs)
        with e2(2) d1 have "db r2 = ?d" "distinct (map fst fs)" "Some (map_of fs) = hash_at ?d ?k" by auto
        with snap Inr Some show ?thesis
          by (auto simp: pbind_def map_of_rev_distinct_keys hash_at_def split: rval.splits)
      qed
    qed
  qed
qed

text \<open>Where the session key has no deadline, a later snapshot reads the hash of the keyspace.\<close>

lemma purge_no_deadline: "deadline d k = None \<Longrightarrow> keyspace (purge ts d) k = keyspace d k"
  by (simp add: purge_def)

lemma deadline_purge_None: "deadline d k = None \<Longrightarrow> deadline (purge ts d) k = None"
  by (simp add: purge_def)

lemma snapshot_reads:
  assumes "redis_laws R db" and "keyspace (db r) (session_key sid) = Some (RHash h)"
    and "deadline (db r) (session_key sid) = None" and "snapshot R ts sid r = Some (r', Inr sn)"
  shows "sn = snapshot_of h"
  using snapshot_spec [OF assms(1), of ts sid r] assms(2-) by (auto simp: purge_no_deadline)

lemma parse_u64_i64:
  assumes "parse_u64 v = Some n" and "uint n < 2 ^ 63"
  shows "parse_i64 v = Some (uint n)"
proof -
  from assms(1) obtain k where k: "parse_nat (drop_plus v) = Some k" "int k < 2 ^ 64" "n = word_of_nat k"
    by (auto simp: parse_u64_def split: option.splits if_splits)
  have "\<not> (v \<noteq> [] \<and> hd v = CHR ''-'')"
  proof
    assume "v \<noteq> [] \<and> hd v = CHR ''-''"
    then obtain w where "v = CHR ''-'' # w" by (cases v) auto
    with k(1) show False by (simp add: drop_plus_def parse_nat_def digit_val_def)
  qed
  moreover have "uint n = int k" using k(2,3) by (simp add: uint_nat unat_of_nat)
  ultimately show ?thesis using k(1) assms(2) by (auto simp: parse_i64_def)
qed

lemma show_int_u64: "uint n < 2 ^ 63 \<Longrightarrow> show_int (uint n + 1) = show_u64 (n + 1)"
proof -
  assume n: "uint n < 2 ^ 63"
  have "uint (n + 1) = uint n + 1" using n by (simp add: uint_word_ariths)
  then have "nat (uint n + 1) = unat (n + 1)" by (simp add: unat_eq_nat_uint)
  moreover have "\<not> uint n + 1 < 0" by (simp add: not_less)
  ultimately show ?thesis by (simp add: show_int_def show_u64_def)
qed

lemma advance_Inr:
  assumes "redis_laws R db" and "advance R ts stamp sid hash turn seq r = Some (r', Inr u)"
  obtains h c where "hash_at (purge ts (db r)) (session_key sid) = Some h" "int_field h ''event_count'' = Some c"
    "keyspace (db r') (session_key sid) = Some (RHash ((h ++ map_of [(''updated_at'', stamp), (''seq'', show_u64 seq),
       (''last_turn_id'', show_u64 turn), (''tip_hash'', hash)])(''event_count'' \<mapsto> show_int (c + 1))))"
    "deadline (db r') = deadline (purge ts (db r))"
proof -
  let ?k = "session_key sid"
  let ?fs = "[(''tip_hash'', hash), (''last_turn_id'', show_u64 turn), (''seq'', show_u64 seq), (''updated_at'', stamp)]"
  from assms(2) obtain r1 a b where c1: "icmd R ts (HSet ?k ?fs) r = Some (r1, Inr a)"
    and c2: "icmd_as reply_int R ts (HIncrBy ?k ''event_count'' 1) r1 = Some (r', Inr b)"
    by (auto simp: advance_def pbind_Inr)
  from icmd_hset_Inr [OF assms(1) c1] obtain h where
    h: "hash_at (purge ts (db r)) ?k = Some h" "db r1 = put_key ?k (RHash (h ++ map_of (rev ?fs))) (purge ts (db r))" "purge ts (db r1) = db r1" .
  from icmd_as_Inr(1) [OF assms(1) c2, unfolded h(3)] have
    "redis_sem ts (HIncrBy ?k ''event_count'' 1) (put_key ?k (RHash (h ++ map_of (rev ?fs))) (purge ts (db r))) = Some (db r')"
    by (simp add: h(2))
  moreover have "int_field (h ++ map_of (rev ?fs)) ''event_count'' = int_field h ''event_count''" by (simp add: int_field_def map_add_def)
  ultimately obtain c where c: "int_field h ''event_count'' = Some c"
    "db r' = put_key ?k (RHash ((h ++ map_of (rev ?fs))(''event_count'' \<mapsto> show_int (c + 1))))
        (put_key ?k (RHash (h ++ map_of (rev ?fs))) (purge ts (db r)))"
    by (auto split: bind_splits if_splits)
  show ?thesis
    by (rule that [OF h(1) c(1)]) (simp_all add: c(2))
qed

lemma delete_index_spec:
  assumes "redis_laws R db" and "delete_index R ts sid owner r = Some (r1, Inr u)"
  shows "snd (the (snapshot R ts' sid r1)) \<in> {Inl RedisErr, Inl (Missing sid)} \<and>
    (\<forall>ow z. owner = Some ow \<and> keyspace (db r1) (owner_sessions_key ow) = Some (RZSet z) \<longrightarrow> z sid = None)"
proof -
  let ?k = "session_key sid"
  from assms(2) obtain ra a where c1: "icmd_as reply_int R ts (Del [?k]) r = Some (ra, Inr a)"
    and c2: "(case owner of Some ow \<Rightarrow> pbind (icmd_as reply_int R ts (ZRem (owner_sessions_key ow) sid)) (\<lambda>_. pret ()) | None \<Rightarrow> pret ()) ra = Some (r1, Inr u)"
    unfolding delete_index_def pbind_Inr by blast
  from icmd_as_Inr(1) [OF assms(1) c1] have "db ra = drop_keys {?k} (purge ts (db r))" by simp
  then have gone: "keyspace (db ra) ?k = None" by simp
  have pur: "purge ts (db ra) = db ra" using purge_sem_stable [OF icmd_as_Inr(1) [OF assms(1) c1]] by simp
  have "keyspace (db r1) ?k = None \<and>
    (\<forall>ow z. owner = Some ow \<and> keyspace (db r1) (owner_sessions_key ow) = Some (RZSet z) \<longrightarrow> z sid = None)"
  proof (cases owner)
    case None
    with c2 gone show ?thesis by simp
  next
    case (Some ow)
    with c2 obtain b where "icmd_as reply_int R ts (ZRem (owner_sessions_key ow) sid) ra = Some (r1, Inr b)"
      by (auto simp: pbind_Inr)
    from icmd_as_Inr(1) [OF assms(1) this, unfolded pur] obtain z where z: "zset_at (db ra) (owner_sessions_key ow) = Some z"
      "db r1 = (if z sid = None then db ra else if z(sid := None) = Map.empty then drop_keys {owner_sessions_key ow} (db ra)
        else put_key (owner_sessions_key ow) (RZSet (z(sid := None))) (db ra))" by auto
    show ?thesis
    proof (cases "z sid")
      case None
      with z Some gone show ?thesis by (auto simp: zset_at_def)
    next
      case (Some t)
      with z \<open>owner = Some ow\<close> gone owner_not_session [of ow sid] show ?thesis by auto
    qed
  qed
  moreover have "keyspace (purge ts' (db r1)) ?k = None" if "keyspace (db r1) ?k = None" using that by (simp add: purge_def)
  moreover from snapshot_spec [OF assms(1), of ts' sid r1] obtain r2 res where
    "snapshot R ts' sid r1 = Some (r2, res)" "case res of
         Inr sn \<Rightarrow> \<exists>h. keyspace (purge ts' (db r1)) ?k = Some (RHash h) \<and> sn = snapshot_of h
       | Inl e \<Rightarrow> e = RedisErr \<or> e = Missing sid \<and> keyspace (purge ts' (db r1)) ?k = None" by blast
  ultimately show ?thesis by (cases res) auto
qed

subsection \<open>Properties\<close>

text \<open>
  The index follows an append: after \<open>advance\<close> reports success, every later successful
  snapshot of the session shows the hash, the turn and the sequence number that were written,
  the owner is what it was, and the event count is one higher than the one read before.
\<close>

theorem advance_then_snapshot:
  assumes "redis_laws R db" and "deadline (db r) (session_key sid) = None"
    and "snapshot R ts sid r = Some (r0, Inr old)" and "sn_event_count old = Some n" and "uint n < 2 ^ 63 - 1"
    and "advance R ts stamp sid hash turn seq r0 = Some (r1, Inr u)"
    and "snapshot R ts' sid r1 = Some (r2, Inr new)"
  shows "sn_tip_hash new = Some hash \<and> sn_last_turn_id new = Some turn \<and> sn_seq new = Some seq \<and>
    sn_updated_at new = Some stamp \<and> sn_event_count new = Some (n + 1) \<and> sn_owner new = sn_owner old"
proof -
  let ?k = "session_key sid"
  from snapshot_spec [OF assms(1), of ts sid r] assms(3) obtain h0 where d0: "db r0 = purge ts (db r)"
    and h0: "keyspace (purge ts (db r)) ?k = Some (RHash h0)" "old = snapshot_of h0" by auto
  from advance_Inr [OF assms(1,6)] obtain h c where
    h: "hash_at (purge ts (db r0)) ?k = Some h" "int_field h ''event_count'' = Some c"
      "keyspace (db r1) ?k = Some (RHash ((h ++ map_of [(''updated_at'', stamp), (''seq'', show_u64 seq),
         (''last_turn_id'', show_u64 turn), (''tip_hash'', hash)])(''event_count'' \<mapsto> show_int (c + 1))))"
      "deadline (db r1) = deadline (purge ts (db r0))" by metis
  from h(1) h0 d0 have [simp]: "h = h0" by (simp add: hash_at_def)
  from assms(4) h0(2) obtain v where v: "h0 ''event_count'' = Some v" "parse_u64 v = Some n"
    by (auto simp: snapshot_of_def bind_eq_Some_conv)
  with h(2) parse_u64_i64 [OF v(2)] assms(5) have "c = uint n" by (simp add: int_field_def)
  then have c: "show_int (c + 1) = show_u64 (n + 1)" using show_int_u64 assms(5) by simp
  have "deadline (db r1) ?k = None" using h(4) d0 assms(2) by (simp add: deadline_purge_None)
  from snapshot_reads [OF assms(1) h(3) this assms(7)] h0(2) c show ?thesis
    by (simp add: snapshot_of_def)
qed

text \<open>
  Healing restores the index from the log: after \<open>heal\<close> reports success, a later snapshot
  shows the tip, turn, count and sequence number given to it, and the owner when one was given.
\<close>

theorem heal_then_snapshot:
  assumes "redis_laws R db" and "deadline (db r) (session_key sid) = None"
    and "heal R ts stamp sid tip last_turn count seq owner r = Some (r1, Inr u)"
    and "snapshot R ts' sid r1 = Some (r2, Inr new)"
  shows "sn_tip_hash new = Some tip \<and> sn_last_turn_id new = Some last_turn \<and>
    sn_event_count new = Some count \<and> sn_seq new = Some seq \<and>
    (\<forall>ow. owner = Some ow \<longrightarrow> sn_owner new = Some ow)"
proof -
  let ?k = "session_key sid"
  let ?fs = "[(''tip_hash'', tip), (''last_turn_id'', show_u64 last_turn), (''event_count'', show_u64 count),
      (''seq'', show_u64 seq), (''updated_at'', stamp)] @
      (case owner of Some ow \<Rightarrow> [(''owner'', ow), (''created_at'', stamp)] | None \<Rightarrow> [])"
  from assms(3) obtain ra a where c1: "icmd R ts (HSet ?k ?fs) r = Some (ra, Inr a)"
    and c2: "(case owner of Some ow \<Rightarrow> pbind (icmd_as reply_int R ts (ZAdd (owner_sessions_key ow) sid ts)) (\<lambda>_. pret ()) | None \<Rightarrow> pret ()) ra = Some (r1, Inr u)"
    unfolding heal_def Let_def pbind_Inr by blast
  from icmd_hset_Inr [OF assms(1) c1] obtain h where
    h: "db ra = put_key ?k (RHash (h ++ map_of (rev ?fs))) (purge ts (db r))" "purge ts (db ra) = db ra" .
  have "keyspace (db r1) ?k = Some (RHash (h ++ map_of (rev ?fs))) \<and> deadline (db r1) ?k = None"
  proof (cases owner)
    case None
    with c2 h(1) assms(2) show ?thesis by (simp add: deadline_purge_None)
  next
    case (Some ow)
    with c2 obtain b where "icmd_as reply_int R ts (ZAdd (owner_sessions_key ow) sid ts) ra = Some (r1, Inr b)"
      by (auto simp: pbind_Inr)
    from icmd_as_Inr(1) [OF assms(1) this, unfolded h(2)] have
      "map_option (\<lambda>z. put_key (owner_sessions_key ow) (RZSet (z(sid \<mapsto> ts))) (db ra)) (zset_at (db ra) (owner_sessions_key ow)) = Some (db r1)"
      by simp
    then obtain z where "put_key (owner_sessions_key ow) (RZSet (z(sid \<mapsto> ts))) (db ra) = db r1"
      unfolding map_option_eq_Some by blast
    then have "db r1 = put_key (owner_sessions_key ow) (RZSet (z(sid \<mapsto> ts))) (db ra)" by (rule sym)
    with h(1) assms(2) owner_not_session [of ow sid] show ?thesis by (auto simp: deadline_purge_None)
  qed
  with snapshot_reads [OF assms(1) _ _ assms(4)] have "new = snapshot_of (h ++ map_of (rev ?fs))" by blast
  then show ?thesis by (cases owner) (simp_all add: snapshot_of_def map_add_def)
qed

text \<open>
  Deletion from the index: after it reports success no snapshot of the session succeeds,
  and when the owner was given the session is gone from that owner's sorted set.
\<close>

theorem delete_index_forgets:
  assumes "redis_laws R db" and "delete_index R ts sid owner r = Some (r1, Inr u)"
  shows "snd (the (snapshot R ts' sid r1)) \<in> {Inl RedisErr, Inl (Missing sid)} \<and>
    (\<forall>ow z. owner = Some ow \<and> keyspace (db r1) (owner_sessions_key ow) = Some (RZSet z) \<longrightarrow> z sid = None)"
  by (rule delete_index_spec [OF assms])

subsection \<open>Witnesses\<close>

text \<open>A session created in an empty server, and the server after an append of turn 3.\<close>

definition db0 :: mem where
  "db0 = fst (the (create_session (mem_redis True) 1 ''s1'' ''alice'' ''t0'' []))"

definition db1 :: mem where
  "db1 = fst (the (snapshot (mem_redis True) 1 ''s1'' db0))"

definition db2 :: mem where
  "db2 = fst (the (advance (mem_redis True) 1 ''t1'' ''s1'' ''h1'' 3 1 db1))"

definition snap0 :: session_snapshot where
  "snap0 = projr (snd (the (snapshot (mem_redis True) 1 ''s1'' db0)))"

definition snap2 :: session_snapshot where
  "snap2 = projr (snd (the (snapshot (mem_redis True) 2 ''s1'' db2)))"

lemma db0_no_deadline: "map_of db0 (session_key ''s1'') = Some (v, d) \<Longrightarrow> d = None"
proof -
  assume "map_of db0 (session_key ''s1'') = Some (v, d)"
  moreover have "map_option snd (map_of db0 (session_key ''s1'')) = Some None" by code_simp
  ultimately show ?thesis by simp
qed

lemma advance_then_snapshot_witness:
  "sn_tip_hash snap2 = Some ''h1'' \<and> sn_last_turn_id snap2 = Some 3 \<and> sn_seq snap2 = Some 1 \<and>
    sn_updated_at snap2 = Some ''t1'' \<and> sn_event_count snap2 = Some (0 + 1) \<and> sn_owner snap2 = sn_owner snap0"
proof (rule advance_then_snapshot [OF mem_redis_laws])
  show "deadline (mem_abs db0) (session_key ''s1'') = None"
    using db0_no_deadline by (auto simp: mem_abs_def split: bind_splits)
  show "snapshot (mem_redis True) 1 ''s1'' db0 = Some (db1, Inr snap0)" by code_simp
  show "sn_event_count snap0 = Some 0" by code_simp
  show "uint (0 :: u64) < 2 ^ 63 - 1" by simp
  show "advance (mem_redis True) 1 ''t1'' ''s1'' ''h1'' 3 1 db1 = Some (db2, Inr ())" by code_simp
  show "snapshot (mem_redis True) 2 ''s1'' db2 = Some (fst (the (snapshot (mem_redis True) 2 ''s1'' db2)), Inr snap2)"
    by code_simp
qed

lemma heal_then_snapshot_witness:
  "sn_tip_hash (projr (snd (the (snapshot (mem_redis True) 2 ''s1'' (fst (the (heal (mem_redis True) 1 ''t'' ''s1'' ''h'' 2 2 2 None db0))))))) = Some ''h''"
  (is "sn_tip_hash (projr (snd (the (snapshot _ _ _ (fst (the ?heal)))))) = _")
proof -
  have 1: "deadline (mem_abs db0) (session_key ''s1'') = None"
    using db0_no_deadline by (auto simp: mem_abs_def split: bind_splits)
  have 2: "?heal = Some (fst (the ?heal), Inr ())" by code_simp
  let ?sn = "snapshot (mem_redis True) 2 ''s1'' (fst (the ?heal))"
  have 3: "?sn = Some (fst (the ?sn), Inr (projr (snd (the ?sn))))" by code_simp
  from heal_then_snapshot [OF mem_redis_laws 1 2 3] show ?thesis by simp
qed

lemma delete_index_forgets_witness:
  "snd (the (snapshot (mem_redis True) 2 ''s1'' (fst (the (delete_index (mem_redis True) 1 ''s1'' None db0))))) \<in> {Inl RedisErr, Inl (Missing ''s1'')}"
proof -
  have "delete_index (mem_redis True) 1 ''s1'' None db0 =
      Some (fst (the (delete_index (mem_redis True) 1 ''s1'' None db0)), Inr ())" by code_simp
  from delete_index_forgets [OF mem_redis_laws this] show ?thesis by simp
qed

end
