(* ===== verification/Store.thy ===== *)
theory Store
  imports Proc Codec Decimal
begin

text \<open>
  \<open>crates/memoryd/src/store.rs\<close>: the object store client. The S3 service behind the SDK is a
  parameter \<open>'s s3\<close>; what the code relies on is \<open>s3_laws\<close>, over the objects the service holds
  as an ordered map from keys to bytes. Messages of errors are left out.
\<close>

subsection \<open>The service\<close>

datatype get_result = GetErr | BodyErr | Got bytes

text \<open>One page of a listing: the keys (an entry may lack one), the flag and the token.\<close>

record page =
  pg_keys :: "string option list"
  pg_truncated :: "bool option"
  pg_next :: "string option"

datatype sign_op = SignGet | SignPut

record 's s3 =
  s3_put :: "string \<Rightarrow> bytes \<Rightarrow> 's \<Rightarrow> 's \<times> bool"
  s3_get :: "string \<Rightarrow> 's \<Rightarrow> 's \<times> get_result"
  s3_list :: "string \<Rightarrow> string option \<Rightarrow> 's \<Rightarrow> 's \<times> page option"
  s3_delete :: "string \<Rightarrow> 's \<Rightarrow> 's \<times> bool"
  s3_presign :: "sign_op \<Rightarrow> string \<Rightarrow> nat \<Rightarrow> string option"

datatype store_err = Io | NotFoundKey string | Sign

definition retryable :: "store_err \<Rightarrow> bool" where
  "retryable e = (case e of Io \<Rightarrow> True | _ \<Rightarrow> False)"

subsection \<open>Keys\<close>

definition EVENTS_PREFIX :: string where "EVENTS_PREFIX = ''events''"
definition ARTIFACT_TRANSCRIPT :: string where "ARTIFACT_TRANSCRIPT = ''transcript.md''"
definition ARTIFACT_MEMORY :: string where "ARTIFACT_MEMORY = ''memory.md''"

definition session_prefix :: "string \<Rightarrow> string" where
  "session_prefix sid = ''sessions/'' @ sid @ ''/''"

definition events_prefix :: "string \<Rightarrow> string" where
  "events_prefix sid = ''sessions/'' @ sid @ ''/'' @ EVENTS_PREFIX @ ''/''"

definition ev_key :: "string \<Rightarrow> u64 \<Rightarrow> string" where
  "ev_key sid seq = ''sessions/'' @ sid @ ''/'' @ EVENTS_PREFIX @ ''/'' @ pad12 (show_u64 seq) @ ''.jsonl''"

definition art_key :: "string \<Rightarrow> string \<Rightarrow> string" where
  "art_key sid name = ''sessions/'' @ sid @ ''/'' @ name"

text \<open>\<open>rsplit('/').next()\<close> and \<open>split('/').next()\<close>: the last and the first segment.\<close>

definition last_segment :: "string \<Rightarrow> string" where
  "last_segment k = rev (takeWhile (\<lambda>c. c \<noteq> CHR ''/'') (rev k))"

definition first_segment :: "string \<Rightarrow> string" where
  "first_segment k = takeWhile (\<lambda>c. c \<noteq> CHR ''/'') k"

subsection \<open>Highest sequence number\<close>

definition key_seq :: "string \<Rightarrow> u64 option" where
  "key_seq k = Option.bind (strip_suffix (last_segment k) ''.jsonl'') parse_u64"

definition seq_step :: "string option \<Rightarrow> u64 option \<Rightarrow> u64 option" where
  "seq_step ok m =
     (case Option.bind ok key_seq of
        None \<Rightarrow> m
      | Some seq \<Rightarrow> Some (case m of None \<Rightarrow> seq | Some x \<Rightarrow> max x seq))"

partial_function (option) max_seq_loop ::
    "'s s3 \<Rightarrow> string \<Rightarrow> u64 option \<Rightarrow> string option \<Rightarrow> 's \<Rightarrow> ('s \<times> (store_err + u64 option)) option" where
  "max_seq_loop S prefix m token s =
     (case s3_list S prefix token s of
        (s', None) \<Rightarrow> Some (s', Inl Io)
      | (s', Some pg) \<Rightarrow>
          (let m' = fold seq_step (pg_keys pg) m in
           if unwrap_or (pg_truncated pg) False then max_seq_loop S prefix m' (pg_next pg) s'
           else Some (s', Inr m')))"

declare max_seq_loop.simps [code]

definition max_seq :: "'s s3 \<Rightarrow> string \<Rightarrow> ('s, store_err, u64 option) proc" where
  "max_seq S sid = max_seq_loop S (events_prefix sid) None None"

subsection \<open>Appending and reading\<close>

definition put_object :: "'s s3 \<Rightarrow> string \<Rightarrow> bytes \<Rightarrow> ('s, store_err, unit) proc" where
  "put_object S key body = (\<lambda>s. case s3_put S key body s of (s', ok) \<Rightarrow> Some (s', if ok then Inr () else Inl Io))"

definition append_line :: "libs \<Rightarrow> 's s3 \<Rightarrow> string \<Rightarrow> json \<Rightarrow> ('s, store_err, u64) proc" where
  "append_line L S sid sealed =
     pbind (max_seq S sid) (\<lambda>m.
     let seq = (case m of Some s \<Rightarrow> s + 1 | None \<Rightarrow> 1) in
     pbind (pof (ok_or (to_vec L sealed) Io)) (\<lambda>body.
     pbind (put_object S (ev_key sid seq) body) (\<lambda>_. pret seq)))"

definition end_line :: "bytes \<Rightarrow> bytes" where
  "end_line out = (if out \<noteq> [] \<and> last out = CHR 0x0A then out else out @ [CHR 0x0A])"

text \<open>The loop over the sequence numbers of a range.\<close>

fun read_seqs :: "'s s3 \<Rightarrow> string \<Rightarrow> u64 list \<Rightarrow> bytes \<Rightarrow> ('s, store_err, bytes) proc" where
  "read_seqs S sid [] out s = Some (s, Inr out)"
| "read_seqs S sid (seq # seqs) out s =
     (case s3_get S (ev_key sid seq) s of
        (s', Got body) \<Rightarrow> read_seqs S sid seqs (end_line (out @ body)) s'
      | (s', BodyErr) \<Rightarrow> Some (s', Inl Io)
      | (s', GetErr) \<Rightarrow> Some (s', Inl (NotFoundKey (ev_key sid seq))))"

text \<open>\<open>from..=to\<close> on 64-bit numbers.\<close>

definition seq_range :: "u64 \<Rightarrow> u64 \<Rightarrow> u64 list" where
  "seq_range from to = map word_of_nat [unat from ..< unat to + 1]"

definition read_log :: "'s s3 \<Rightarrow> string \<Rightarrow> ('s, store_err, bytes) proc" where
  "read_log S sid =
     pbind (max_seq S sid) (\<lambda>m.
     case m of None \<Rightarrow> pret [] | Some mx \<Rightarrow> read_seqs S sid (seq_range 1 mx) [])"

definition read_log_after :: "'s s3 \<Rightarrow> string \<Rightarrow> u64 \<Rightarrow> ('s, store_err, bytes) proc" where
  "read_log_after S sid after_seq =
     pbind (max_seq S sid) (\<lambda>m.
     case m of None \<Rightarrow> pret [] | Some mx \<Rightarrow> read_seqs S sid (seq_range (after_seq + 1) mx) [])"

subsection \<open>Artifacts and signed URLs\<close>

definition put_artifact :: "'s s3 \<Rightarrow> string \<Rightarrow> string \<Rightarrow> bytes \<Rightarrow> ('s, store_err, unit) proc" where
  "put_artifact S sid name body = put_object S (art_key sid name) body"

definition get_artifact :: "'s s3 \<Rightarrow> string \<Rightarrow> string \<Rightarrow> ('s, store_err, bytes) proc" where
  "get_artifact S sid name = (\<lambda>s.
     case s3_get S (art_key sid name) s of
       (s', Got body) \<Rightarrow> Some (s', Inr body)
     | (s', BodyErr) \<Rightarrow> Some (s', Inl Io)
     | (s', GetErr) \<Rightarrow> Some (s', Inl (NotFoundKey (art_key sid name))))"

definition sign_get :: "'s s3 \<Rightarrow> string \<Rightarrow> nat \<Rightarrow> store_err + string" where
  "sign_get S key ttl = ok_or (s3_presign S SignGet key ttl) Sign"

definition sign_put :: "'s s3 \<Rightarrow> string \<Rightarrow> nat \<Rightarrow> store_err + string" where
  "sign_put S key ttl = ok_or (s3_presign S SignPut key ttl) Sign"

subsection \<open>Deletion and the session list\<close>

text \<open>The deletions of one page; the first failure ends them.\<close>

fun delete_keys :: "'s s3 \<Rightarrow> string list \<Rightarrow> u64 \<Rightarrow> 's \<Rightarrow> 's \<times> (store_err + u64)" where
  "delete_keys S [] deleted s = (s, Inr deleted)"
| "delete_keys S (k # ks) deleted s =
     (case s3_delete S k s of
        (s', True) \<Rightarrow> delete_keys S ks (deleted + 1) s'
      | (s', False) \<Rightarrow> (s', Inl Io))"

partial_function (option) delete_loop ::
    "'s s3 \<Rightarrow> string \<Rightarrow> u64 \<Rightarrow> string option \<Rightarrow> 's \<Rightarrow> ('s \<times> (store_err + u64)) option" where
  "delete_loop S prefix deleted token s =
     (case s3_list S prefix token s of
        (s', None) \<Rightarrow> Some (s', Inl Io)
      | (s', Some pg) \<Rightarrow>
          (case delete_keys S (List.map_filter id (pg_keys pg)) deleted s' of
             (s'', Inl e) \<Rightarrow> Some (s'', Inl e)
           | (s'', Inr d) \<Rightarrow>
               if unwrap_or (pg_truncated pg) False then delete_loop S prefix d (pg_next pg) s''
               else Some (s'', Inr d)))"

declare delete_loop.simps [code]

definition delete_prefix :: "'s s3 \<Rightarrow> string \<Rightarrow> ('s, store_err, u64) proc" where
  "delete_prefix S sid = delete_loop S (session_prefix sid) 0 None"

definition key_session :: "string \<Rightarrow> string option" where
  "key_session k =
     (let rest = unwrap_or (strip_prefix k ''sessions/'') k; sid = first_segment rest in
      if sid = [] then None else Some sid)"

partial_function (option) list_loop ::
    "'s s3 \<Rightarrow> string list \<Rightarrow> string option \<Rightarrow> 's \<Rightarrow> ('s \<times> (store_err + string list)) option" where
  "list_loop S sessions token s =
     (case s3_list S ''sessions/'' token s of
        (s', None) \<Rightarrow> Some (s', Inl Io)
      | (s', Some pg) \<Rightarrow>
          (let sessions' = sessions @ List.map_filter (\<lambda>ok. Option.bind ok key_session) (pg_keys pg) in
           if unwrap_or (pg_truncated pg) False then list_loop S sessions' (pg_next pg) s'
           else Some (s', Inr sessions')))"

declare list_loop.simps [code]

definition list_sessions :: "'s s3 \<Rightarrow> ('s, store_err, string list) proc" where
  "list_sessions S = pbind (list_loop S [] None) (\<lambda>sessions. pret (remdups_adj (sort sessions)))"

subsection \<open>What the code relies on\<close>

text \<open>
  The keys a listing has still to return: those with the prefix, after a position, in key order.
\<close>

definition rest_keys :: "(string \<times> bytes) list \<Rightarrow> string \<Rightarrow> string option \<Rightarrow> string list" where
  "rest_keys m prefix pos =
     filter (\<lambda>k. starts_with k prefix \<and> (case pos of None \<Rightarrow> True | Some p \<Rightarrow> p < k)) (map fst m)"

text \<open>
  The documented behaviour of the service, over \<open>objs\<close>, the objects it holds: a put or delete
  that succeeds has taken effect, one that fails may have; a get returns the stored bytes; a
  listing returns the keys in order, page by page, where a continuation token stands for the
  last key returned (\<open>after\<close>) and a truncated page is not empty.
\<close>

definition s3_laws :: "'s s3 \<Rightarrow> ('s \<Rightarrow> (string \<times> bytes) list) \<Rightarrow> (string \<Rightarrow> string) \<Rightarrow> bool" where
  "s3_laws S objs after \<longleftrightarrow>
     (\<forall>s. bt_ok (objs s)) \<and>
     (\<forall>k b s. case s3_put S k b s of (s', ok) \<Rightarrow>
        objs s' = bt_insert k b (objs s) \<or> \<not> ok \<and> objs s' = objs s) \<and>
     (\<forall>k s. case s3_get S k s of (s', res) \<Rightarrow>
        objs s' = objs s \<and> (case res of Got b \<Rightarrow> map_of (objs s) k = Some b | _ \<Rightarrow> True)) \<and>
     (\<forall>k s. case s3_delete S k s of (s', ok) \<Rightarrow>
        objs s' = bt_remove k (objs s) \<or> \<not> ok \<and> objs s' = objs s) \<and>
     (\<forall>prefix tok s. case s3_list S prefix tok s of (s', res) \<Rightarrow>
        objs s' = objs s \<and>
        (case res of None \<Rightarrow> True | Some pg \<Rightarrow>
          (let ks = rest_keys (objs s) prefix (map_option after tok) in
           \<exists>n. pg_keys pg = map Some (take n ks) \<and>
             unwrap_or (pg_truncated pg) False = (n < length ks) \<and>
             (n < length ks \<longrightarrow> 0 < n \<and> map_option after (pg_next pg) = Some (ks ! (n - 1))))))"

lemma s3_objs_ok: "s3_laws S objs after \<Longrightarrow> bt_ok (objs s)"
  unfolding s3_laws_def by blast

lemma s3_put_law:
  assumes "s3_laws S objs after" and "s3_put S k b s = (s', ok)"
  shows "objs s' = bt_insert k b (objs s) \<or> \<not> ok \<and> objs s' = objs s"
proof -
  have "case s3_put S k b s of (s', ok) \<Rightarrow> objs s' = bt_insert k b (objs s) \<or> \<not> ok \<and> objs s' = objs s"
    by (rule assms(1) [unfolded s3_laws_def, THEN conjunct2, THEN conjunct1, THEN spec, THEN spec, THEN spec])
  with assms(2) show ?thesis by simp
qed

lemma s3_get_law:
  assumes "s3_laws S objs after" and "s3_get S k s = (s', res)"
  shows "objs s' = objs s \<and> (case res of Got b \<Rightarrow> map_of (objs s) k = Some b | _ \<Rightarrow> True)"
proof -
  have "case s3_get S k s of (s', res) \<Rightarrow> objs s' = objs s \<and> (case res of Got b \<Rightarrow> map_of (objs s) k = Some b | _ \<Rightarrow> True)"
    by (rule assms(1) [unfolded s3_laws_def, THEN conjunct2, THEN conjunct2, THEN conjunct1, THEN spec, THEN spec])
  with assms(2) show ?thesis by simp
qed

lemma s3_delete_law:
  assumes "s3_laws S objs after" and "s3_delete S k s = (s', ok)"
  shows "objs s' = bt_remove k (objs s) \<or> \<not> ok \<and> objs s' = objs s"
proof -
  have "case s3_delete S k s of (s', ok) \<Rightarrow> objs s' = bt_remove k (objs s) \<or> \<not> ok \<and> objs s' = objs s"
    by (rule assms(1) [unfolded s3_laws_def, THEN conjunct2, THEN conjunct2, THEN conjunct2, THEN conjunct1, THEN spec, THEN spec])
  with assms(2) show ?thesis by simp
qed

lemma s3_list_law:
  assumes "s3_laws S objs after" and "s3_list S prefix tok s = (s', res)"
  shows "objs s' = objs s" and "res = Some pg \<Longrightarrow> ks = rest_keys (objs s) prefix (map_option after tok) \<Longrightarrow>
    \<exists>n. pg_keys pg = map Some (take n ks) \<and> unwrap_or (pg_truncated pg) False = (n < length ks) \<and>
      (n < length ks \<longrightarrow> 0 < n \<and> map_option after (pg_next pg) = Some (ks ! (n - 1)))"
proof -
  have "case s3_list S prefix tok s of (s', res) \<Rightarrow> objs s' = objs s \<and> (case res of None \<Rightarrow> True | Some pg \<Rightarrow>
      (let ks = rest_keys (objs s) prefix (map_option after tok) in
       \<exists>n. pg_keys pg = map Some (take n ks) \<and> unwrap_or (pg_truncated pg) False = (n < length ks) \<and>
         (n < length ks \<longrightarrow> 0 < n \<and> map_option after (pg_next pg) = Some (ks ! (n - 1)))))"
    by (rule assms(1) [unfolded s3_laws_def, THEN conjunct2, THEN conjunct2, THEN conjunct2, THEN conjunct2, THEN spec, THEN spec, THEN spec])
  note law = this [unfolded assms(2) case_prod_conv]
  from law show "objs s' = objs s" by blast
  show "\<exists>n. pg_keys pg = map Some (take n ks) \<and> unwrap_or (pg_truncated pg) False = (n < length ks) \<and>
      (n < length ks \<longrightarrow> 0 < n \<and> map_option after (pg_next pg) = Some (ks ! (n - 1)))"
    if "res = Some pg" "ks = rest_keys (objs s) prefix (map_option after tok)"
    using law that by (simp add: Let_def)
qed

subsection \<open>Listings end and are complete\<close>

lemma take_le:
  assumes "sorted_wrt (<) (ks :: string list)" and "0 < n" and "n \<le> length ks" and "k \<in> set (take n ks)"
  shows "k \<le> ks ! (n - 1)"
proof -
  from assms(3,4) obtain i where "i < n" "k = ks ! i" by (auto simp: in_set_conv_nth)
  with assms show ?thesis by (cases "i = n - 1") (auto dest!: sorted_wrt_nth_less [of _ _ i "n - 1"])
qed

lemma filter_beyond:
  "sorted_wrt (<) (ks :: string list) \<Longrightarrow> 0 < n \<Longrightarrow> n \<le> length ks \<Longrightarrow> filter (\<lambda>k. ks ! (n - 1) < k) ks = drop n ks"
proof -
  assume s: "sorted_wrt (<) ks" and n: "0 < n" "n \<le> length ks"
  have lo: "\<not> ks ! (n - 1) < k" if "k \<in> set (take n ks)" for k
    using take_le [OF s n that] by (simp add: not_less)
  have hi: "ks ! (n - 1) < k" if k: "k \<in> set (drop n ks)" for k
  proof -
    from k obtain i where i: "n + i < length ks" "k = ks ! (n + i)" using n by (force simp: in_set_conv_nth)
    with sorted_wrt_nth_less [OF s, of "n - 1" "n + i"] n show ?thesis by simp
  qed
  have "filter (\<lambda>k. ks ! (n - 1) < k) (take n ks @ drop n ks) = drop n ks"
    using lo hi by (simp only: filter_append) (auto simp: filter_empty_conv filter_id_conv)
  then show ?thesis by simp
qed

lemma rest_keys_sorted: "bt_ok m \<Longrightarrow> sorted_wrt (<) (rest_keys m prefix pos)"
  by (simp add: rest_keys_def bt_ok_def sorted_wrt_filter)

lemma rest_keys_next:
  assumes "bt_ok m" and "0 < n" and "n \<le> length (rest_keys m prefix pos)"
  shows "rest_keys m prefix (Some (rest_keys m prefix pos ! (n - 1))) = drop n (rest_keys m prefix pos)"
proof -
  let ?ks = "rest_keys m prefix pos" and ?p = "rest_keys m prefix pos ! (n - 1)"
  have "?p \<in> set ?ks" using assms(2,3) by simp
  then have above: "case pos of None \<Rightarrow> True | Some p \<Rightarrow> p < ?p" unfolding rest_keys_def set_filter by blast
  have "rest_keys m prefix (Some ?p) = filter (\<lambda>k. ?p < k) ?ks"
    using above unfolding rest_keys_def filter_filter
    by (intro filter_cong) (auto split: option.splits intro: order.strict_trans)
  with filter_beyond [OF rest_keys_sorted [OF assms(1)] assms(2,3)] show ?thesis by simp
qed

lemma max_seq_loop_spec:
  assumes "s3_laws S objs after"
  shows "\<exists>s' res. max_seq_loop S prefix m tok s = Some (s', res) \<and> objs s' = objs s \<and>
    (res = Inl Io \<or> res = Inr (fold seq_step (map Some (rest_keys (objs s) prefix (map_option after tok))) m))"
proof (induction "length (rest_keys (objs s) prefix (map_option after tok))" arbitrary: m tok s rule: less_induct)
  case less
  let ?ks = "rest_keys (objs s) prefix (map_option after tok)"
  obtain s1 res where l: "s3_list S prefix tok s = (s1, res)" by fastforce
  note o = s3_list_law(1) [OF assms l]
  show ?case
  proof (cases res)
    case None
    with l o show ?thesis by (simp add: max_seq_loop.simps)
  next
    case (Some pg)
    from s3_list_law(2) [OF assms l Some refl] obtain n where
      n: "pg_keys pg = map Some (take n ?ks)" "unwrap_or (pg_truncated pg) False = (n < length ?ks)"
        "n < length ?ks \<Longrightarrow> 0 < n \<and> map_option after (pg_next pg) = Some (?ks ! (n - 1))" by blast
    show ?thesis
    proof (cases "n < length ?ks")
      case True
      with n(3) have pos: "0 < n" "map_option after (pg_next pg) = Some (?ks ! (n - 1))" by simp_all
      have next_ks: "rest_keys (objs s1) prefix (map_option after (pg_next pg)) = drop n ?ks"
        unfolding pos(2) o using rest_keys_next [OF s3_objs_ok [OF assms] pos(1)] True by simp
      with True pos(1) have "length (rest_keys (objs s1) prefix (map_option after (pg_next pg))) < length ?ks"
        by simp
      from less [OF this, of "fold seq_step (pg_keys pg) m"] next_ks obtain s' res' where
        rec: "max_seq_loop S prefix (fold seq_step (pg_keys pg) m) (pg_next pg) s1 = Some (s', res')" "objs s' = objs s1"
          "res' = Inl Io \<or> res' = Inr (fold seq_step (map Some (drop n ?ks)) (fold seq_step (map Some (take n ?ks)) m))"
        unfolding n(1) by metis
      have "fold seq_step (map Some (drop n ?ks)) (fold seq_step (map Some (take n ?ks)) m) = fold seq_step (map Some ?ks) m"
        by (metis append_take_drop_id comp_apply fold_append map_append)
      moreover have "max_seq_loop S prefix m tok s = Some (s', res')"
        using rec(1) l Some n(2) True by (simp add: max_seq_loop.simps [of S prefix m tok] Let_def)
      ultimately show ?thesis using rec(2,3) o by auto
    next
      case False
      with n l Some o show ?thesis by (simp add: max_seq_loop.simps Let_def)
    qed
  qed
qed

lemma hoare_max_seq:
  assumes "s3_laws S objs after"
  shows "hoare (\<lambda>s. objs s = m) (max_seq S sid)
    (\<lambda>r s. objs s = m \<and> (r = Inl Io \<or> r = Inr (fold seq_step (map Some (rest_keys m (events_prefix sid) None)) None)))"
proof (rule hoareI)
  fix s assume "objs s = m"
  with max_seq_loop_spec [OF assms, of "events_prefix sid" None None s]
  show "\<exists>s' r. max_seq S sid s = Some (s', r) \<and> objs s' = m \<and>
      (r = Inl Io \<or> r = Inr (fold seq_step (map Some (rest_keys m (events_prefix sid) None)) None))"
    by (auto simp: max_seq_def)
qed

subsection \<open>The log of a session\<close>

text \<open>
  The objects of a session's log, as the appends leave them: one object per line under the keys
  of the sequence numbers from 1 on, and no other object under the events prefix.
\<close>

definition has_log :: "(string \<times> bytes) list \<Rightarrow> string \<Rightarrow> bytes list \<Rightarrow> bool" where
  "has_log m sid ls \<longleftrightarrow>
     length ls < 2 ^ 64 \<and>
     (\<forall>i < length ls. map_of m (ev_key sid (word_of_nat (Suc i))) = Some (ls ! i)) \<and>
     (\<forall>k \<in> fst ` set m. starts_with k (events_prefix sid) \<longrightarrow> (\<exists>i < length ls. k = ev_key sid (word_of_nat (Suc i))))"

lemma no_slash_name: "CHR ''/'' \<notin> set (pad12 (show_u64 seq) @ ''.jsonl'')"
  using show_nat_clean(3) [of "unat seq"] by (auto simp: pad12_def show_u64_def)

lemma last_segment_append: "CHR ''/'' \<notin> set name \<Longrightarrow> last_segment (p @ ''/'' @ name) = name"
proof -
  assume "CHR ''/'' \<notin> set name"
  then have "takeWhile (\<lambda>c. c \<noteq> CHR ''/'') (rev name @ ''/'' @ rev p) = rev name"
    by (subst takeWhile_append2) auto
  then show ?thesis by (simp add: last_segment_def)
qed

lemma ev_key_split: "ev_key sid seq = (''sessions/'' @ sid @ ''/'' @ EVENTS_PREFIX) @ ''/'' @ (pad12 (show_u64 seq) @ ''.jsonl'')"
  by (simp add: ev_key_def)

lemma key_seq_ev_key [simp]: "key_seq (ev_key sid seq) = Some seq"
  unfolding key_seq_def ev_key_split last_segment_append [OF no_slash_name]
  by (simp only: strip_suffix_append Option.bind.bind_lunit parse_pad12_u64)

lemma ev_key_inj: "ev_key sid seq = ev_key sid seq' \<Longrightarrow> seq = seq'"
  by (metis key_seq_ev_key option.inject)

lemma ev_key_prefix [simp]: "starts_with (ev_key sid seq) (events_prefix sid)"
  using starts_with_append [of "events_prefix sid" "pad12 (show_u64 seq) @ ''.jsonl''"]
  by (simp add: ev_key_def events_prefix_def)

lemma seq_step_Max:
  "fold seq_step (map Some ks) acc =
     (let xs = set (List.map_filter key_seq ks) \<union> set_option acc in if xs = {} then None else Some (Max xs))"
proof (induction ks arbitrary: acc)
  case Nil
  then show ?case by (cases acc) (simp_all add: List.map_filter_simps)
next
  case (Cons k ks)
  show ?case
  proof (cases "key_seq k")
    case None
    with Cons show ?thesis by (simp add: seq_step_def List.map_filter_simps)
  next
    case (Some q)
    show ?thesis
    proof (cases acc)
      case None
      with Some Cons show ?thesis by (simp add: seq_step_def List.map_filter_simps Let_def)
    next
      case (Some a)
      let ?M = "set (List.map_filter key_seq ks)"
      have "Max (insert (max a q) ?M) = Max (insert a (insert q ?M))"
        by (cases "?M = {}") (simp_all add: max.assoc max.commute max.left_commute)
      with Some \<open>key_seq k = Some q\<close> Cons show ?thesis
        by (simp add: seq_step_def List.map_filter_simps Let_def insert_commute del: Max_insert)
    qed
  qed
qed

definition next_seq :: "bytes list \<Rightarrow> u64" where
  "next_seq ls = word_of_nat (Suc (length ls))"

definition top_seq :: "bytes list \<Rightarrow> u64 option" where
  "top_seq ls = (if ls = [] then None else Some (word_of_nat (length ls)))"

lemma unat_small: "n < 2 ^ 64 \<Longrightarrow> unat (word_of_nat n :: u64) = n"
  by (simp add: unat_of_nat)

lemma has_log_seqs:
  assumes "has_log m sid ls"
  shows "set (List.map_filter key_seq (rest_keys m (events_prefix sid) None)) = (\<lambda>i. word_of_nat (Suc i)) ` {..< length ls}"
proof -
  have "set (rest_keys m (events_prefix sid) None) = (\<lambda>i. ev_key sid (word_of_nat (Suc i))) ` {..< length ls}"
  proof
    show "set (rest_keys m (events_prefix sid) None) \<subseteq> (\<lambda>i. ev_key sid (word_of_nat (Suc i))) ` {..< length ls}"
      using assms by (auto simp: rest_keys_def has_log_def)
    show "(\<lambda>i. ev_key sid (word_of_nat (Suc i))) ` {..< length ls} \<subseteq> set (rest_keys m (events_prefix sid) None)"
      using assms by (force simp: rest_keys_def has_log_def dest: map_of_SomeD)
  qed
  moreover have "set (List.map_filter f xs) = {y. \<exists>x \<in> set xs. f x = Some y}" for f :: "string \<Rightarrow> u64 option" and xs
    by (force simp: List.map_filter_def)
  ultimately show ?thesis by (auto simp del: of_nat_Suc)
qed

lemma has_log_top:
  assumes "has_log m sid ls"
  shows "fold seq_step (map Some (rest_keys m (events_prefix sid) None)) None = top_seq ls"
proof (cases "ls = []")
  case True
  with has_log_seqs [OF assms] show ?thesis by (simp add: seq_step_Max top_seq_def)
next
  case False
  let ?A = "(\<lambda>i. word_of_nat (Suc i) :: u64) ` {..< length ls}"
  have len: "length ls < 2 ^ 64" using assms by (simp add: has_log_def)
  have "Max ?A = word_of_nat (length ls)"
  proof (rule Max_eqI)
    show "word_of_nat (length ls) \<in> ?A" using False by (intro image_eqI [of _ _ "length ls - 1"]) (simp_all del: of_nat_Suc)
    fix y assume "y \<in> ?A"
    then obtain i where "i < length ls" "y = word_of_nat (Suc i)" by blast
    with len show "y \<le> word_of_nat (length ls)"
      using unat_small [of "Suc i"] unat_small [of "length ls"] by (simp add: word_le_nat_alt del: of_nat_Suc)
  qed simp
  with False has_log_seqs [OF assms] show ?thesis by (simp add: seq_step_Max top_seq_def Let_def lessThan_empty_iff)
qed

lemma has_log_append:
  assumes "bt_ok m" and "has_log m sid ls" and "Suc (length ls) < 2 ^ 64"
  shows "has_log (bt_insert (ev_key sid (next_seq ls)) b m) sid (ls @ [b])"
proof -
  have neq: "ev_key sid (word_of_nat (Suc i)) \<noteq> ev_key sid (next_seq ls)" if "i < length ls" for i
  proof
    assume "ev_key sid (word_of_nat (Suc i)) = ev_key sid (next_seq ls)"
    then have "(word_of_nat (Suc i) :: u64) = word_of_nat (Suc (length ls))" unfolding next_seq_def by (rule ev_key_inj)
    from arg_cong [OF this, of unat] that assms(3) show False
      using unat_small [of "Suc i"] unat_small [of "Suc (length ls)"] by (simp del: of_nat_Suc)
  qed
  have "map_of (bt_insert (ev_key sid (next_seq ls)) b m) (ev_key sid (word_of_nat (Suc i))) = Some ((ls @ [b]) ! i)"
    if "i < Suc (length ls)" for i
    using that assms(1,2) neq [of i]
    by (cases "i = length ls") (simp_all add: map_of_bt_insert nth_append has_log_def next_seq_def del: of_nat_Suc)
  moreover have "\<exists>i < Suc (length ls). k = ev_key sid (word_of_nat (Suc i))"
    if "k \<in> fst ` set (bt_insert (ev_key sid (next_seq ls)) b m)" "starts_with k (events_prefix sid)" for k
  proof (cases "k = ev_key sid (next_seq ls)")
    case True
    then show ?thesis by (auto simp: next_seq_def simp del: of_nat_Suc)
  next
    case False
    with that(1) have "k \<in> fst ` set m" by (simp add: set_bt_insert)
    with that(2) assms(2) show ?thesis unfolding has_log_def by (meson less_SucI)
  qed
  ultimately show ?thesis using assms(3) by (simp add: has_log_def del: of_nat_Suc)
qed

text \<open>What an append does: the next object of the log, or an error that may have written it.\<close>

lemma hoare_append_line:
  assumes "s3_laws S objs after" and "has_log m sid ls" and "Suc (length ls) < 2 ^ 64" and "to_vec L v = Some b"
  shows "hoare (\<lambda>s. objs s = m) (append_line L S sid v)
    (\<lambda>r s. case r of
       Inr seq \<Rightarrow> seq = next_seq ls \<and> objs s = bt_insert (ev_key sid (next_seq ls)) b m
     | Inl e \<Rightarrow> e = Io \<and> objs s \<in> {m, bt_insert (ev_key sid (next_seq ls)) b m})"
proof -
  have seq: "(case top_seq ls of Some s \<Rightarrow> s + 1 | None \<Rightarrow> 1) = next_seq ls"
    by (simp add: top_seq_def next_seq_def)
  have put: "hoare (\<lambda>s. objs s = m) (put_object S k b)
      (\<lambda>r s. case r of Inr _ \<Rightarrow> objs s = bt_insert k b m | Inl e \<Rightarrow> e = Io \<and> objs s \<in> {m, bt_insert k b m})" for k
    by (rule hoareI) (auto simp: put_object_def split: prod.splits dest!: s3_put_law [OF assms(1)])
  show ?thesis
    unfolding append_line_def
  proof (rule hoare_pbind [OF hoare_max_seq [OF assms(1), of m sid]], unfold has_log_top [OF assms(2)])
    fix a
    show "hoare (\<lambda>s. objs s = m \<and> (Inr a = Inl Io \<or> Inr a = Inr (top_seq ls)))
        (let seq = case a of Some s \<Rightarrow> s + 1 | None \<Rightarrow> 1 in
         pbind (pof (ok_or (to_vec L v) Io)) (\<lambda>body. pbind (put_object S (ev_key sid seq) body) (\<lambda>_. pret seq)))
        (\<lambda>r s. case r of
           Inr seq \<Rightarrow> seq = next_seq ls \<and> objs s = bt_insert (ev_key sid (next_seq ls)) b m
         | Inl e \<Rightarrow> e = Io \<and> objs s \<in> {m, bt_insert (ev_key sid (next_seq ls)) b m})"
    proof (cases "a = top_seq ls")
      case True
      have "hoare (\<lambda>s. objs s = m) (pbind (put_object S (ev_key sid (next_seq ls)) b) (\<lambda>_. pret (next_seq ls)))
          (\<lambda>r s. case r of
             Inr seq \<Rightarrow> seq = next_seq ls \<and> objs s = bt_insert (ev_key sid (next_seq ls)) b m
           | Inl e \<Rightarrow> e = Io \<and> objs s \<in> {m, bt_insert (ev_key sid (next_seq ls)) b m})"
        by (rule hoare_pbind [OF put]) (auto intro: hoare_pret)
      with True seq assms(4) show ?thesis by (simp add: Let_def pbind_def [of "pof _"] case_prod_beta)
    qed (simp add: hoare_def)
  qed auto
qed

subsection \<open>Reading the log back\<close>

text \<open>The bytes of a log: its lines, each ended by a line feed.\<close>

definition log_bytes :: "bytes list \<Rightarrow> bytes" where
  "log_bytes ls = fold (\<lambda>b out. end_line (out @ b)) ls []"

lemma read_seqs_spec:
  assumes "s3_laws S objs after"
  shows "\<exists>s' r. read_seqs S sid seqs out s = Some (s', r) \<and> objs s' = objs s \<and>
    (case r of
       Inr out' \<Rightarrow> \<exists>bs. map (\<lambda>q. map_of (objs s) (ev_key sid q)) seqs = map Some bs \<and>
         out' = fold (\<lambda>b out. end_line (out @ b)) bs out
     | Inl e \<Rightarrow> True)"
proof (induction seqs arbitrary: out s)
  case (Cons q seqs)
  obtain s1 res where g: "s3_get S (ev_key sid q) s = (s1, res)" by fastforce
  note law = s3_get_law [OF assms g]
  show ?case
  proof (cases res)
    case (Got body)
    have same: "objs s1 = objs s" using law by simp
    from Cons.IH [of "end_line (out @ body)" s1, unfolded same] obtain s2 r where
      r: "read_seqs S sid seqs (end_line (out @ body)) s1 = Some (s2, r)" "objs s2 = objs s"
        "case r of Inr out' \<Rightarrow> \<exists>bs. map (\<lambda>q. map_of (objs s) (ev_key sid q)) seqs = map Some bs \<and>
             out' = fold (\<lambda>b out. end_line (out @ b)) bs (end_line (out @ body))
         | Inl e \<Rightarrow> True" by blast
    have "case r of Inr out' \<Rightarrow> \<exists>bs. map (\<lambda>q. map_of (objs s) (ev_key sid q)) (q # seqs) = map Some bs \<and>
             out' = fold (\<lambda>b out. end_line (out @ b)) bs out
         | Inl e \<Rightarrow> True"
    proof (cases r)
      case (Inr out')
      with r(3) obtain bs where "map (\<lambda>q. map_of (objs s) (ev_key sid q)) seqs = map Some bs"
        "out' = fold (\<lambda>b out. end_line (out @ b)) bs (end_line (out @ body))" by auto
      with Inr Got law show ?thesis by (auto intro!: exI [of _ "body # bs"])
    qed simp
    with g Got r(1,2) show ?thesis by simp
  qed (use g law in simp_all)
qed simp

lemma seq_range_1: "n < 2 ^ 64 \<Longrightarrow> seq_range 1 (word_of_nat n) = map (\<lambda>i. word_of_nat (Suc i)) [0..<n]"
  using unat_small [of n] by (simp add: seq_range_def map_Suc_upt [symmetric] comp_def del: map_Suc_upt of_nat_Suc upt_Suc)

lemma has_log_bodies:
  assumes "has_log m sid ls"
  shows "map (\<lambda>q. map_of m (ev_key sid q)) (seq_range 1 (word_of_nat (length ls))) = map Some ls"
proof -
  have len: "length ls < 2 ^ 64" using assms by (simp add: has_log_def)
  have "map (\<lambda>i. map_of m (ev_key sid (word_of_nat (Suc i)))) [0..<length ls] = map (\<lambda>i. Some (ls ! i)) [0..<length ls]"
    using assms by (auto simp: has_log_def simp del: of_nat_Suc)
  also have "\<dots> = map Some ls" by (metis map_nth map_map comp_apply map_cong)
  finally show ?thesis by (simp add: seq_range_1 [OF len] comp_def del: of_nat_Suc)
qed

lemma hoare_read_log:
  assumes "s3_laws S objs after" and "has_log m sid ls"
  shows "hoare (\<lambda>s. objs s = m) (read_log S sid)
    (\<lambda>r s. objs s = m \<and> (case r of Inr out \<Rightarrow> out = log_bytes ls | Inl e \<Rightarrow> True))"
  unfolding read_log_def
proof (rule hoare_pbind [OF hoare_max_seq [OF assms(1), of m sid]], unfold has_log_top [OF assms(2)])
  fix a
  show "hoare (\<lambda>s. objs s = m \<and> (Inr a = Inl Io \<or> Inr a = Inr (top_seq ls)))
      (case a of None \<Rightarrow> pret [] | Some mx \<Rightarrow> read_seqs S sid (seq_range 1 mx) [])
      (\<lambda>r s. objs s = m \<and> (case r of Inr out \<Rightarrow> out = log_bytes ls | Inl e \<Rightarrow> True))"
  proof (cases "ls = []")
    case True
    then show ?thesis by (cases a) (auto simp: hoare_def top_seq_def log_bytes_def)
  next
    case False
    show ?thesis
    proof (rule hoareI)
      fix s assume "objs s = m \<and> (Inr a = Inl Io \<or> Inr a = Inr (top_seq ls))"
      with False have a: "a = Some (word_of_nat (length ls))" and m: "objs s = m" by (simp_all add: top_seq_def)
      from read_seqs_spec [OF assms(1), of sid "seq_range 1 (word_of_nat (length ls))" "[]" s] obtain s' r where
        r: "read_seqs S sid (seq_range 1 (word_of_nat (length ls))) [] s = Some (s', r)" "objs s' = objs s"
          "case r of Inr out' \<Rightarrow> \<exists>bs. map (\<lambda>q. map_of m (ev_key sid q)) (seq_range 1 (word_of_nat (length ls))) = map Some bs \<and>
             out' = fold (\<lambda>b out. end_line (out @ b)) bs [] | Inl e \<Rightarrow> True"
        unfolding m by blast
      have "case r of Inr out \<Rightarrow> out = log_bytes ls | Inl e \<Rightarrow> True"
        using r(3) unfolding has_log_bodies [OF assms(2)] by (cases r) (auto simp: log_bytes_def inj_map_eq_map)
      with r(1,2) a m show "\<exists>s' r. (case a of None \<Rightarrow> pret [] | Some mx \<Rightarrow> read_seqs S sid (seq_range 1 mx) []) s = Some (s', r) \<and>
          objs s' = m \<and> (case r of Inr out \<Rightarrow> out = log_bytes ls | Inl e \<Rightarrow> True)" by auto
    qed
  qed
qed auto

text \<open>\<open>split(|b| *b == b'\n')\<close>, and the values the readers of a log parse from its bytes.\<close>

fun split_lf :: "bytes \<Rightarrow> bytes list" where
  "split_lf [] = [[]]"
| "split_lf (c # cs) =
     (if c = CHR 0x0A then [] # split_lf cs
      else case split_lf cs of l # ls \<Rightarrow> (c # l) # ls | [] \<Rightarrow> [[c]])"

definition nonempty_lines :: "bytes \<Rightarrow> bytes list" where
  "nonempty_lines b = filter (\<lambda>l. l \<noteq> []) (split_lf b)"

definition log_values :: "libs \<Rightarrow> bytes \<Rightarrow> json list" where
  "log_values L b = List.map_filter (from_slice L) (nonempty_lines b)"

lemma split_lf_line: "CHR 0x0A \<notin> set l \<Longrightarrow> split_lf (l @ CHR 0x0A # b) = l # split_lf b"
  by (induction l) auto

lemma end_line_plain: "l \<noteq> [] \<Longrightarrow> CHR 0x0A \<notin> set l \<Longrightarrow> end_line (out @ l) = out @ l @ [CHR 0x0A]"
  using last_in_set [of l] by (cases "last l = CHR 0x0A") (simp_all add: end_line_def)

lemma log_bytes_plain:
  assumes "\<forall>l \<in> set ls. l \<noteq> [] \<and> CHR 0x0A \<notin> set l"
  shows "log_bytes ls = concat (map (\<lambda>l. l @ [CHR 0x0A]) ls)"
proof -
  have "fold (\<lambda>b out. end_line (out @ b)) ls out = out @ concat (map (\<lambda>l. l @ [CHR 0x0A]) ls)" for out
    using assms by (induction ls arbitrary: out) (simp_all add: end_line_plain)
  then show ?thesis by (simp add: log_bytes_def)
qed

lemma nonempty_lines_log:
  assumes "\<forall>l \<in> set ls. l \<noteq> [] \<and> CHR 0x0A \<notin> set l"
  shows "nonempty_lines (log_bytes ls) = ls"
  unfolding log_bytes_plain [OF assms] using assms
  by (induction ls) (simp_all add: nonempty_lines_def split_lf_line)

text \<open>The lines of a list of events, and that they read back.\<close>

definition print_log :: "libs \<Rightarrow> json list \<Rightarrow> bytes list" where
  "print_log L evs = map (\<lambda>e. the (to_vec L e)) evs"

lemma print_log_plain: "serde_laws L \<Longrightarrow> \<forall>l \<in> set (print_log L evs). l \<noteq> [] \<and> CHR 0x0A \<notin> set l"
proof -
  assume L: "serde_laws L"
  have "the (to_vec L e) \<noteq> [] \<and> CHR 0x0A \<notin> set (the (to_vec L e))" for e
    using serde_total [OF L, of e] serde_line [OF L, of e] by auto
  then show ?thesis by (simp add: print_log_def)
qed

lemma log_values_print:
  assumes "serde_laws L" and "\<forall>e \<in> set evs. jwf e \<and> no_float e"
  shows "log_values L (log_bytes (print_log L evs)) = evs"
proof -
  have "from_slice L (the (to_vec L e)) = Some e" if "e \<in> set evs" for e
    using that assms serde_total [OF assms(1), of e] serde_roundtrip [OF assms(1), of e] by fastforce
  then have "List.map_filter (from_slice L) (print_log L evs) = evs"
    by (induction evs) (simp_all add: print_log_def List.map_filter_simps)
  then show ?thesis by (simp add: log_values_def nonempty_lines_log [OF print_log_plain [OF assms(1)]])
qed

end
