(* ===== verification/StoreSpec.thy ===== *)
theory StoreSpec
  imports Store
begin

text \<open>
  The trait \<open>ObjectStore\<close> of \<open>crates/memoryd/src/store.rs\<close> as a record of operations, its S3
  implementation, and the contract its clients rely on as a locale: a log per session that an
  append extends by one line and a read returns. The S3 implementation is an instance of the
  contract wherever the service obeys its documented laws. Deletion and the session list are
  specified on the objects themselves.
\<close>

subsection \<open>Sessions do not share keys\<close>

definition sid_ok :: "string \<Rightarrow> bool" where
  "sid_ok sid \<longleftrightarrow> sid \<noteq> [] \<and> CHR ''/'' \<notin> set sid"

lemma segment_unique:
  assumes "CHR ''/'' \<notin> set a" "CHR ''/'' \<notin> set b" "a @ ''/'' @ x = b @ ''/'' @ y"
  shows "a = b"
proof -
  have "takeWhile (\<lambda>c. c \<noteq> CHR ''/'') (a @ ''/'' @ x) = a" "takeWhile (\<lambda>c. c \<noteq> CHR ''/'') (b @ ''/'' @ y) = b"
    using assms(1,2) by (auto simp: takeWhile_append2 takeWhile_tail)
  with assms(3) show ?thesis by simp
qed

lemma starts_with_iff: "starts_with s p \<longleftrightarrow> (\<exists>r. s = p @ r)"
  by (metis append_take_drop_id starts_with_append starts_with_def)

lemma session_prefix_unique:
  assumes "sid_ok a" "sid_ok b" "starts_with k (session_prefix a)" "starts_with k (session_prefix b)"
  shows "a = b"
  using assms segment_unique [of a b] by (auto simp: starts_with_iff session_prefix_def sid_ok_def)

lemma events_in_session: "starts_with k (events_prefix sid) \<Longrightarrow> starts_with k (session_prefix sid)"
  by (auto simp: starts_with_iff events_prefix_def session_prefix_def)

lemma ev_key_in_session [simp]: "starts_with (ev_key sid q) (session_prefix sid)"
  by (rule events_in_session) simp

lemma art_key_in_session [simp]: "starts_with (art_key sid name) (session_prefix sid)"
  using starts_with_append [of "session_prefix sid" name] by (simp add: art_key_def session_prefix_def)

text \<open>A change outside the events of a session leaves its log as it is.\<close>

lemma has_log_cong:
  assumes "has_log m sid ls" and "\<And>k. starts_with k (events_prefix sid) \<Longrightarrow> map_of m k = map_of m' k"
  shows "has_log m' sid ls"
proof -
  have "k \<in> fst ` set m' \<longleftrightarrow> k \<in> fst ` set m" if "starts_with k (events_prefix sid)" for k
    using assms(2) [OF that] by (metis map_of_eq_None_iff)
  with assms show ?thesis unfolding has_log_def by (metis ev_key_prefix)
qed

lemma has_log_other:
  assumes "bt_ok m" "has_log m sid ls" "starts_with k (session_prefix sid')" "sid \<noteq> sid'" "sid_ok sid" "sid_ok sid'"
  shows "has_log (bt_insert k b m) sid ls"
proof (rule has_log_cong [OF assms(2)])
  fix j assume "starts_with j (events_prefix sid)"
  with session_prefix_unique [OF assms(5,6), of j] assms(3,4) events_in_session have "j \<noteq> k" by blast
  with assms(1) show "map_of m j = map_of (bt_insert k b m) j" by (simp add: map_of_bt_insert)
qed

subsection \<open>The trait and its implementation\<close>

record 's store_ops =
  st_append_line :: "string \<Rightarrow> json \<Rightarrow> ('s, store_err, u64) proc"
  st_read_log :: "string \<Rightarrow> ('s, store_err, bytes) proc"
  st_read_log_after :: "string \<Rightarrow> u64 \<Rightarrow> ('s, store_err, bytes) proc"
  st_put_artifact :: "string \<Rightarrow> string \<Rightarrow> bytes \<Rightarrow> ('s, store_err, unit) proc"
  st_get_artifact :: "string \<Rightarrow> string \<Rightarrow> ('s, store_err, bytes) proc"
  st_sign_get :: "string \<Rightarrow> nat \<Rightarrow> store_err + string"
  st_sign_put :: "string \<Rightarrow> nat \<Rightarrow> store_err + string"
  st_delete_prefix :: "string \<Rightarrow> ('s, store_err, u64) proc"
  st_list_sessions :: "('s, store_err, string list) proc"
  st_max_seq :: "string \<Rightarrow> ('s, store_err, u64 option) proc"

definition s3_store :: "libs \<Rightarrow> 's s3 \<Rightarrow> 's store_ops" where
  "s3_store L S =
     \<lparr>st_append_line = append_line L S, st_read_log = read_log S, st_read_log_after = read_log_after S,
      st_put_artifact = put_artifact S, st_get_artifact = get_artifact S,
      st_sign_get = sign_get S, st_sign_put = sign_put S,
      st_delete_prefix = delete_prefix S, st_list_sessions = list_sessions S, st_max_seq = max_seq S\<rparr>"

subsection \<open>The contract\<close>

text \<open>
  \<open>holds s sid ls\<close>: in the service state \<open>s\<close> the log of the session is the list of lines
  \<open>ls\<close>. Every operation returns; an append that fails may have written its line.
\<close>

locale object_store =
  fixes L :: libs
    and St :: "'s store_ops"
    and holds :: "'s \<Rightarrow> string \<Rightarrow> bytes list \<Rightarrow> bool"
  assumes append_spec: "to_vec L v = Some b \<Longrightarrow> Suc (length ls) < 2 ^ 64 \<Longrightarrow>
      hoare (\<lambda>s. holds s sid ls) (st_append_line St sid v)
        (\<lambda>r s. case r of
           Inr seq \<Rightarrow> seq = next_seq ls \<and> holds s sid (ls @ [b])
         | Inl e \<Rightarrow> retryable e \<and> (holds s sid ls \<or> holds s sid (ls @ [b])))"
    and append_frame: "sid_ok sid \<Longrightarrow> sid_ok sid' \<Longrightarrow> sid' \<noteq> sid \<Longrightarrow> holds s sid' ls' \<Longrightarrow> holds s sid ls \<Longrightarrow>
      to_vec L v = Some b \<Longrightarrow> Suc (length ls) < 2 ^ 64 \<Longrightarrow>
      st_append_line St sid v s = Some (s', r) \<Longrightarrow> holds s' sid' ls'"
    and read_spec: "hoare (\<lambda>s. holds s sid ls) (st_read_log St sid)
        (\<lambda>r s. holds s sid ls \<and> (case r of Inr out \<Rightarrow> out = log_bytes ls | Inl e \<Rightarrow> True))"
    and max_seq_spec: "hoare (\<lambda>s. holds s sid ls) (st_max_seq St sid)
        (\<lambda>r s. holds s sid ls \<and> (case r of Inr x \<Rightarrow> x = top_seq ls | Inl e \<Rightarrow> True))"
begin

text \<open>A run of appends that all succeed leaves exactly the lines in the order they were sent.\<close>

lemma append_run:
  assumes "\<And>v. to_vec L v = Some (enc v)" and "length ls + length vs < 2 ^ 64" and "holds s sid ls"
    and "fold (\<lambda>v st. Option.bind st (\<lambda>s. case st_append_line St sid v s of Some (s', Inr _) \<Rightarrow> Some s' | _ \<Rightarrow> None)) vs (Some s) = Some s'"
  shows "holds s' sid (ls @ map enc vs)"
  using assms(2-)
proof (induction vs arbitrary: ls s)
  case (Cons v vs)
  let ?f = "\<lambda>v st. Option.bind st (\<lambda>s. case st_append_line St sid v s of Some (s', Inr _) \<Rightarrow> Some s' | _ \<Rightarrow> None)"
  have none: "fold ?f vs None = None" by (induction vs) simp_all
  from append_spec [OF assms(1) [of v], of ls sid] Cons.prems(1,2) obtain s1 r where
    r: "st_append_line St sid v s = Some (s1, r)"
      "case r of Inr seq \<Rightarrow> seq = next_seq ls \<and> holds s1 sid (ls @ [enc v])
       | Inl e \<Rightarrow> retryable e \<and> (holds s1 sid ls \<or> holds s1 sid (ls @ [enc v]))"
    by (auto elim: hoareE [where s = s])
  show ?case
  proof (cases r)
    case (Inl e)
    with r(1) Cons.prems(3) none show ?thesis by simp
  next
    case (Inr seq)
    with r Cons.prems Cons.IH [of "ls @ [enc v]" s1] show ?thesis by simp
  qed
qed simp

end

subsection \<open>The S3 implementation meets the contract\<close>

definition s3_holds :: "'s s3 \<Rightarrow> ('s \<Rightarrow> (string \<times> bytes) list) \<Rightarrow> (string \<Rightarrow> string) \<Rightarrow> 's \<Rightarrow> string \<Rightarrow> bytes list \<Rightarrow> bool" where
  "s3_holds S objs after s sid ls \<longleftrightarrow> s3_laws S objs after \<and> has_log (objs s) sid ls"

lemma s3_append_objs:
  assumes "s3_laws S objs after" "has_log (objs s) sid ls" "Suc (length ls) < 2 ^ 64" "to_vec L v = Some b"
  obtains s' r where "append_line L S sid v s = Some (s', r)"
    "case r of Inr seq \<Rightarrow> seq = next_seq ls \<and> objs s' = bt_insert (ev_key sid (next_seq ls)) b (objs s)
     | Inl e \<Rightarrow> e = Io \<and> objs s' \<in> {objs s, bt_insert (ev_key sid (next_seq ls)) b (objs s)}"
  using hoareE [OF hoare_append_line [OF assms] refl] by metis

interpretation s3c: object_store L "s3_store L S" "s3_holds S objs after"
proof
  fix v b ls sid
  assume v: "to_vec L v = Some b" and len: "Suc (length (ls :: bytes list)) < 2 ^ 64"
  show "hoare (\<lambda>s. s3_holds S objs after s sid ls) (st_append_line (s3_store L S) sid v)
        (\<lambda>r s. case r of
           Inr seq \<Rightarrow> seq = next_seq ls \<and> s3_holds S objs after s sid (ls @ [b])
         | Inl e \<Rightarrow> retryable e \<and> (s3_holds S objs after s sid ls \<or> s3_holds S objs after s sid (ls @ [b])))"
  proof (rule hoareI)
    fix s assume "s3_holds S objs after s sid ls"
    then have S: "s3_laws S objs after" and h: "has_log (objs s) sid ls" by (simp_all add: s3_holds_def)
    from s3_append_objs [OF S h len v] obtain s' r where r: "append_line L S sid v s = Some (s', r)"
      "case r of Inr seq \<Rightarrow> seq = next_seq ls \<and> objs s' = bt_insert (ev_key sid (next_seq ls)) b (objs s)
       | Inl e \<Rightarrow> e = Io \<and> objs s' \<in> {objs s, bt_insert (ev_key sid (next_seq ls)) b (objs s)}" .
    with has_log_append [OF s3_objs_ok [OF S] h len, of b] h S
    have "case r of
           Inr seq \<Rightarrow> seq = next_seq ls \<and> s3_holds S objs after s' sid (ls @ [b])
         | Inl e \<Rightarrow> retryable e \<and> (s3_holds S objs after s' sid ls \<or> s3_holds S objs after s' sid (ls @ [b]))"
      by (auto simp: s3_holds_def retryable_def split: sum.splits)
    with r(1) show "\<exists>s' r. st_append_line (s3_store L S) sid v s = Some (s', r) \<and> (case r of
           Inr seq \<Rightarrow> seq = next_seq ls \<and> s3_holds S objs after s' sid (ls @ [b])
         | Inl e \<Rightarrow> retryable e \<and> (s3_holds S objs after s' sid ls \<or> s3_holds S objs after s' sid (ls @ [b])))"
      by (simp add: s3_store_def)
  qed
next
  fix sid sid' s s' ls ls' v b r
  assume ok: "sid_ok sid" "sid_ok sid'" "sid' \<noteq> sid" and h': "s3_holds S objs after s sid' ls'" and h: "s3_holds S objs after s sid ls"
    and v: "to_vec L v = Some b" and len: "Suc (length ls) < 2 ^ 64"
    and a: "st_append_line (s3_store L S) sid v s = Some (s', r)"
  from h h' have S: "s3_laws S objs after" and hl: "has_log (objs s) sid ls" and hl': "has_log (objs s) sid' ls'"
    by (simp_all add: s3_holds_def)
  from s3_append_objs [OF S hl len v] a have "objs s' \<in> {objs s, bt_insert (ev_key sid (next_seq ls)) b (objs s)}"
    by (fastforce simp: s3_store_def split: sum.splits)
  with has_log_other [OF s3_objs_ok [OF S] hl' ev_key_in_session ok(3,2,1), of "next_seq ls" b] hl' S
  show "s3_holds S objs after s' sid' ls'" by (auto simp: s3_holds_def)
next
  fix sid ls
  show "hoare (\<lambda>s. s3_holds S objs after s sid ls) (st_read_log (s3_store L S) sid)
        (\<lambda>r s. s3_holds S objs after s sid ls \<and> (case r of Inr out \<Rightarrow> out = log_bytes ls | Inl e \<Rightarrow> True))"
  proof (rule hoareI)
    fix s assume "s3_holds S objs after s sid ls"
    then have S: "s3_laws S objs after" and h: "has_log (objs s) sid ls" by (simp_all add: s3_holds_def)
    from hoareE [OF hoare_read_log [OF S h] refl] S h
    show "\<exists>s' r. st_read_log (s3_store L S) sid s = Some (s', r) \<and> s3_holds S objs after s' sid ls \<and>
        (case r of Inr out \<Rightarrow> out = log_bytes ls | Inl e \<Rightarrow> True)"
      by (simp add: s3_store_def s3_holds_def) metis
  qed
next
  fix sid ls
  show "hoare (\<lambda>s. s3_holds S objs after s sid ls) (st_max_seq (s3_store L S) sid)
        (\<lambda>r s. s3_holds S objs after s sid ls \<and> (case r of Inr x \<Rightarrow> x = top_seq ls | Inl e \<Rightarrow> True))"
  proof (rule hoareI)
    fix s assume "s3_holds S objs after s sid ls"
    then have S: "s3_laws S objs after" and h: "has_log (objs s) sid ls" by (simp_all add: s3_holds_def)
    from hoareE [OF hoare_max_seq [OF S, of "objs s" sid, unfolded has_log_top [OF h]] refl] obtain s' r where
      "max_seq S sid s = Some (s', r)" "objs s' = objs s" "r = Inl Io \<or> r = Inr (top_seq ls)" by blast
    with S h show "\<exists>s' r. st_max_seq (s3_store L S) sid s = Some (s', r) \<and> s3_holds S objs after s' sid ls \<and>
        (case r of Inr x \<Rightarrow> x = top_seq ls | Inl e \<Rightarrow> True)"
      by (auto simp: s3_store_def s3_holds_def)
  qed
qed

subsection \<open>Deletion\<close>

lemma delete_keys_spec:
  assumes "s3_laws S objs after"
  shows "delete_keys S ks d s = (s', r) \<Longrightarrow>
    (case r of
       Inr d' \<Rightarrow> d' = d + word_of_nat (length ks) \<and> objs s' = filter (\<lambda>p. fst p \<notin> set ks) (objs s)
     | Inl e \<Rightarrow> e = Io \<and> filter (\<lambda>p. fst p \<notin> set ks) (objs s') = filter (\<lambda>p. fst p \<notin> set ks) (objs s))"
proof (induction ks arbitrary: d s)
  case (Cons k ks)
  obtain s1 ok where d: "s3_delete S k s = (s1, ok)" by fastforce
  note law = s3_delete_law [OF assms d]
  show ?case
  proof (cases ok)
    case True
    with law have o: "objs s1 = bt_remove k (objs s)" by simp
    have rec: "delete_keys S ks (d + 1) s1 = (s', r)" using Cons.prems d True by simp
    show ?thesis
    proof (cases r)
      case (Inr d')
      with Cons.IH [OF rec] o show ?thesis by (simp add: bt_remove_def conj_ac add.assoc)
    next
      case (Inl e)
      with Cons.IH [OF rec] have "e = Io" "filter (\<lambda>p. fst p \<notin> set ks) (objs s') = filter (\<lambda>p. fst p \<notin> set ks) (objs s1)" by auto
      then have "filter (\<lambda>p. fst p \<noteq> k) (filter (\<lambda>p. fst p \<notin> set ks) (objs s')) =
          filter (\<lambda>p. fst p \<noteq> k) (filter (\<lambda>p. fst p \<notin> set ks) (bt_remove k (objs s)))" using o by simp
      with Inl \<open>e = Io\<close> show ?thesis by (simp add: bt_remove_def conj_ac)
    qed
  next
    case False
    with Cons.prems d have "s' = s1" "r = Inl Io" by auto
    with law show ?thesis by (auto simp: bt_remove_def conj_ac)
  qed
qed auto

text \<open>The objects that deletion of a prefix must leave alone.\<close>

definition outside :: "string \<Rightarrow> (string \<times> bytes) list \<Rightarrow> (string \<times> bytes) list" where
  "outside prefix m = filter (\<lambda>p. \<not> starts_with (fst p) prefix) m"

lemma outside_delete:
  assumes "set ks \<subseteq> {k. starts_with k prefix}" "filter (\<lambda>p. fst p \<notin> set ks) m' = filter (\<lambda>p. fst p \<notin> set ks) m"
  shows "outside prefix m' = outside prefix m"
proof -
  have "outside prefix x = outside prefix (filter (\<lambda>p. fst p \<notin> set ks) x)" for x
    using assms(1) by (auto simp: outside_def intro!: filter_cong)
  with assms(2) show ?thesis by metis
qed

lemma rest_keys_prefix: "set (rest_keys m prefix pos) \<subseteq> {k. starts_with k prefix}"
  by (auto simp: rest_keys_def)

lemma delete_loop_spec:
  assumes "s3_laws S objs after"
  shows "\<exists>s' r. delete_loop S prefix d tok s = Some (s', r) \<and>
    (let ks = rest_keys (objs s) prefix (map_option after tok) in
     case r of
       Inr d' \<Rightarrow> d' = d + word_of_nat (length ks) \<and> objs s' = filter (\<lambda>p. fst p \<notin> set ks) (objs s)
     | Inl e \<Rightarrow> e = Io \<and> outside prefix (objs s') = outside prefix (objs s))"
proof (induction "length (rest_keys (objs s) prefix (map_option after tok))" arbitrary: d tok s rule: less_induct)
  case less
  let ?ks = "rest_keys (objs s) prefix (map_option after tok)"
  obtain s1 res where l: "s3_list S prefix tok s = (s1, res)" by fastforce
  note o = s3_list_law(1) [OF assms l]
  show ?case
  proof (cases res)
    case None
    with l o show ?thesis by (simp add: delete_loop.simps Let_def)
  next
    case (Some pg)
    from s3_list_law(2) [OF assms l Some refl] obtain n where
      n: "pg_keys pg = map Some (take n ?ks)" "unwrap_or (pg_truncated pg) False = (n < length ?ks)"
        "n < length ?ks \<Longrightarrow> 0 < n \<and> map_option after (pg_next pg) = Some (?ks ! (n - 1))" by blast
    have keys: "List.map_filter id (pg_keys pg) = take n ?ks"
      unfolding n(1) by (induction "take n ?ks") (simp_all add: List.map_filter_def comp_def)
    obtain s2 r where dk: "delete_keys S (take n ?ks) d s1 = (s2, r)" by fastforce
    note law = delete_keys_spec [OF assms dk]
    show ?thesis
    proof (cases r)
      case (Inl e)
      with law have "outside prefix (objs s2) = outside prefix (objs s)" "e = Io"
        using outside_delete [of "take n ?ks" prefix "objs s2" "objs s"] rest_keys_prefix [of "objs s" prefix "map_option after tok"] o
        by (auto dest: in_set_takeD)
      with l Some keys dk Inl show ?thesis by (simp add: delete_loop.simps [of S prefix d tok] Let_def)
    next
      case (Inr d2)
      with law o have d2: "d2 = d + word_of_nat (length (take n ?ks))" and s2: "objs s2 = filter (\<lambda>p. fst p \<notin> set (take n ?ks)) (objs s)"
        by simp_all
      show ?thesis
      proof (cases "n < length ?ks")
        case False
        with l Some keys dk Inr n(2) d2 s2 show ?thesis by (simp add: delete_loop.simps [of S prefix d tok] Let_def)
      next
        case True
        with n(3) have pos: "0 < n" "map_option after (pg_next pg) = Some (?ks ! (n - 1))" by simp_all
        have le: "k \<le> ?ks ! (n - 1)" if "k \<in> set (take n ?ks)" for k
          using take_le [OF rest_keys_sorted [OF s3_objs_ok [OF assms]] pos(1) less_imp_le_nat [OF True] that] .
        have "rest_keys (objs s2) prefix (Some (?ks ! (n - 1))) = rest_keys (objs s) prefix (Some (?ks ! (n - 1)))"
          using le unfolding s2 rest_keys_def filter_map filter_filter
          by (intro arg_cong [where f = "map fst"] filter_cong) (auto simp: not_less [symmetric])
        then have rest: "rest_keys (objs s2) prefix (map_option after (pg_next pg)) = drop n ?ks"
          unfolding pos(2) using rest_keys_next [OF s3_objs_ok [OF assms] pos(1)] True by simp
        with True pos(1) have "length (rest_keys (objs s2) prefix (map_option after (pg_next pg))) < length ?ks" by simp
        from less [OF this, of d2] obtain s' r' where
          rec: "delete_loop S prefix d2 (pg_next pg) s2 = Some (s', r')"
            "case r' of Inr d' \<Rightarrow> d' = d2 + word_of_nat (length (drop n ?ks)) \<and> objs s' = filter (\<lambda>p. fst p \<notin> set (drop n ?ks)) (objs s2)
             | Inl e \<Rightarrow> e = Io \<and> outside prefix (objs s') = outside prefix (objs s2)"
          unfolding rest Let_def by blast
        have split: "set ?ks = set (take n ?ks) \<union> set (drop n ?ks)" by (metis append_take_drop_id set_append)
        have "length ?ks = length (take n ?ks) + length (drop n ?ks)" by simp
        then have len: "word_of_nat (length ?ks) = (word_of_nat (length (take n ?ks)) + word_of_nat (length (drop n ?ks)) :: u64)"
          by (metis of_nat_add)
        have out2: "outside prefix (objs s2) = outside prefix (objs s)"
          by (rule outside_delete [of "take n ?ks"])
            (use s2 rest_keys_prefix [of "objs s" prefix "map_option after tok"] in \<open>auto dest: in_set_takeD\<close>)
        have "case r' of Inr d' \<Rightarrow> d' = d + word_of_nat (length ?ks) \<and> objs s' = filter (\<lambda>p. fst p \<notin> set ?ks) (objs s)
             | Inl e \<Rightarrow> e = Io \<and> outside prefix (objs s') = outside prefix (objs s)"
        proof (cases r')
          case (Inl e)
          with rec(2) out2 show ?thesis by simp
        next
          case (Inr d')
          with rec(2) d2 len show ?thesis by (simp add: s2 split add.assoc conj_ac)
        qed
        with l Some keys dk Inr n(2) True rec(1) show ?thesis
          by (simp add: delete_loop.simps [of S prefix d tok] Let_def)
      qed
    qed
  qed
qed

lemma filter_rest_keys: "filter (\<lambda>p. fst p \<notin> set (rest_keys m prefix None)) m = outside prefix m"
  by (force simp: outside_def rest_keys_def intro!: filter_cong)

subsection \<open>The session list\<close>

lemma list_loop_spec:
  assumes "s3_laws S objs after"
  shows "\<exists>s' r. list_loop S acc tok s = Some (s', r) \<and> objs s' = objs s \<and>
    (r = Inl Io \<or> r = Inr (acc @ List.map_filter key_session (rest_keys (objs s) ''sessions/'' (map_option after tok))))"
proof (induction "length (rest_keys (objs s) ''sessions/'' (map_option after tok))" arbitrary: acc tok s rule: less_induct)
  case less
  let ?p = "''sessions/''"
  let ?ks = "rest_keys (objs s) ?p (map_option after tok)"
  obtain s1 res where l: "s3_list S ?p tok s = (s1, res)" by fastforce
  note o = s3_list_law(1) [OF assms l]
  show ?case
  proof (cases res)
    case None
    with l o show ?thesis by (simp add: list_loop.simps)
  next
    case (Some pg)
    from s3_list_law(2) [OF assms l Some refl] obtain n where
      n: "pg_keys pg = map Some (take n ?ks)" "unwrap_or (pg_truncated pg) False = (n < length ?ks)"
        "n < length ?ks \<Longrightarrow> 0 < n \<and> map_option after (pg_next pg) = Some (?ks ! (n - 1))" by blast
    have keys: "List.map_filter (\<lambda>ok. Option.bind ok key_session) (pg_keys pg) = List.map_filter key_session (take n ?ks)"
      unfolding n(1) by (simp add: List.map_filter_def comp_def filter_map)
    show ?thesis
    proof (cases "n < length ?ks")
      case True
      with n(3) have pos: "0 < n" "map_option after (pg_next pg) = Some (?ks ! (n - 1))" by simp_all
      have next_ks: "rest_keys (objs s1) ?p (map_option after (pg_next pg)) = drop n ?ks"
        unfolding pos(2) o using rest_keys_next [OF s3_objs_ok [OF assms] pos(1)] True by simp
      with True pos(1) have "length (rest_keys (objs s1) ?p (map_option after (pg_next pg))) < length ?ks" by simp
      from less [OF this, of "acc @ List.map_filter key_session (take n ?ks)"] next_ks obtain s' r where
        rec: "list_loop S (acc @ List.map_filter key_session (take n ?ks)) (pg_next pg) s1 = Some (s', r)" "objs s' = objs s1"
          "r = Inl Io \<or> r = Inr ((acc @ List.map_filter key_session (take n ?ks)) @ List.map_filter key_session (drop n ?ks))"
        by metis
      have "List.map_filter key_session (take n ?ks) @ List.map_filter key_session (drop n ?ks) = List.map_filter key_session ?ks"
        by (simp add: List.map_filter_def flip: map_append filter_append)
      moreover have "list_loop S acc tok s = Some (s', r)"
        using rec(1) l Some n(2) True keys by (simp add: list_loop.simps [of S acc tok] Let_def)
      ultimately show ?thesis using rec(2,3) o by auto
    next
      case False
      with n(2) l Some o keys show ?thesis by (simp add: list_loop.simps Let_def)
    qed
  qed
qed

lemma sorted_remdups_adj_distinct: "sorted (xs :: string list) \<Longrightarrow> distinct (remdups_adj xs)"
  by (induction xs rule: remdups_adj.induct) (force simp: antisym)+

lemma key_session_prefix: "sid_ok sid \<Longrightarrow> key_session (session_prefix sid @ r) = Some sid"
proof -
  assume ok: "sid_ok sid"
  have "strip_prefix (session_prefix sid @ r) ''sessions/'' = Some (sid @ ''/'' @ r)"
    by (simp add: strip_prefix_Some session_prefix_def)
  moreover have "first_segment (sid @ ''/'' @ r) = sid"
    unfolding first_segment_def using ok by (subst takeWhile_append2) (auto simp: sid_ok_def)
  ultimately show ?thesis using ok by (simp add: key_session_def sid_ok_def)
qed

lemma key_session_Some:
  assumes "key_session k = Some sid" and "starts_with k ''sessions/''"
  shows "sid_ok sid" and "k = ''sessions/'' @ sid \<or> starts_with k (session_prefix sid)"
proof -
  from assms(2) obtain r where k: "k = ''sessions/'' @ r" by (auto simp: starts_with_iff)
  then have "strip_prefix k ''sessions/'' = Some r" by (simp add: strip_prefix_Some)
  with assms(1) have sid: "sid = takeWhile (\<lambda>c. c \<noteq> CHR ''/'') r" "sid \<noteq> []"
    by (auto simp: key_session_def first_segment_def Let_def split: if_splits)
  then show "sid_ok sid" by (auto simp: sid_ok_def dest: set_takeWhileD)
  have "r = sid @ dropWhile (\<lambda>c. c \<noteq> CHR ''/'') r" using sid by simp
  moreover have "dropWhile (\<lambda>c. c \<noteq> CHR ''/'') r = [] \<or> (\<exists>t. dropWhile (\<lambda>c. c \<noteq> CHR ''/'') r = CHR ''/'' # t)"
    using hd_dropWhile [of "\<lambda>c. c \<noteq> CHR ''/''" r] by (cases "dropWhile (\<lambda>c. c \<noteq> CHR ''/'') r") auto
  ultimately show "k = ''sessions/'' @ sid \<or> starts_with k (session_prefix sid)"
    unfolding k session_prefix_def starts_with_iff by (metis append.assoc append_Cons append_Nil append_Nil2)
qed

subsection \<open>An in-memory service\<close>

text \<open>Objects in key order; a page holds at most two keys, a token is the last key returned.\<close>

typedef bucket = "{m :: (string \<times> bytes) list. bt_ok m}"
  by (rule exI [of _ "[]"]) simp

setup_lifting type_definition_bucket

lift_definition bucket_objs :: "bucket \<Rightarrow> (string \<times> bytes) list" is "\<lambda>m. m" .
lift_definition bucket_empty :: bucket is "[]" by simp
lift_definition bucket_put :: "string \<Rightarrow> bytes \<Rightarrow> bucket \<Rightarrow> bucket" is bt_insert by (rule bt_ok_insert)
lift_definition bucket_remove :: "string \<Rightarrow> bucket \<Rightarrow> bucket" is bt_remove by (rule bt_ok_remove)

definition mem_page :: "bucket \<Rightarrow> string \<Rightarrow> string option \<Rightarrow> page" where
  "mem_page s prefix tok =
     (let ks = rest_keys (bucket_objs s) prefix tok in
      \<lparr>pg_keys = map Some (take 2 ks), pg_truncated = Some (2 < length ks),
       pg_next = (if 2 < length ks then Some (ks ! 1) else None)\<rparr>)"

definition mem_s3 :: "bucket s3" where
  "mem_s3 =
     \<lparr>s3_put = (\<lambda>k b s. (bucket_put k b s, True)),
      s3_get = (\<lambda>k s. (s, case map_of (bucket_objs s) k of Some b \<Rightarrow> Got b | None \<Rightarrow> GetErr)),
      s3_list = (\<lambda>prefix tok s. (s, Some (mem_page s prefix tok))),
      s3_delete = (\<lambda>k s. (bucket_remove k s, True)),
      s3_presign = (\<lambda>op k ttl. Some (''https://s3/'' @ k))\<rparr>"

lemma mem_s3_laws: "s3_laws mem_s3 bucket_objs (\<lambda>t. t)"
proof -
  have "bt_ok (bucket_objs s)" for s by transfer
  moreover have "bucket_objs (bucket_put k b s) = bt_insert k b (bucket_objs s)" for k b s by transfer simp
  moreover have "bucket_objs (bucket_remove k s) = bt_remove k (bucket_objs s)" for k s by transfer simp
  moreover have "\<exists>n. pg_keys (mem_page s prefix tok) = map Some (take n ks) \<and>
      unwrap_or (pg_truncated (mem_page s prefix tok)) False = (n < length ks) \<and>
      (n < length ks \<longrightarrow> 0 < n \<and> pg_next (mem_page s prefix tok) = Some (ks ! (n - 1)))"
    if "ks = rest_keys (bucket_objs s) prefix tok" for ks prefix tok s
    by (rule exI [of _ 2]) (simp add: mem_page_def Let_def that [symmetric])
  ultimately show ?thesis
    by (auto simp: s3_laws_def mem_s3_def option.map_ident Let_def split: option.splits)
qed

lemma delete_prefix_spec:
  assumes "s3_laws S objs after"
  shows "\<exists>s' r. delete_prefix S sid s = Some (s', r) \<and>
    (case r of
       Inr d \<Rightarrow> objs s' = outside (session_prefix sid) (objs s) \<and>
         d = word_of_nat (length (rest_keys (objs s) (session_prefix sid) None))
     | Inl e \<Rightarrow> e = Io \<and> outside (session_prefix sid) (objs s') = outside (session_prefix sid) (objs s))"
proof -
  from delete_loop_spec [OF assms, of "session_prefix sid" 0 None s] obtain s' r where
    "delete_prefix S sid s = Some (s', r)"
    "case r of Inr d \<Rightarrow> d = 0 + word_of_nat (length (rest_keys (objs s) (session_prefix sid) None)) \<and>
         objs s' = filter (\<lambda>p. fst p \<notin> set (rest_keys (objs s) (session_prefix sid) None)) (objs s)
     | Inl e \<Rightarrow> e = Io \<and> outside (session_prefix sid) (objs s') = outside (session_prefix sid) (objs s)"
    by (auto simp: delete_prefix_def Let_def)
  then show ?thesis unfolding filter_rest_keys by (auto split: sum.splits)
qed

lemma list_sessions_spec:
  assumes "s3_laws S objs after"
  shows "\<exists>s' r. list_sessions S s = Some (s', r) \<and> objs s' = objs s \<and>
    (case r of
       Inr ss \<Rightarrow> sorted ss \<and> distinct ss \<and>
         set ss = {sid. \<exists>k \<in> fst ` set (objs s). starts_with k ''sessions/'' \<and> key_session k = Some sid}
     | Inl e \<Rightarrow> e = Io)"
proof -
  from list_loop_spec [OF assms, of "[]" None s] obtain s' r where
    r: "list_loop S [] None s = Some (s', r)" "objs s' = objs s"
      "r = Inl Io \<or> r = Inr (List.map_filter key_session (rest_keys (objs s) ''sessions/'' None))" by auto
  have elems: "set (List.map_filter key_session (rest_keys (objs s) ''sessions/'' None)) =
      {sid. \<exists>k \<in> fst ` set (objs s). starts_with k ''sessions/'' \<and> key_session k = Some sid}"
    by (force simp: List.map_filter_def rest_keys_def)
  have "distinct (remdups_adj (sort xs))" for xs :: "string list"
    by (simp add: sorted_remdups_adj_distinct)
  with r elems show ?thesis
    by (auto simp: list_sessions_def pbind_def sorted_remdups_adj)
qed

subsection \<open>Properties\<close>

text \<open>
  C12. The append-only log over an object store without append: appending returns; on success
  the log of the session is the old log and the new line, under the next sequence number; on
  failure the error is a retryable one and the log is the old one or the one with the line. In
  both cases the log of every other session is what it was.
\<close>

theorem append_line_extends_log:
  assumes "s3_laws S objs after" and "has_log (objs s) sid ls" and "Suc (length ls) < 2 ^ 64"
    and "to_vec L v = Some b"
  shows "\<exists>s' r. append_line L S sid v s = Some (s', r) \<and>
    (case r of
       Inr seq \<Rightarrow> seq = next_seq ls \<and> has_log (objs s') sid (ls @ [b])
     | Inl e \<Rightarrow> retryable e \<and> (has_log (objs s') sid ls \<or> has_log (objs s') sid (ls @ [b]))) \<and>
    (\<forall>sid' ls'. sid_ok sid \<and> sid_ok sid' \<and> sid' \<noteq> sid \<and> has_log (objs s) sid' ls' \<longrightarrow> has_log (objs s') sid' ls')"
proof -
  have h: "s3_holds S objs after s sid ls" using assms(1,2) by (simp add: s3_holds_def)
  from hoareE [OF s3c.append_spec [OF assms(4,3)] h] obtain s' r where r: "append_line L S sid v s = Some (s', r)"
    "case r of Inr seq \<Rightarrow> seq = next_seq ls \<and> s3_holds S objs after s' sid (ls @ [b])
     | Inl e \<Rightarrow> retryable e \<and> (s3_holds S objs after s' sid ls \<or> s3_holds S objs after s' sid (ls @ [b]))"
    unfolding s3_store_def by auto
  moreover have "has_log (objs s') sid' ls'"
    if "sid_ok sid" "sid_ok sid'" "sid' \<noteq> sid" "has_log (objs s) sid' ls'" for sid' ls'
    using s3c.append_frame [OF that(1-3) _ h assms(4,3)] that(4) assms(1) r(1) by (simp add: s3_holds_def s3_store_def)
  ultimately show ?thesis by (auto simp: s3_holds_def split: sum.splits)
qed

text \<open>
  Reading gives the log back: when the log of a session holds the printed events, reading
  it returns, and on success parsing the bytes line by line gives exactly those events in order.
\<close>

theorem read_log_roundtrip:
  assumes "s3_laws S objs after" and "serde_laws L" and "has_log (objs s) sid (print_log L evs)"
    and "\<forall>e \<in> set evs. jwf e \<and> no_float e"
  shows "\<exists>s' r. read_log S sid s = Some (s', r) \<and> objs s' = objs s \<and>
    (case r of Inr out \<Rightarrow> log_values L out = evs | Inl e \<Rightarrow> True)"
proof -
  from hoareE [OF hoare_read_log [OF assms(1,3)] refl] obtain s' r where
    "read_log S sid s = Some (s', r)" "objs s' = objs s"
    "case r of Inr out \<Rightarrow> out = log_bytes (print_log L evs) | Inl e \<Rightarrow> True" by blast
  with log_values_print [OF assms(2,4)] show ?thesis by (auto split: sum.splits)
qed

text \<open>
  Hard delete is complete and confined: deleting a session's prefix returns for any number
  of pages; on success no object under the prefix is left, the count is the number of objects
  removed, and every object outside the prefix is untouched; on failure, too, nothing outside
  the prefix is touched.
\<close>

theorem delete_prefix_hard_delete:
  assumes "s3_laws S objs after"
  shows "\<exists>s' r. delete_prefix S sid s = Some (s', r) \<and>
    (case r of
       Inr d \<Rightarrow> objs s' = outside (session_prefix sid) (objs s) \<and>
         d = word_of_nat (length (rest_keys (objs s) (session_prefix sid) None))
     | Inl e \<Rightarrow> e = Io \<and> outside (session_prefix sid) (objs s') = outside (session_prefix sid) (objs s))"
  by (rule delete_prefix_spec [OF assms])

text \<open>
  The session list is exact: it returns, and on success it is sorted, without repetition,
  and names exactly the first path segments of the keys under \<open>sessions/\<close>; so every session
  that has an object is in it.
\<close>

theorem list_sessions_exact:
  assumes "s3_laws S objs after"
  shows "\<exists>s' r. list_sessions S s = Some (s', r) \<and> objs s' = objs s \<and>
    (case r of
       Inr ss \<Rightarrow> sorted ss \<and> distinct ss \<and>
         set ss = {sid. \<exists>k \<in> fst ` set (objs s). starts_with k ''sessions/'' \<and> key_session k = Some sid}
     | Inl e \<Rightarrow> e = Io)"
  by (rule list_sessions_spec [OF assms])

subsection \<open>Witnesses\<close>

lemma empty_has_log: "has_log (bucket_objs bucket_empty) sid []"
  by (simp add: has_log_def bucket_objs_def bucket_empty.rep_eq [unfolded bucket_objs_def] bucket_objs.rep_eq bucket_empty.rep_eq)

lemma append_line_extends_log_witness:
  "\<exists>s' r. append_line ref_libs mem_s3 ''s1'' JNull bucket_empty = Some (s', r) \<and>
    (case r of
       Inr seq \<Rightarrow> seq = next_seq [] \<and> has_log (bucket_objs s') ''s1'' ([] @ [''n''])
     | Inl e \<Rightarrow> retryable e \<and> (has_log (bucket_objs s') ''s1'' [] \<or> has_log (bucket_objs s') ''s1'' ([] @ [''n'']))) \<and>
    (\<forall>sid' ls'. sid_ok ''s1'' \<and> sid_ok sid' \<and> sid' \<noteq> ''s1'' \<and> has_log (bucket_objs bucket_empty) sid' ls' \<longrightarrow>
       has_log (bucket_objs s') sid' ls')"
  by (rule append_line_extends_log [OF mem_s3_laws empty_has_log]) (simp_all add: ref_libs_def)

lemma read_log_roundtrip_witness:
  "\<exists>s' r. read_log mem_s3 ''s1'' bucket_empty = Some (s', r) \<and> bucket_objs s' = bucket_objs bucket_empty \<and>
    (case r of Inr out \<Rightarrow> log_values ref_libs out = [] | Inl e \<Rightarrow> True)"
  by (rule read_log_roundtrip [OF mem_s3_laws ref_serde]) (simp_all add: print_log_def empty_has_log)

lemma delete_prefix_hard_delete_witness:
  "\<exists>s' r. delete_prefix mem_s3 ''s1'' bucket_empty = Some (s', r) \<and>
    (case r of
       Inr d \<Rightarrow> bucket_objs s' = outside (session_prefix ''s1'') (bucket_objs bucket_empty) \<and>
         d = word_of_nat (length (rest_keys (bucket_objs bucket_empty) (session_prefix ''s1'') None))
     | Inl e \<Rightarrow> e = Io \<and>
         outside (session_prefix ''s1'') (bucket_objs s') = outside (session_prefix ''s1'') (bucket_objs bucket_empty))"
  by (rule delete_prefix_hard_delete [OF mem_s3_laws])

lemma list_sessions_exact_witness:
  "\<exists>s' r. list_sessions mem_s3 bucket_empty = Some (s', r) \<and> bucket_objs s' = bucket_objs bucket_empty \<and>
    (case r of
       Inr ss \<Rightarrow> sorted ss \<and> distinct ss \<and>
         set ss = {sid. \<exists>k \<in> fst ` set (bucket_objs bucket_empty). starts_with k ''sessions/'' \<and> key_session k = Some sid}
     | Inl e \<Rightarrow> e = Io)"
  by (rule list_sessions_exact [OF mem_s3_laws])

end
