(* ===== verification/MemError.thy ===== *)
theory MemError
  imports Chain Index StoreSpec
begin

text \<open>
  \<open>crates/memoryd/src/error.rs\<close>: the error taxonomy of the memory service, and the conversions
  the question-mark operator applies. The texts of messages are left out where they only wrap
  the message of an inner error.
\<close>

datatype authz_err = MissingToken | InvalidToken | Forbidden | AuthzNotFound | AuthzUpstream

datatype memoryd_error =
    StoreE store_err
  | IndexE index_err
  | AuthzE authz_err
  | ChainE chain_error
  | Invalid invalid_cause
  | IntegrityHold chain_error
  | SessionNotFound string
and invalid_cause =
    WriterClosed
  | WriterDroppedReply
  | BodyNotObject
  | BadChain chain_error
  | AppendRejected memoryd_error
  | AppendRetryable store_err

end
