(* ===== verification/Writer.thy ===== *)
theory Writer
  imports MemError
begin

text \<open>
  \<open>crates/memoryd/src/writer.rs\<close>: the single writer of a session's log, its recovery on wake and
  the registry of writers; \<open>owner_from_log\<close> of \<open>rebuild.rs\<close>. The services are a pair: the
  state behind the object store and the state behind Redis. A message carries the clock reading
  of the moment it is handled. \<open>None\<close> is a call that does not return.
\<close>

subsection \<open>Results and state\<close>

datatype append_result =
    Committed string u64
  | Duplicate string
  | Rejected memoryd_error
  | Retryable store_err

definition RECENT_HASHES :: nat where
  "RECENT_HASHES = 64"

record writer =
  w_tip :: string
  w_last_turn :: u64
  w_seen :: "string list"

text \<open>A clock reading: seconds and the RFC 3339 text.\<close>

type_synonym clock = "int \<times> string"

subsection \<open>Recovery\<close>

definition owner_from_log :: "json list \<Rightarrow> string option" where
  "owner_from_log vals =
     (case List.map_filter (\<lambda>v.
        if as_str (jidx v ''kind'') = Some ''note'' \<and> as_str (jidx v ''role'') = Some ''system''
        then as_str (jidx (jidx v ''meta'') ''owner'') else None) vals of
        ow # _ \<Rightarrow> Some ow | [] \<Rightarrow> None)"

definition max_turn :: "json list \<Rightarrow> u64" where
  "max_turn vals = fold max (map (\<lambda>v. unwrap_or (as_u64 (jidx v ''turn_id'')) 0) vals) 0"

definition replay_tip_from_log ::
    "libs \<Rightarrow> 's store_ops \<Rightarrow> 'r redis \<Rightarrow> clock \<Rightarrow> string \<Rightarrow> ('s \<times> 'r, memoryd_error, string \<times> u64 \<times> u64 \<times> u64) proc" where
  "replay_tip_from_log L St R clk sid =
     pbind (pmap_err StoreE (on_fst (st_read_log St sid))) (\<lambda>bytes.
     let vals = log_values L bytes in
     if vals = [] then pret (GENESIS, 0, 0, 0)
     else
       pbind (pof (map_err IntegrityHold (fsck L vals))) (\<lambda>(count, tip).
       let last_turn = max_turn vals in
       pbind (pmap_err StoreE (on_fst (st_max_seq St sid))) (\<lambda>m.
       let seq = unwrap_or m 0 in
       pmatch (on_snd (snapshot R (fst clk) sid)) (\<lambda>sn.
       let owner = (case sn of Inr _ \<Rightarrow> None | Inl _ \<Rightarrow> owner_from_log vals) in
       pbind (pmap_err IndexE (on_snd (heal R (fst clk) (snd clk) sid tip last_turn count seq owner))) (\<lambda>_.
       pret (tip, last_turn, count, seq))))))"

text \<open>The hash of the last line in the store log, if any.\<close>

definition last_line_hash :: "libs \<Rightarrow> 's store_ops \<Rightarrow> string \<Rightarrow> ('s \<times> 'r, unit, string option) proc" where
  "last_line_hash L St sid =
     pmatch (on_fst (st_read_log St sid)) (\<lambda>res.
     pret (case res of
        Inl _ \<Rightarrow> None
      | Inr bytes \<Rightarrow>
          (let ls = nonempty_lines bytes in
           if ls = [] then None
           else Option.bind (from_slice L (last ls)) (\<lambda>v. as_str (jidx v ''hash'')))))"

definition recover_tail ::
    "libs \<Rightarrow> 's store_ops \<Rightarrow> 'r redis \<Rightarrow> clock \<Rightarrow> string \<Rightarrow> ('s \<times> 'r, unit, string \<times> u64) proc" where
  "recover_tail L St R clk sid =
     pmatch (on_fst (st_max_seq St sid)) (\<lambda>mx.
     pbind (case mx of Inr (Some _) \<Rightarrow> last_line_hash L St sid | _ \<Rightarrow> pret None) (\<lambda>store_tail_hash.
     pmatch (on_snd (snapshot R (fst clk) sid)) (\<lambda>snap.
     case (case snap of Inr sn \<Rightarrow>
             (case sn_tip_hash sn of
                Some idx_tip \<Rightarrow> if store_tail_hash = Some idx_tip then Some (idx_tip, unwrap_or (sn_last_turn_id sn) 0) else None
              | None \<Rightarrow> None)
           | Inl _ \<Rightarrow> None) of
       Some trusted \<Rightarrow> pret trusted
     | None \<Rightarrow>
         pmatch (replay_tip_from_log L St R clk sid) (\<lambda>res.
         case res of
           Inr (tip, last_turn, _, _) \<Rightarrow> pret (tip, last_turn)
         | Inl _ \<Rightarrow> pret (GENESIS, 0)))))"

subsection \<open>The writer\<close>

definition compute_content_hash :: "libs \<Rightarrow> json \<Rightarrow> memoryd_error + string" where
  "compute_content_hash L body =
     rbind (ok_or (as_object body) (Invalid BodyNotObject)) (\<lambda>m.
     map_err (\<lambda>e. Invalid (BadChain e)) (compute_hash L (JObj (bt_remove ''hash'' (bt_remove ''prev_hash'' m)))))"

text \<open>\<open>push_back\<close>, then \<open>pop_front\<close> while the window is too long.\<close>

definition push_seen :: "string list \<Rightarrow> string \<Rightarrow> string list" where
  "push_seen seen h = (let s = seen @ [h] in drop (length s - RECENT_HASHES) s)"

text \<open>One message of the channel: the new services and state, and the reply.\<close>

definition writer_step ::
    "libs \<Rightarrow> 's store_ops \<Rightarrow> 'r redis \<Rightarrow> clock \<Rightarrow> string \<Rightarrow> json \<Rightarrow> writer \<Rightarrow> 's \<times> 'r \<Rightarrow>
     (('s \<times> 'r) \<times> writer \<times> append_result) option" where
  "writer_step L St R clk sid body w sr =
     (case compute_content_hash L body of
        Inl e \<Rightarrow> Some (sr, w, Rejected e)
      | Inr content_hash \<Rightarrow>
          if content_hash \<in> set (w_seen w) then Some (sr, w, Duplicate content_hash)
          else
            Option.bind (jset body ''prev_hash'' (JStr (w_tip w))) (\<lambda>body1.
            case compute_hash L body1 of
              Inl e \<Rightarrow> Some (sr, w, Rejected (ChainE e))
            | Inr h \<Rightarrow>
                Option.bind (jset body1 ''hash'' (JStr h)) (\<lambda>body2.
                Option.bind (on_fst (st_append_line St sid body2) sr) (\<lambda>(sr1, res).
                case res of
                  Inl e \<Rightarrow> Some (sr1, w, Retryable e)
                | Inr seq \<Rightarrow>
                    (let turn = unwrap_or (as_u64 (jidx body2 ''turn_id'')) (w_last_turn w) in
                     Option.bind (on_snd (advance R (fst clk) (snd clk) sid h turn seq) sr1) (\<lambda>(sr2, _).
                     Some (sr2,
                       \<lparr>w_tip = h, w_last_turn = max (w_last_turn w) turn, w_seen = push_seen (w_seen w) content_hash\<rparr>,
                       Committed h turn)))))))"

text \<open>The channel's messages in the order they are received, with the replies.\<close>

fun writer_run ::
    "libs \<Rightarrow> 's store_ops \<Rightarrow> 'r redis \<Rightarrow> string \<Rightarrow> (clock \<times> json) list \<Rightarrow> writer \<Rightarrow> 's \<times> 'r \<Rightarrow>
     (('s \<times> 'r) \<times> writer \<times> append_result list) option" where
  "writer_run L St R sid [] w sr = Some (sr, w, [])"
| "writer_run L St R sid ((clk, body) # msgs) w sr =
     Option.bind (writer_step L St R clk sid body w sr) (\<lambda>(sr1, w1, reply).
     map_option (\<lambda>(sr2, w2, replies). (sr2, w2, reply # replies)) (writer_run L St R sid msgs w1 sr1))"

definition fresh_writer :: "string \<times> u64 \<Rightarrow> writer" where
  "fresh_writer tail = \<lparr>w_tip = fst tail, w_last_turn = snd tail, w_seen = []\<rparr>"

definition session_writer ::
    "libs \<Rightarrow> 's store_ops \<Rightarrow> 'r redis \<Rightarrow> string \<Rightarrow> clock \<Rightarrow> (clock \<times> json) list \<Rightarrow> 's \<times> 'r \<Rightarrow>
     (('s \<times> 'r) \<times> writer \<times> append_result list) option" where
  "session_writer L St R sid clk msgs sr =
     Option.bind (recover_tail L St R clk sid sr) (\<lambda>(sr1, res).
     case res of
       Inr tail \<Rightarrow> writer_run L St R sid msgs (fresh_writer tail) sr1
     | Inl e \<Rightarrow> None)"

subsection \<open>The registry\<close>

text \<open>
  A handle per session, made on first use and kept; a handle stands for its task, whose state it
  carries here. An append takes the handle, wakes the writer when it is new, and handles the
  message.
\<close>

type_synonym registry = "string \<rightharpoonup> writer"

definition registry_append ::
    "libs \<Rightarrow> 's store_ops \<Rightarrow> 'r redis \<Rightarrow> clock \<Rightarrow> string \<Rightarrow> json \<Rightarrow> registry \<times> 's \<times> 'r \<Rightarrow>
     ((registry \<times> 's \<times> 'r) \<times> append_result) option" where
  "registry_append L St R clk sid body st =
     (let (reg, sr) = st in
      Option.bind
        (case reg sid of
           Some w \<Rightarrow> Some (sr, w)
         | None \<Rightarrow>
             Option.bind (recover_tail L St R clk sid sr) (\<lambda>(sr1, res).
             case res of Inr tail \<Rightarrow> Some (sr1, fresh_writer tail) | Inl e \<Rightarrow> None))
        (\<lambda>(sr1, w).
           map_option (\<lambda>(sr2, w', reply). ((reg(sid \<mapsto> w'), sr2), reply)) (writer_step L St R clk sid body w sr1)))"

end
