(* ===== verification/WriterSpec.thy ===== *)
theory WriterSpec
  imports Writer
begin

text \<open>
  Correctness of the session writer over the contract of the object store: what one message
  does to the log, what a run of messages leaves, what recovery finds. The lemmas are proved
  once in the contract's locale; the properties are their instances on the S3 implementation.
\<close>

subsection \<open>The index calls return\<close>

definition returns :: "('s, 'e, 'a) proc \<Rightarrow> bool" where
  "returns m \<longleftrightarrow> (\<forall>s. \<exists>s' r. m s = Some (s', r))"

lemma returnsE:
  assumes "returns m"
  obtains s' r where "m s = Some (s', r)"
  using assms unfolding returns_def by blast

lemma returns_basic [intro]: "returns (pret a)" "returns (perr e)" "returns (pof x)"
  by (simp_all add: returns_def)

lemma returns_pbind [intro]: "returns m \<Longrightarrow> (\<And>a. returns (f a)) \<Longrightarrow> returns (pbind m f)"
  unfolding returns_def pbind_def by (auto split: option.splits sum.splits)

lemma returns_icmd [intro]: "returns (icmd R ts cmd)"
  by (auto simp: returns_def icmd_def split: prod.splits)

lemma returns_icmd_as [intro]: "returns (icmd_as f R ts cmd)"
  unfolding icmd_as_def by blast

lemma returns_advance: "returns (advance R ts stamp sid h turn seq)"
  unfolding advance_def by blast

lemma returns_snapshot: "returns (snapshot R ts sid)"
  unfolding snapshot_def by (rule returns_pbind) auto

lemma returns_heal: "returns (heal R ts stamp sid tip last_turn cnt seq owner)"
  unfolding heal_def Let_def by (cases owner) auto

lemma on_snd_returns:
  assumes "returns m"
  obtains r' x where "on_snd m (s, r) = Some ((s, r'), x)"
  using returnsE [OF assms, of r] by (metis (no_types, lifting) on_snd_def case_prod_conv option.simps(9))

lemma on_fst_Some: "m s = Some (s', x) \<Longrightarrow> on_fst m (s, r) = Some ((s', r), x)"
  by (simp add: on_fst_def)

subsection \<open>Content identity and sealing\<close>

lemma content_hash_object:
  assumes "serde_laws L" "jwf (JObj m)" "obj_float_free (JObj m)"
  shows "\<exists>ch. compute_content_hash L (JObj m) = Inr ch"
proof -
  let ?m = "bt_remove ''hash'' (bt_remove ''prev_hash'' m)"
  have "jwf (JObj ?m)" by (intro jwf_remove assms(2))
  moreover have "obj_float_free (JObj (bt_remove ''hash'' ?m))" using assms(3) by (auto dest!: values_bt_remove)
  ultimately have "\<exists>b. canonical_bytes L (JObj ?m) = Inr b" using canonical_bytes_eq [OF assms(1)] by simp
  then show ?thesis by (auto simp: compute_content_hash_def compute_hash_def)
qed

lemma seal_object:
  assumes "serde_laws L" "jwf (JObj m)" "obj_float_free (JObj m)"
  shows "\<exists>h. compute_hash L (JObj (bt_insert ''prev_hash'' (JStr tip) m)) = Inr h \<and>
    seal L (JObj m) tip = Inr (JObj (bt_insert ''hash'' (JStr h) (bt_insert ''prev_hash'' (JStr tip) m)))"
proof -
  let ?m = "bt_insert ''prev_hash'' (JStr tip) m"
  have "jwf (JObj ?m)" by (rule jwf_insert [OF assms(2)]) simp
  moreover have "obj_float_free (JObj (bt_remove ''hash'' ?m))" using assms(3) by (auto dest!: values_bt_remove values_bt_insert)
  ultimately have "\<exists>b. canonical_bytes L (JObj ?m) = Inr b" using canonical_bytes_eq [OF assms(1)] by simp
  then show ?thesis by (auto simp: seal_Inr compute_hash_Inr)
qed

lemma seal_wf:
  assumes "seal L (JObj m) tip = Inr e" "jwf (JObj m)" "no_float (JObj m)"
  shows "jwf e" "no_float e"
proof -
  from assms(1) obtain h where e: "e = JObj (bt_insert ''hash'' (JStr h) (bt_insert ''prev_hash'' (JStr tip) m))" by (auto simp: seal_Inr)
  show "jwf e" unfolding e by (intro jwf_insert assms(2)) simp_all
  show "no_float e" unfolding e by (intro no_float_insert assms(3)) simp_all
qed

lemma body_turn:
  "bt_ok m \<Longrightarrow> as_u64 (jidx (JObj (bt_insert ''hash'' x (bt_insert ''prev_hash'' y m))) ''turn_id'') = u64_field (JObj m) ''turn_id''"
  by (cases "map_of m ''turn_id''") (simp_all add: jidx_def bt_simps)

text \<open>What a reply says of one message, given the lines of the log before and after it.\<close>

definition step_post ::
    "libs \<Rightarrow> (bytes list \<Rightarrow> bool) \<Rightarrow> json list \<Rightarrow> json \<Rightarrow> writer \<Rightarrow> writer \<Rightarrow> append_result \<Rightarrow> bool" where
  "step_post L log' evs body w w' reply \<longleftrightarrow>
     (\<exists>ch e h. compute_content_hash L body = Inr ch \<and> seal L body (w_tip w) = Inr e \<and> str_field e ''hash'' = Some h \<and>
       (case reply of
          Duplicate x \<Rightarrow> x = ch \<and> ch \<in> set (w_seen w) \<and> w' = w \<and> log' (print_log L evs)
        | Committed x t \<Rightarrow> x = h \<and> t = unwrap_or (u64_field body ''turn_id'') (w_last_turn w) \<and>
            ch \<notin> set (w_seen w) \<and> log' (print_log L (evs @ [e])) \<and>
            w' = \<lparr>w_tip = h, w_last_turn = max (w_last_turn w) t, w_seen = push_seen (w_seen w) ch\<rparr>
        | Retryable x \<Rightarrow> retryable x \<and> ch \<notin> set (w_seen w) \<and> w' = w \<and>
            (log' (print_log L evs) \<or> log' (print_log L (evs @ [e])))
        | Rejected x \<Rightarrow> False))"

lemma step_post_log:
  assumes "step_post L P evs body w w' reply"
  shows "\<exists>evs1. P (print_log L evs1) \<and> length evs1 \<le> Suc (length evs)"
proof -
  from assms obtain e where "P (print_log L evs) \<or> P (print_log L (evs @ [e]))"
    unfolding step_post_def by (cases reply) auto
  moreover have "length evs \<le> Suc (length evs)" "length (evs @ [e]) \<le> Suc (length evs)" by simp_all
  ultimately show ?thesis by blast
qed

lemma print_log_snoc: "to_vec L e = Some b \<Longrightarrow> print_log L (evs @ [e]) = print_log L evs @ [b]"
  by (simp add: print_log_def)

lemma length_print_log [simp]: "length (print_log L evs) = length evs"
  by (simp add: print_log_def)

text \<open>Bodies a client may send, and the hashes of the committed replies.\<close>

definition body_ok :: "json \<Rightarrow> bool" where
  "body_ok body \<longleftrightarrow> (\<exists>m. body = JObj m) \<and> jwf body \<and> no_float body"

definition committed :: "append_result list \<Rightarrow> string list" where
  "committed replies = List.map_filter (\<lambda>x. case x of Committed h t \<Rightarrow> Some h | _ \<Rightarrow> None) replies"

definition event_hash :: "json \<Rightarrow> string" where
  "event_hash e = unwrap_or (str_field e ''hash'') []"

text \<open>What a replay of the log reports: its tip, after healing the index, or the failure of a service.\<close>

definition replay_post ::
    "'r redis \<Rightarrow> clock \<Rightarrow> string \<Rightarrow> json list \<Rightarrow> memoryd_error + string \<times> u64 \<times> u64 \<times> u64 \<Rightarrow> bool" where
  "replay_post R clk sid evs res \<longleftrightarrow>
     (case res of
        Inr (tip, lt, c, q) \<Rightarrow> tip = log_tip evs \<and>
          (evs = [] \<or> (\<exists>ow r2 r3 u. heal R (fst clk) (snd clk) sid tip lt c q ow r2 = Some (r3, Inr u)))
      | Inl e \<Rightarrow> (\<exists>x. e = StoreE x) \<or> (\<exists>x. e = IndexE x))"

text \<open>
  What recovery reads before it trusts the index or replays the log; its state is the one a replay
  starts from. A replay that fails there, with the error of a service, is the only way to lose the tip.
\<close>

definition recover_probe ::
    "libs \<Rightarrow> 's store_ops \<Rightarrow> 'r redis \<Rightarrow> clock \<Rightarrow> string \<Rightarrow> ('s \<times> 'r, unit, unit) proc" where
  "recover_probe L St R clk sid =
     pmatch (on_fst (st_max_seq St sid)) (\<lambda>mx.
     pbind (case mx of Inr (Some _) \<Rightarrow> last_line_hash L St sid | _ \<Rightarrow> pret None) (\<lambda>_.
     pmatch (on_snd (snapshot R (fst clk) sid)) (\<lambda>_. pret ())))"

definition replay_lost ::
    "libs \<Rightarrow> 's store_ops \<Rightarrow> 'r redis \<Rightarrow> clock \<Rightarrow> string \<Rightarrow> 's \<times> 'r \<Rightarrow> 's \<times> 'r \<Rightarrow> bool" where
  "replay_lost L St R clk sid sr sr' \<longleftrightarrow>
     (\<exists>sr1 e. recover_probe L St R clk sid sr = Some (sr1, Inr ()) \<and> replay_tip_from_log L St R clk sid sr1 = Some (sr', Inl e) \<and>
        ((\<exists>x. e = StoreE x) \<or> (\<exists>x. e = IndexE x)))"

context object_store
begin

lemma step_spec:
  assumes "serde_laws L" and "jwf (JObj m)" and "obj_float_free (JObj m)"
    and "holds s sid (print_log L evs)" and "Suc (length evs) < 2 ^ 64"
  shows "\<exists>s' r' w' reply. writer_step L St R clk sid (JObj m) w (s, r) = Some ((s', r'), w', reply) \<and>
    step_post L (holds s' sid) evs (JObj m) w w' reply"
proof -
  have ok: "bt_ok m" using assms(2) by simp
  obtain ch where ch: "compute_content_hash L (JObj m) = Inr ch" using content_hash_object [OF assms(1-3)] by blast
  let ?b1 = "bt_insert ''prev_hash'' (JStr (w_tip w)) m"
  from seal_object [OF assms(1-3)] obtain h where h: "compute_hash L (JObj ?b1) = Inr h"
    and seal: "seal L (JObj m) (w_tip w) = Inr (JObj (bt_insert ''hash'' (JStr h) ?b1))" by blast
  let ?e = "JObj (bt_insert ''hash'' (JStr h) ?b1)"
  have hash: "str_field ?e ''hash'' = Some h" using ok by (simp add: bt_simps)
  show ?thesis
  proof (cases "ch \<in> set (w_seen w)")
    case True
    with ch seal hash assms(4) show ?thesis by (auto simp: writer_step_def step_post_def)
  next
    case new: False
    obtain b where b: "to_vec L ?e = Some b" using serde_total [OF assms(1)] by blast
    from hoareE [OF append_spec [OF b] assms(4)] assms(5) obtain s1 res where
      a: "st_append_line St sid ?e s = Some (s1, res)"
        "case res of Inr seq \<Rightarrow> seq = next_seq (print_log L evs) \<and> holds s1 sid (print_log L (evs @ [?e]))
         | Inl x \<Rightarrow> retryable x \<and> (holds s1 sid (print_log L evs) \<or> holds s1 sid (print_log L (evs @ [?e])))"
      unfolding print_log_snoc [OF b] by (auto simp: print_log_snoc [OF b])
    show ?thesis
    proof (cases res)
      case (Inl x)
      with a ch new h seal hash show ?thesis
        by (simp add: writer_step_def step_post_def on_fst_def)
    next
      case (Inr seq)
      let ?t = "unwrap_or (u64_field (JObj m) ''turn_id'') (w_last_turn w)"
      obtain r2 x where adv: "on_snd (advance R (fst clk) (snd clk) sid h ?t seq) (s1, r) = Some ((s1, r2), x)"
        by (rule on_snd_returns [OF returns_advance])
      have "writer_step L St R clk sid (JObj m) w (s, r) =
          Some ((s1, r2), \<lparr>w_tip = h, w_last_turn = max (w_last_turn w) ?t, w_seen = push_seen (w_seen w) ch\<rparr>, Committed h ?t)"
        using ch new h adv Inr
        by (simp add: writer_step_def on_fst_def a(1) body_turn [OF ok] Let_def del: jget.simps)
      moreover have "step_post L (holds s1 sid) evs (JObj m) w
          \<lparr>w_tip = h, w_last_turn = max (w_last_turn w) ?t, w_seen = push_seen (w_seen w) ch\<rparr> (Committed h ?t)"
        using ch seal hash new a(2) Inr by (simp add: step_post_def del: jget.simps)
      ultimately show ?thesis by blast
    qed
  qed
qed

lemma run_returns:
  assumes "serde_laws L" and "\<forall>x \<in> set msgs. body_ok (snd x)"
    and "holds s sid (print_log L evs)" and "length evs + length msgs < 2 ^ 64"
  shows "\<exists>s' r' w' replies. writer_run L St R sid msgs w (s, r) = Some ((s', r'), w', replies) \<and> length replies = length msgs"
  using assms(2-)
proof (induction msgs arbitrary: evs s r w)
  case (Cons msg msgs)
  obtain clk body where msg: "msg = (clk, body)" by (cases msg)
  with Cons.prems(1) obtain m where body: "body = JObj m" "jwf (JObj m)" "no_float (JObj m)" by (auto simp: body_ok_def)
  from step_spec [OF assms(1) body(2) no_float_obj_float_free [OF body(3)] Cons.prems(2)] Cons.prems(3)
  obtain s1 r1 w1 reply where st: "writer_step L St R clk sid body w (s, r) = Some ((s1, r1), w1, reply)"
    and post: "step_post L (holds s1 sid) evs body w w1 reply" unfolding body(1) by fastforce
  from step_post_log [OF post] obtain evs1 where evs1: "holds s1 sid (print_log L evs1)" "length evs1 \<le> Suc (length evs)"
    by blast
  have "length evs1 + length msgs < 2 ^ 64" using evs1(2) Cons.prems(3) by simp
  with Cons.IH [of s1 evs1 w1 r1] Cons.prems(1) evs1(1) st msg show ?case by auto
qed simp

lemma run_valid:
  assumes "serde_laws L" and "\<forall>x \<in> set msgs. body_ok (snd x)"
    and "map (\<lambda>x. u64_field (snd x) ''turn_id'') msgs = map Some ts" and "sorted (log_turn evs # ts)"
    and "holds s sid (print_log L evs)" and "length evs + length msgs < 2 ^ 64"
    and "valid_log L evs" and "w_tip w = log_tip evs"
  shows "\<exists>s' r' w' replies. writer_run L St R sid msgs w (s, r) = Some ((s', r'), w', replies) \<and>
    length replies = length msgs \<and>
    ((\<forall>x. Retryable x \<notin> set replies) \<longrightarrow>
     (\<exists>es. holds s' sid (print_log L (evs @ es)) \<and> valid_log L (evs @ es) \<and>
        w_tip w' = log_tip (evs @ es) \<and> map event_hash es = committed replies))"
  using assms(2-)
proof (induction msgs arbitrary: ts evs s r w)
  case Nil
  then show ?case by (auto simp: committed_def List.map_filter_simps intro!: exI [of _ "[]"])
next
  case (Cons msg msgs)
  obtain clk body where msg: "msg = (clk, body)" by (cases msg)
  with Cons.prems(1) obtain m where body: "body = JObj m" "jwf (JObj m)" "no_float (JObj m)" by (auto simp: body_ok_def)
  from Cons.prems(2) msg obtain t ts' where ts: "ts = t # ts'" "u64_field body ''turn_id'' = Some t"
    "map (\<lambda>x. u64_field (snd x) ''turn_id'') msgs = map Some ts'" by (cases ts) auto
  from step_spec [OF assms(1) body(2) no_float_obj_float_free [OF body(3)] Cons.prems(4)] Cons.prems(5)
  obtain s1 r1 w1 reply where st: "writer_step L St R clk sid body w (s, r) = Some ((s1, r1), w1, reply)"
    and post: "step_post L (holds s1 sid) evs body w w1 reply" unfolding body(1) by fastforce
  from post obtain ch e h where e: "seal L body (w_tip w) = Inr e" "str_field e ''hash'' = Some h"
    and p: "case reply of
          Duplicate x \<Rightarrow> x = ch \<and> ch \<in> set (w_seen w) \<and> w1 = w \<and> holds s1 sid (print_log L evs)
        | Committed x t \<Rightarrow> x = h \<and> t = unwrap_or (u64_field body ''turn_id'') (w_last_turn w) \<and>
            ch \<notin> set (w_seen w) \<and> holds s1 sid (print_log L (evs @ [e])) \<and>
            w1 = \<lparr>w_tip = h, w_last_turn = max (w_last_turn w) t, w_seen = push_seen (w_seen w) ch\<rparr>
        | Retryable x \<Rightarrow> retryable x \<and> ch \<notin> set (w_seen w) \<and> w1 = w \<and>
            (holds s1 sid (print_log L evs) \<or> holds s1 sid (print_log L (evs @ [e])))
        | Rejected x \<Rightarrow> False"
    unfolding step_post_def by blast
  have le: "log_turn evs \<le> t" using Cons.prems(3) ts(1) by simp
  have valid1: "valid_log L (evs @ [e])"
    using valid_log_seal [OF Cons.prems(6) _ _ _ le, of m e] e(1) ts(2) Cons.prems(7) body by simp
  have tip1: "log_tip (evs @ [e]) = h" using e(2) by (simp add: log_tip_def)
  have turn1: "log_turn (evs @ [e]) = t"
  proof -
    from valid1 obtain t' where "u64_field e ''turn_id'' = Some t'" unfolding valid_log_snoc by blast
    moreover have "jget e ''turn_id'' = map_of m ''turn_id''" using seal_fields(3) [OF e(1) [unfolded body(1)]] body(2) by simp
    ultimately show ?thesis using ts(2) body(1) by (simp add: log_turn_def)
  qed
  have rest: "\<forall>x \<in> set msgs. body_ok (snd x)" using Cons.prems(1) by simp
  show ?case
  proof (cases reply)
    case (Committed x t')
    with p have w1: "holds s1 sid (print_log L (evs @ [e]))" "w_tip w1 = h" "x = h" by auto
    have sort: "sorted (log_turn (evs @ [e]) # ts')" using Cons.prems(3) ts(1) turn1 by simp
    have len: "length (evs @ [e]) + length msgs < 2 ^ 64" using Cons.prems(5) by simp
    have "w_tip w1 = log_tip (evs @ [e])" using w1(2) tip1 by simp
    from Cons.IH [OF rest ts(3) sort w1(1) len valid1 this, of r1]
    obtain s' r' w' replies where run: "writer_run L St R sid msgs w1 (s1, r1) = Some ((s', r'), w', replies)"
      "length replies = length msgs"
      "(\<forall>x. Retryable x \<notin> set replies) \<longrightarrow> (\<exists>es. holds s' sid (print_log L ((evs @ [e]) @ es)) \<and> valid_log L ((evs @ [e]) @ es) \<and>
        w_tip w' = log_tip ((evs @ [e]) @ es) \<and> map event_hash es = committed replies)"
      by blast
    have "\<exists>es. holds s' sid (print_log L (evs @ es)) \<and> valid_log L (evs @ es) \<and> w_tip w' = log_tip (evs @ es) \<and>
        map event_hash es = committed (reply # replies)" if "\<forall>x. Retryable x \<notin> set (reply # replies)"
    proof -
      from run(3) that obtain es where "holds s' sid (print_log L (evs @ e # es))" "valid_log L (evs @ e # es)"
        "w_tip w' = log_tip (evs @ e # es)" "map event_hash es = committed replies" by auto
      then show ?thesis
        by (intro exI [of _ "e # es"]) (simp add: committed_def List.map_filter_simps Committed w1(3) event_hash_def e(2))
    qed
    with st run(1,2) msg show ?thesis by auto
  next
    case (Duplicate x)
    with p have w1: "holds s1 sid (print_log L evs)" "w1 = w" by auto
    have sort: "sorted (log_turn evs # ts')" using Cons.prems(3) ts(1) by simp
    have len: "length evs + length msgs < 2 ^ 64" using Cons.prems(5) by simp
    from Cons.IH [OF rest ts(3) sort w1(1) len Cons.prems(6), of w1 r1] Cons.prems(7) w1(2)
    obtain s' r' w' replies where run: "writer_run L St R sid msgs w1 (s1, r1) = Some ((s', r'), w', replies)"
      "length replies = length msgs"
      "(\<forall>x. Retryable x \<notin> set replies) \<longrightarrow> (\<exists>es. holds s' sid (print_log L (evs @ es)) \<and> valid_log L (evs @ es) \<and>
        w_tip w' = log_tip (evs @ es) \<and> map event_hash es = committed replies)"
      by blast
    moreover have "committed (reply # replies) = committed replies" by (simp add: committed_def List.map_filter_simps Duplicate)
    ultimately show ?thesis using st msg by auto
  next
    case (Retryable x)
    from step_post_log [OF post] obtain evs1 where evs1: "holds s1 sid (print_log L evs1)" "length evs1 \<le> Suc (length evs)"
      by blast
    have "length evs1 + length msgs < 2 ^ 64" using evs1(2) Cons.prems(5) by simp
    from run_returns [OF assms(1) rest evs1(1) this, of R w1 r1] obtain s' r' w' replies where
      run: "writer_run L St R sid msgs w1 (s1, r1) = Some ((s', r'), w', replies)" "length replies = length msgs" by blast
    have "writer_run L St R sid (msg # msgs) w (s, r) = Some ((s', r'), w', reply # replies)"
      using st msg run(1) by simp
    moreover have "length (reply # replies) = length (msg # msgs)" using run(2) by simp
    moreover have "\<not> (\<forall>y. Retryable y \<notin> set (reply # replies))" using Retryable by auto
    ultimately show ?thesis by blast
  next
    case (Rejected x)
    with p show ?thesis by simp
  qed
qed

lemma read_on_fst:
  assumes "holds s sid ls"
  obtains s' x where "on_fst (st_read_log St sid) (s, r) = Some ((s', r), x)" "holds s' sid ls"
    "case x of Inr out \<Rightarrow> out = log_bytes ls | Inl e \<Rightarrow> True"
  using hoareE [OF read_spec assms] by (metis on_fst_Some)

lemma max_seq_on_fst:
  assumes "holds s sid ls"
  obtains s' x where "on_fst (st_max_seq St sid) (s, r) = Some ((s', r), x)" "holds s' sid ls"
    "case x of Inr q \<Rightarrow> q = top_seq ls | Inl e \<Rightarrow> True"
  using hoareE [OF max_seq_spec assms] by (metis on_fst_Some)

lemma replay_spec:
  assumes "serde_laws L" and "holds s sid (print_log L evs)" and "valid_log L evs" and "\<forall>e \<in> set evs. jwf e \<and> no_float e"
  shows "\<exists>s' r' res. replay_tip_from_log L St R clk sid (s, r) = Some ((s', r'), res) \<and> holds s' sid (print_log L evs) \<and>
    replay_post R clk sid evs res"
proof -
  obtain s1 x where rd: "on_fst (st_read_log St sid) (s, r) = Some ((s1, r), x)" "holds s1 sid (print_log L evs)"
    "case x of Inr out \<Rightarrow> out = log_bytes (print_log L evs) | Inl e \<Rightarrow> True" by (rule read_on_fst [OF assms(2)])
  show ?thesis
  proof (cases x)
    case (Inl e)
    with rd show ?thesis by (simp add: replay_tip_from_log_def pbind_def pmap_err_def pmatch_def replay_post_def)
  next
    case (Inr out)
    with rd(3) log_values_print [OF assms(1,4)] have vals: "log_values L out = evs" by simp
    show ?thesis
    proof (cases "evs = []")
      case True
      with rd Inr vals show ?thesis
        by (simp add: replay_tip_from_log_def pbind_def pmap_err_def pmatch_def replay_post_def log_tip_def)
    next
      case ne: False
      have fs: "fsck L evs = Inr (of_nat (length evs), log_tip evs)" using assms(3) by (simp add: fsck_Inr)
      obtain s2 y where mx: "on_fst (st_max_seq St sid) (s1, r) = Some ((s2, r), y)" "holds s2 sid (print_log L evs)"
        by (rule max_seq_on_fst [OF rd(2)])
      show ?thesis
      proof (cases y)
        case (Inl e)
        with rd(1,2) Inr vals ne fs mx show ?thesis
          by (simp add: replay_tip_from_log_def pbind_def pmap_err_def pmatch_def replay_post_def Let_def)
      next
        case y: (Inr q)
        obtain r3 sn where sn: "on_snd (snapshot R (fst clk) sid) (s2, r) = Some ((s2, r3), sn)"
          by (rule on_snd_returns [OF returns_snapshot])
        let ?own = "case sn of Inr _ \<Rightarrow> None | Inl _ \<Rightarrow> owner_from_log evs"
        obtain r4 z where hl: "on_snd (heal R (fst clk) (snd clk) sid (log_tip evs) (max_turn evs) (of_nat (length evs)) (unwrap_or q 0) ?own) (s2, r3) = Some ((s2, r4), z)"
          by (rule on_snd_returns [OF returns_heal])
        have "replay_tip_from_log L St R clk sid (s, r) =
            Some ((s2, r4), map_err IndexE (rbind z (\<lambda>_. Inr (log_tip evs, max_turn evs, of_nat (length evs), unwrap_or q 0))))"
          using rd(1,2) Inr vals ne fs mx y sn hl
          by (cases z; cases sn) (simp_all add: replay_tip_from_log_def pbind_def pmap_err_def pmatch_def replay_post_def Let_def)
        moreover have "heal R (fst clk) (snd clk) sid (log_tip evs) (max_turn evs) (of_nat (length evs)) (unwrap_or q 0) ?own r3 = Some (r4, z)"
          using hl by (auto simp: on_snd_def)
        ultimately show ?thesis using mx(2) by (cases z) (simp_all add: replay_post_def, blast)
      qed
    qed
  qed
qed

lemma last_line_spec:
  assumes "serde_laws L" and "holds s sid (print_log L evs)" and "\<forall>e \<in> set evs. jwf e \<and> no_float e"
  shows "\<exists>s' x. last_line_hash L St sid (s, r) = Some ((s', r), Inr x) \<and> holds s' sid (print_log L evs) \<and>
    (\<forall>h. x = Some h \<longrightarrow> evs \<noteq> [] \<and> str_field (last evs) ''hash'' = Some h)"
proof -
  obtain s1 x where rd: "on_fst (st_read_log St sid) (s, r) = Some ((s1, r), x)" "holds s1 sid (print_log L evs)"
    "case x of Inr out \<Rightarrow> out = log_bytes (print_log L evs) | Inl e \<Rightarrow> True" by (rule read_on_fst [OF assms(2)])
  show ?thesis
  proof (cases x)
    case (Inl e)
    with rd show ?thesis by (simp add: last_line_hash_def pmatch_def)
  next
    case (Inr out)
    with rd(3) have lines: "nonempty_lines out = print_log L evs" using nonempty_lines_log [OF print_log_plain [OF assms(1)]] by simp
    show ?thesis
    proof (cases "evs = []")
      case True
      with rd Inr lines show ?thesis by (simp add: last_line_hash_def pmatch_def print_log_def)
    next
      case False
      obtain b where b: "to_vec L (last evs) = Some b" using serde_total [OF assms(1)] by blast
      have "last (print_log L evs) = b" "print_log L evs \<noteq> []" using False b by (simp_all add: print_log_def last_map)
      moreover have "from_slice L b = Some (last evs)" using serde_roundtrip [OF assms(1) _ _ b] assms(3) False by simp
      moreover have "as_str (jidx v ''hash'') = str_field v ''hash''" for v by (cases "jget v ''hash''") (simp_all add: jidx_def)
      ultimately show ?thesis using rd Inr lines False by (simp add: last_line_hash_def pmatch_def Let_def)
    qed
  qed
qed

lemma recover_spec:
  assumes "serde_laws L" and "holds s sid (print_log L evs)" and "valid_log L evs" and "\<forall>e \<in> set evs. jwf e \<and> no_float e"
  shows "\<exists>s' r' tip turn. recover_tail L St R clk sid (s, r) = Some ((s', r'), Inr (tip, turn)) \<and>
    holds s' sid (print_log L evs) \<and>
    (tip = log_tip evs \<or> tip = GENESIS \<and> turn = 0 \<and> replay_lost L St R clk sid (s, r) (s', r'))"
proof -
  obtain s1 mx where mx: "on_fst (st_max_seq St sid) (s, r) = Some ((s1, r), mx)" "holds s1 sid (print_log L evs)"
    by (rule max_seq_on_fst [OF assms(2)])
  have "\<exists>s2 th. (case mx of Inr (Some _) \<Rightarrow> last_line_hash L St sid | _ \<Rightarrow> pret None) (s1, r) = Some ((s2, r), Inr th) \<and>
      holds s2 sid (print_log L evs) \<and> (\<forall>h. th = Some h \<longrightarrow> evs \<noteq> [] \<and> str_field (last evs) ''hash'' = Some h)"
  proof (cases "\<exists>q. mx = Inr (Some q)")
    case True
    then show ?thesis using last_line_spec [OF assms(1) mx(2) assms(4), of r] by auto
  next
    case False
    then have "(case mx of Inr (Some _) \<Rightarrow> last_line_hash L St sid | _ \<Rightarrow> pret None) (s1, r) = pret None (s1, r)"
      by (auto split: sum.splits option.splits)
    with mx(2) show ?thesis by simp
  qed
  then obtain s2 th where th: "(case mx of Inr (Some _) \<Rightarrow> last_line_hash L St sid | _ \<Rightarrow> pret None) (s1, r) = Some ((s2, r), Inr th)"
    and h2: "holds s2 sid (print_log L evs)"
    and tail: "\<forall>h. th = Some h \<longrightarrow> evs \<noteq> [] \<and> str_field (last evs) ''hash'' = Some h"
    by blast
  obtain r3 sn where sn: "on_snd (snapshot R (fst clk) sid) (s2, r) = Some ((s2, r3), sn)"
    by (rule on_snd_returns [OF returns_snapshot])
  let ?trust = "case sn of Inr x \<Rightarrow>
             (case sn_tip_hash x of
                Some idx_tip \<Rightarrow> if th = Some idx_tip then Some (idx_tip, unwrap_or (sn_last_turn_id x) 0) else None
              | None \<Rightarrow> None)
           | Inl _ \<Rightarrow> None"
  show ?thesis
  proof (cases ?trust)
    case (Some tt)
    then have "th = Some (fst tt)" by (auto split: sum.splits option.splits if_splits)
    with tail have "fst tt = log_tip evs" by (simp add: log_tip_def)
    with mx(1) th sn Some h2 show ?thesis
      by (cases tt) (simp add: recover_tail_def pmatch_def pbind_def)
  next
    case None
    from replay_spec [OF assms(1) h2 assms(3,4), of R clk r3] obtain s4 r4 res where
      rp: "replay_tip_from_log L St R clk sid (s2, r3) = Some ((s4, r4), res)" "holds s4 sid (print_log L evs)"
        "replay_post R clk sid evs res" by blast
    have rec: "recover_tail L St R clk sid (s, r) =
        (case res of Inr (tip, last_turn, _, _) \<Rightarrow> pret (tip, last_turn) | Inl _ \<Rightarrow> pret (GENESIS, 0)) (s4, r4)"
      using mx(1) th sn None rp(1) by (simp add: recover_tail_def pmatch_def pbind_def)
    show ?thesis
    proof (cases res)
      case (Inl e)
      have "recover_probe L St R clk sid (s, r) = Some ((s2, r3), Inr ())"
        using mx(1) th sn by (simp add: recover_probe_def pmatch_def pbind_def)
      with Inl rp have "replay_lost L St R clk sid (s, r) (s4, r4)" by (simp add: replay_lost_def replay_post_def)
      with Inl rec rp show ?thesis by auto
    next
      case (Inr x)
      with rec rp show ?thesis by (cases x) (auto simp: replay_post_def)
    qed
  qed
qed

text \<open>Without Redis, recovery of a log that is not empty falls back to the genesis marker.\<close>

lemma recover_redis_down:
  assumes "serde_laws L" and "holds s sid (print_log L evs)" and "valid_log L evs" and "\<forall>e \<in> set evs. jwf e \<and> no_float e"
    and "evs \<noteq> []" and "\<And>cmd r. \<exists>r' e. rexec R Pooled (fst clk) cmd r = (r', Inl e)"
  shows "\<exists>s' r'. recover_tail L St R clk sid (s, r) = Some ((s', r'), Inr (GENESIS, 0)) \<and> holds s' sid (print_log L evs)"
proof -
  have icmd: "\<exists>r' e. icmd R (fst clk) cmd r = Some (r', Inl e)" for cmd r
    using assms(6) [of cmd r] by (auto simp: icmd_def)
  have snap: "\<exists>r' e. snapshot R (fst clk) sid r = Some (r', Inl e)" for r
    using icmd [of "Exists (session_key sid)" r] by (auto simp: snapshot_def icmd_as_def pbind_def)
  have heal: "\<exists>r' e. heal R (fst clk) st sid tip lt c q ow r = Some (r', Inl e)" for st tip lt c q ow r
  proof -
    let ?fs = "[(''tip_hash'', tip), (''last_turn_id'', show_u64 lt), (''event_count'', show_u64 c), (''seq'', show_u64 q),
        (''updated_at'', st)] @ (case ow of Some o1 \<Rightarrow> [(''owner'', o1), (''created_at'', st)] | None \<Rightarrow> [])"
    obtain r' e where "icmd R (fst clk) (HSet (session_key sid) ?fs) r = Some (r', Inl e)" using icmd by blast
    then show ?thesis by (simp add: heal_def Let_def pbind_def)
  qed
  have replay: "\<exists>s' r' e. replay_tip_from_log L St R clk sid (s, r) = Some ((s', r'), Inl e) \<and> holds s' sid (print_log L evs)"
    if h: "holds s sid (print_log L evs)" for s r
  proof -
    from replay_spec [OF assms(1) h assms(3,4), of R clk r] obtain s' r' res where
      rp: "replay_tip_from_log L St R clk sid (s, r) = Some ((s', r'), res)" "holds s' sid (print_log L evs)"
        "replay_post R clk sid evs res" by blast
    have "\<exists>e. res = Inl e"
    proof (cases res)
      case (Inr x)
      obtain tip lt c q where x: "x = (tip, lt, c, q)" by (cases x)
      from rp(3) Inr x obtain ow r2 r3 u where "heal R (fst clk) (snd clk) sid tip lt c q ow r2 = Some (r3, Inr u)"
        using assms(5) by (auto simp: replay_post_def)
      with heal [of "snd clk" tip lt c q ow r2] show ?thesis by auto
    qed simp
    with rp show ?thesis by blast
  qed
  obtain s1 mx where mx: "on_fst (st_max_seq St sid) (s, r) = Some ((s1, r), mx)" "holds s1 sid (print_log L evs)"
    by (rule max_seq_on_fst [OF assms(2)])
  have "\<exists>s2 th. (case mx of Inr (Some _) \<Rightarrow> last_line_hash L St sid | _ \<Rightarrow> pret None) (s1, r) = Some ((s2, r), Inr th) \<and>
      holds s2 sid (print_log L evs)"
  proof (cases "\<exists>q. mx = Inr (Some q)")
    case True
    then show ?thesis using last_line_spec [OF assms(1) mx(2) assms(4), of r] by auto
  next
    case False
    then have "(case mx of Inr (Some _) \<Rightarrow> last_line_hash L St sid | _ \<Rightarrow> pret None) (s1, r) = pret None (s1, r)"
      by (auto split: sum.splits option.splits)
    with mx(2) show ?thesis by simp
  qed
  then obtain s2 th where th: "(case mx of Inr (Some _) \<Rightarrow> last_line_hash L St sid | _ \<Rightarrow> pret None) (s1, r) = Some ((s2, r), Inr th)"
    and h2: "holds s2 sid (print_log L evs)" by blast
  obtain r3 e where sn: "on_snd (snapshot R (fst clk) sid) (s2, r) = Some ((s2, r3), Inl e)"
    using snap [of r] by (auto simp: on_snd_def)
  from replay [OF h2, of r3] mx(1) th sn show ?thesis
    by (auto simp: recover_tail_def pmatch_def pbind_def)
qed

end

subsection \<open>Stale tips\<close>

lemma fsck_stale_tip:
  assumes "valid_log L evs" and "str_field e ''prev_hash'' = Some tip" and "tip \<noteq> log_tip evs"
  shows "fsck L (evs @ [e]) = Inl (Torn (of_nat (length evs)))"
  using assms fsck_loop_valid [of L evs] by (simp add: fsck_def fsck_loop_append fsck_step_def)

lemma fsck_turn_back:
  assumes "valid_log L evs" and "seal L (JObj m) (log_tip evs) = Inr e" and "bt_ok m"
    and "u64_field (JObj m) ''turn_id'' = Some t" and "t < log_turn evs"
  shows "fsck L (evs @ [e]) = Inl (TurnRegression (of_nat (length evs)))"
proof -
  from seal_fields [OF assms(2,3)] obtain h where "str_field e ''prev_hash'' = Some (log_tip evs)"
    "str_field e ''hash'' = Some h" "compute_hash L e = Inr h" "u64_field e ''turn_id'' = Some t" using assms(4) by auto
  then show ?thesis
    using assms fsck_loop_valid [of L evs] by (simp add: fsck_def fsck_loop_append fsck_step_def)
qed

subsection \<open>The window of recent messages\<close>

lemma step_seen:
  assumes "writer_step L St R clk sid body w sr = Some (sr', w', reply)"
  shows "case reply of
      Committed h t \<Rightarrow> \<exists>ch. compute_content_hash L body = Inr ch \<and> w_seen w' = push_seen (w_seen w) ch
    | _ \<Rightarrow> w' = w \<and> (\<forall>x. reply = Duplicate x \<longrightarrow> sr' = sr)"
  using assms unfolding writer_step_def Let_def
  by (auto split: sum.splits if_splits option.splits bind_splits prod.splits)

definition seen_at :: "string \<Rightarrow> nat \<Rightarrow> string list \<Rightarrow> bool" where
  "seen_at ch n seen \<longleftrightarrow> (\<exists>pre post. seen = pre @ ch # post \<and> length post \<le> n)"

lemma seen_at_push: "seen_at ch n seen \<Longrightarrow> Suc n < RECENT_HASHES \<Longrightarrow> seen_at ch (Suc n) (push_seen seen x)"
proof -
  assume "seen_at ch n seen" and n: "Suc n < RECENT_HASHES"
  then obtain pre post where s: "seen = pre @ ch # post" "length post \<le> n" by (auto simp: seen_at_def)
  let ?k = "length (seen @ [x]) - RECENT_HASHES"
  have "?k \<le> length pre" using s n by simp
  then have "push_seen seen x = drop ?k pre @ ch # (post @ [x])" by (simp add: push_seen_def Let_def s)
  moreover have "length (post @ [x]) \<le> Suc n" using s(2) by simp
  ultimately show ?thesis unfolding seen_at_def by blast
qed

lemma seen_at_new: "seen_at ch 0 (push_seen seen ch)"
  by (auto simp: push_seen_def seen_at_def RECENT_HASHES_def Let_def)

lemma run_seen:
  assumes "writer_run L St R sid msgs w sr = Some (sr', w', replies)" and "seen_at ch n (w_seen w)"
    and "n + length (committed replies) < RECENT_HASHES"
  shows "seen_at ch (n + length (committed replies)) (w_seen w')"
  using assms
proof (induction msgs arbitrary: w sr n replies)
  case (Cons msg msgs)
  obtain clk body where msg: "msg = (clk, body)" by (cases msg)
  from Cons.prems(1) msg obtain sr1 w1 reply rs where st: "writer_step L St R clk sid body w sr = Some (sr1, w1, reply)"
    and run: "writer_run L St R sid msgs w1 sr1 = Some (sr', w', rs)" and rs: "replies = reply # rs"
    by (auto split: bind_splits)
  show ?case
  proof (cases reply)
    case (Committed h t)
    with rs have c: "length (committed replies) = Suc (length (committed rs))" by (simp add: committed_def List.map_filter_simps)
    from step_seen [OF st] Committed obtain x where "w_seen w1 = push_seen (w_seen w) x" by auto
    with seen_at_push [OF Cons.prems(2)] Cons.prems(3) c have "seen_at ch (Suc n) (w_seen w1)" by simp
    from Cons.IH [OF run this] c Cons.prems(3) show ?thesis by simp
  qed (use Cons step_seen [OF st] run rs in \<open>auto simp: committed_def List.map_filter_simps\<close>)
qed (auto simp: committed_def List.map_filter_simps)

subsection \<open>Properties\<close>

text \<open>
  C4. One message, one outcome. For any object body without floats and whatever state the
  writer is in, handling the message returns. The reply is a duplicate exactly when the content
  hash is in the window, and then the log and the writer are as before. Otherwise the body is
  sealed on the writer's tip and either committed, and then the log is the old log and the sealed
  event and the tip is its hash; or reported retryable, and then the writer is as before and the
  log is the old one or the one with the event.
\<close>

theorem writer_step_outcome:
  assumes "s3_laws S objs after" and "serde_laws L" and "jwf (JObj m)" and "obj_float_free (JObj m)"
    and "has_log (objs s) sid (print_log L evs)" and "Suc (length evs) < 2 ^ 64"
  shows "\<exists>s' r' w' reply. writer_step L (s3_store L S) R clk sid (JObj m) w (s, r) = Some ((s', r'), w', reply) \<and>
    step_post L (has_log (objs s') sid) evs (JObj m) w w' reply"
  using s3c.step_spec [OF assms(2-4), of S objs after s sid evs R clk w r] assms(1,5,6)
  by (simp add: s3_holds_def [abs_def])

text \<open>
  C3. The single writer keeps the log valid. A writer that wakes on a valid log, recovers its
  tip and handles messages whose turns do not go down from the last one always returns; and
  unless a store failure was reported on the way, the log is then the old log followed by exactly
  the committed events in the order of their replies, and it passes verification.
\<close>

theorem session_writer_keeps_log_valid:
  assumes "s3_laws S objs after" and "serde_laws L"
    and "has_log (objs s) sid (print_log L evs)" and "fsck L evs = Inr (n, tip)"
    and "\<forall>e \<in> set evs. jwf e \<and> no_float e"
    and "recover_tail L (s3_store L S) R clk sid (s, r) = Some (sr1, Inr (tip, turn))"
    and "\<forall>x \<in> set msgs. body_ok (snd x)"
    and "map (\<lambda>x. u64_field (snd x) ''turn_id'') msgs = map Some ts" and "sorted (log_turn evs # ts)"
    and "length evs + length msgs < 2 ^ 64"
  shows "\<exists>s' r' w' replies. session_writer L (s3_store L S) R sid clk msgs (s, r) = Some ((s', r'), w', replies) \<and>
    length replies = length msgs \<and>
    ((\<forall>x. Retryable x \<notin> set replies) \<longrightarrow>
     (\<exists>es. has_log (objs s') sid (print_log L (evs @ es)) \<and> map event_hash es = committed replies \<and>
        fsck L (evs @ es) = Inr (of_nat (length evs + length es), w_tip w')))"
proof -
  from assms(4) have v: "valid_log L evs" "tip = log_tip evs" by (auto simp: fsck_Inr)
  have h: "s3_holds S objs after s sid (print_log L evs)" using assms(1,3) by (simp add: s3_holds_def)
  obtain s1 r1 where sr1: "sr1 = (s1, r1)" by (cases sr1)
  from s3c.recover_spec [OF assms(2) h v(1) assms(5), of R clk r] assms(6) sr1
  have h1: "s3_holds S objs after s1 sid (print_log L evs)" by auto
  have "w_tip (fresh_writer (tip, turn)) = log_tip evs" using v(2) by (simp add: fresh_writer_def)
  from s3c.run_valid [OF assms(2,7,8,9) h1 assms(10) v(1) this, of R r1]
  obtain s' r' w' replies where run: "writer_run L (s3_store L S) R sid msgs (fresh_writer (tip, turn)) (s1, r1) = Some ((s', r'), w', replies)"
    "length replies = length msgs"
    "(\<forall>x. Retryable x \<notin> set replies) \<longrightarrow>
     (\<exists>es. s3_holds S objs after s' sid (print_log L (evs @ es)) \<and> valid_log L (evs @ es) \<and>
        w_tip w' = log_tip (evs @ es) \<and> map event_hash es = committed replies)"
    by blast
  have "session_writer L (s3_store L S) R sid clk msgs (s, r) = Some ((s', r'), w', replies)"
    using assms(6) sr1 run(1) by (simp add: session_writer_def)
  moreover have "\<exists>es. has_log (objs s') sid (print_log L (evs @ es)) \<and> map event_hash es = committed replies \<and>
        fsck L (evs @ es) = Inr (of_nat (length evs + length es), w_tip w')" if "\<forall>x. Retryable x \<notin> set replies"
    using run(3) that unfolding fsck_Inr s3_holds_def by (metis length_append)
  ultimately show ?thesis using run(2) by blast
qed

text \<open>
  C13. Recovery finds the tip of the log: on a valid log, recovery always returns and leaves the
  log as it is; its tip is the hash of the last event, whether it came from the index or from a
  replay. The only exception is that the replay of this recovery, in the state its own reads have
  left, failed with an error of the store or of the index; then the tip is the genesis marker.
\<close>

theorem recover_tail_finds_tip:
  assumes "s3_laws S objs after" and "serde_laws L"
    and "has_log (objs s) sid (print_log L evs)" and "valid_log L evs" and "\<forall>e \<in> set evs. jwf e \<and> no_float e"
  shows "\<exists>s' r' tip turn. recover_tail L (s3_store L S) R clk sid (s, r) = Some ((s', r'), Inr (tip, turn)) \<and>
    has_log (objs s') sid (print_log L evs) \<and>
    (tip = log_tip evs \<or>
     tip = GENESIS \<and> turn = 0 \<and>
       (\<exists>sr1 e. recover_probe L (s3_store L S) R clk sid (s, r) = Some (sr1, Inr ()) \<and>
          replay_tip_from_log L (s3_store L S) R clk sid sr1 = Some ((s', r'), Inl e) \<and>
          ((\<exists>x. e = StoreE x) \<or> (\<exists>x. e = IndexE x))))"
  using s3c.recover_spec [OF assms(2) _ assms(4,5), of S objs after s sid R clk r] assms(1,3)
  by (simp add: s3_holds_def replay_lost_def)

text \<open>
  C39. A Redis outage tears the log. When a session whose log is not empty wakes while Redis
  answers no command, recovery falls back to the genesis marker although the store holds the
  whole log; the first event committed then does not continue the chain, and the log fails
  verification at that event. The index is documented to be a cache whose failure costs latency
  and never data.
\<close>

theorem redis_outage_tears_log:
  assumes "s3_laws S objs after" and "serde_laws L" and "digest_laws L"
    and "has_log (objs s) sid (print_log L evs)" and "valid_log L evs" and "evs \<noteq> []"
    and "\<forall>e \<in> set evs. jwf e \<and> no_float e" and "body_ok body" and "Suc (length evs) < 2 ^ 64"
    and "\<forall>cmd r. \<exists>r' e. rexec R Pooled (fst clk) cmd r = (r', Inl e)"
  shows "\<exists>s' r' w' reply. session_writer L (s3_store L S) R sid clk [(clk', body)] (s, r) = Some ((s', r'), w', [reply]) \<and>
    (\<forall>h t. reply = Committed h t \<longrightarrow>
      (\<exists>e. has_log (objs s') sid (print_log L (evs @ [e])) \<and> fsck L (evs @ [e]) = Inl (Torn (of_nat (length evs)))))"
proof -
  have h: "s3_holds S objs after s sid (print_log L evs)" using assms(1,4) by (simp add: s3_holds_def)
  from s3c.recover_redis_down [OF assms(2) h assms(5,7,6), of R clk r] assms(10) obtain s1 r1 where
    rec: "recover_tail L (s3_store L S) R clk sid (s, r) = Some ((s1, r1), Inr (GENESIS, 0))"
      "s3_holds S objs after s1 sid (print_log L evs)" by blast
  from assms(8) obtain m where m: "body = JObj m" "jwf (JObj m)" "no_float (JObj m)" by (auto simp: body_ok_def)
  let ?w = "fresh_writer (GENESIS, 0)"
  from s3c.step_spec [OF assms(2) m(2) no_float_obj_float_free [OF m(3)] rec(2) assms(9), of R clk' ?w r1] obtain s' r' w' reply where
    st: "writer_step L (s3_store L S) R clk' sid body ?w (s1, r1) = Some ((s', r'), w', reply)"
      "step_post L (s3_holds S objs after s' sid) evs body ?w w' reply" unfolding m(1) by blast
  have "\<exists>e. has_log (objs s') sid (print_log L (evs @ [e])) \<and> fsck L (evs @ [e]) = Inl (Torn (of_nat (length evs)))"
    if c: "reply = Committed h t" for h t
  proof -
    from st(2) c obtain e where e: "seal L body GENESIS = Inr e" "s3_holds S objs after s' sid (print_log L (evs @ [e]))"
      unfolding step_post_def by (auto simp: fresh_writer_def)
    have "bt_ok m" using m(2) by simp
    then have "str_field e ''prev_hash'' = Some GENESIS" using seal_fields(1) [of L m GENESIS e] e(1) m(1) by blast
    from fsck_stale_tip [OF assms(5) this] valid_log_tip_nonempty [OF assms(5,6,3)] e(2) show ?thesis
      by (auto simp: s3_holds_def)
  qed
  moreover have "session_writer L (s3_store L S) R sid clk [(clk', body)] (s, r) = Some ((s', r'), w', [reply])"
    using st(1) rec(1) by (simp add: session_writer_def)
  ultimately show ?thesis by blast
qed

text \<open>
  A stale tip tears the chain: whenever the writer's tip is not the tip of the log in the
  store (the log was hard-deleted under a live writer, or an append that was reported failed had
  been written), a committed message leaves a log that fails verification at that very event.
\<close>

theorem stale_tip_tears_log:
  assumes "s3_laws S objs after" and "serde_laws L" and "has_log (objs s) sid (print_log L evs)"
    and "valid_log L evs" and "body_ok body" and "Suc (length evs) < 2 ^ 64" and "w_tip w \<noteq> log_tip evs"
    and "writer_step L (s3_store L S) R clk sid body w (s, r) = Some ((s', r'), w', Committed h t)"
  shows "\<exists>e. has_log (objs s') sid (print_log L (evs @ [e])) \<and> fsck L (evs @ [e]) = Inl (Torn (of_nat (length evs)))"
proof -
  have hold: "s3_holds S objs after s sid (print_log L evs)" using assms(1,3) by (simp add: s3_holds_def)
  from assms(5) obtain m where m: "body = JObj m" "jwf (JObj m)" "no_float (JObj m)" by (auto simp: body_ok_def)
  from s3c.step_spec [OF assms(2) m(2) no_float_obj_float_free [OF m(3)] hold assms(6), of R clk w r] assms(8)
  have "step_post L (s3_holds S objs after s' sid) evs body w w' (Committed h t)" unfolding m(1) by auto
  then obtain e where e: "seal L body (w_tip w) = Inr e" "s3_holds S objs after s' sid (print_log L (evs @ [e]))"
    unfolding step_post_def by auto
  have "bt_ok m" using m(2) by simp
  then have "str_field e ''prev_hash'' = Some (w_tip w)" using seal_fields(1) [of L m "w_tip w" e] e(1) m(1) by blast
  from fsck_stale_tip [OF assms(4) this assms(7)] e(2) show ?thesis by (auto simp: s3_holds_def)
qed

text \<open>
  The writer does not check turns: a body whose turn is below the last one of the log is
  committed like any other, and the log then fails verification with a turn regression, which
  puts the session on integrity hold.
\<close>

theorem writer_commits_turn_regression:
  assumes "s3_laws S objs after" and "serde_laws L" and "has_log (objs s) sid (print_log L evs)"
    and "valid_log L evs" and "body_ok body" and "Suc (length evs) < 2 ^ 64" and "w_tip w = log_tip evs"
    and "u64_field body ''turn_id'' = Some t" and "t < log_turn evs"
    and "writer_step L (s3_store L S) R clk sid body w (s, r) = Some ((s', r'), w', reply)"
  shows "\<not> (\<exists>x. reply = Rejected x) \<and>
    (\<forall>h t'. reply = Committed h t' \<longrightarrow>
      (\<exists>e. has_log (objs s') sid (print_log L (evs @ [e])) \<and> fsck L (evs @ [e]) = Inl (TurnRegression (of_nat (length evs)))))"
proof -
  have hold: "s3_holds S objs after s sid (print_log L evs)" using assms(1,3) by (simp add: s3_holds_def)
  from assms(5) obtain m where m: "body = JObj m" "jwf (JObj m)" "no_float (JObj m)" by (auto simp: body_ok_def)
  from s3c.step_spec [OF assms(2) m(2) no_float_obj_float_free [OF m(3)] hold assms(6), of R clk w r] assms(10)
  have post: "step_post L (s3_holds S objs after s' sid) evs body w w' reply" unfolding m(1) by auto
  have "\<exists>e. has_log (objs s') sid (print_log L (evs @ [e])) \<and> fsck L (evs @ [e]) = Inl (TurnRegression (of_nat (length evs)))"
    if "reply = Committed h t'" for h t'
  proof -
    from post that obtain e where e: "seal L body (log_tip evs) = Inr e" "s3_holds S objs after s' sid (print_log L (evs @ [e]))"
      unfolding step_post_def assms(7) by auto
    have "bt_ok m" using m(2) by simp
    from fsck_turn_back [OF assms(4) _ this _ assms(9)] e assms(8) m(1) show ?thesis by (auto simp: s3_holds_def)
  qed
  with post show ?thesis unfolding step_post_def by auto
qed

text \<open>
  A retried message is not logged twice: once a body has been committed, the same content
  sent again is answered as a duplicate and touches neither the store nor the index, as long as
  fewer than 64 other messages were committed in between, whatever their replies were otherwise.
\<close>

theorem retry_is_duplicate:
  assumes "writer_step L St R clk sid body w sr = Some (sr1, w1, Committed h t)"
    and "writer_run L St R sid msgs w1 sr1 = Some (sr2, w2, replies)"
    and "length (committed replies) < RECENT_HASHES"
    and "compute_content_hash L body' = compute_content_hash L body"
  shows "\<exists>ch. compute_content_hash L body = Inr ch \<and>
    writer_step L St R clk' sid body' w2 sr2 = Some (sr2, w2, Duplicate ch)"
proof -
  from step_seen [OF assms(1)] obtain ch where ch: "compute_content_hash L body = Inr ch" "w_seen w1 = push_seen (w_seen w) ch" by auto
  have "seen_at ch (length (committed replies)) (w_seen w2)"
    using run_seen [OF assms(2), of ch 0] seen_at_new ch(2) assms(3) by simp
  then have "ch \<in> set (w_seen w2)" by (auto simp: seen_at_def)
  with ch(1) assms(4) show ?thesis by (simp add: writer_step_def)
qed

subsection \<open>Witnesses\<close>

abbreviation srv :: "bucket store_ops" where "srv \<equiv> s3_store ref_libs mem_s3"
abbreviation rds :: "mem redis" where "rds \<equiv> mem_redis True"

text \<open>A bucket that holds the log of one sealed event.\<close>

definition bucket1 :: bucket where
  "bucket1 = bucket_put (ev_key ''s1'' 1) (the (to_vec ref_libs sealed0)) bucket_empty"

definition body_back :: json where
  "body_back = JObj [(''text'', JStr ''c''), (''turn_id'', ju64 0)]"

lemma bucket1_log: "has_log (bucket_objs bucket1) ''s1'' (print_log ref_libs [sealed0])"
proof -
  have "bucket_objs bucket1 = bt_insert (ev_key ''s1'' 1) (the (to_vec ref_libs sealed0)) (bucket_objs bucket_empty)"
    unfolding bucket1_def by transfer simp
  moreover have "has_log (bt_insert (ev_key ''s1'' (next_seq [])) (the (to_vec ref_libs sealed0)) (bucket_objs bucket_empty)) ''s1''
      ([] @ [the (to_vec ref_libs sealed0)])"
    by (rule has_log_append [OF s3_objs_ok [OF mem_s3_laws] empty_has_log]) simp
  ultimately show ?thesis by (simp add: print_log_def next_seq_def)
qed

lemma sealed0_facts: "jwf sealed0" "no_float sealed0" "valid_log ref_libs [sealed0]" "log_tip [sealed0] = tip0"
proof -
  show "jwf sealed0" "no_float sealed0" by code_simp+
  show "valid_log ref_libs [sealed0]" "log_tip [sealed0] = tip0" using fsck_sealed0 by (auto simp: fsck_Inr)
qed

lemma bodies_ok: "body_ok (JObj body0)" "body_ok (JObj body1)" "body_ok body_back"
proof -
  have "jwf (JObj body0)" "no_float (JObj body0)" "jwf (JObj body1)" "no_float (JObj body1)"
    "jwf body_back" "no_float body_back" by code_simp+
  then show "body_ok (JObj body0)" "body_ok (JObj body1)" "body_ok body_back" by (auto simp: body_ok_def body_back_def)
qed

definition is_committed :: "(('s \<times> 'r) \<times> writer \<times> append_result) option \<Rightarrow> bool" where
  "is_committed x = (case x of Some (sr, w, Committed h t) \<Rightarrow> True | _ \<Rightarrow> False)"

lemma is_committedE:
  assumes "is_committed x"
  obtains s' r' w' h t where "x = Some ((s', r'), w', Committed h t)"
proof (cases x)
  case (Some y)
  obtain s' r' w' reply where y: "y = ((s', r'), w', reply)" by (cases y) auto
  with Some assms that show ?thesis by (cases reply) (auto simp: is_committed_def)
qed (use assms in \<open>simp add: is_committed_def\<close>)

lemma writer_step_outcome_witness:
  "\<exists>s' r' w' reply. writer_step ref_libs srv rds (1, ''t'') ''s1'' (JObj body0) (fresh_writer (GENESIS, 0)) (bucket_empty, []) =
      Some ((s', r'), w', reply) \<and>
    step_post ref_libs (has_log (bucket_objs s') ''s1'') [] (JObj body0) (fresh_writer (GENESIS, 0)) w' reply"
proof (rule writer_step_outcome [OF mem_s3_laws ref_serde])
  show "jwf (JObj body0)" "obj_float_free (JObj body0)" by code_simp+
qed (simp_all add: print_log_def empty_has_log)

lemma session_writer_keeps_log_valid_witness:
  "\<exists>s' r' w' replies. session_writer ref_libs srv rds ''s1'' (1, ''t'') [((2, ''u''), JObj body0)] (bucket_empty, []) =
      Some ((s', r'), w', replies) \<and>
    length replies = length [((2 :: int, ''u''), JObj body0)] \<and>
    ((\<forall>x. Retryable x \<notin> set replies) \<longrightarrow>
     (\<exists>es. has_log (bucket_objs s') ''s1'' (print_log ref_libs ([] @ es)) \<and> map event_hash es = committed replies \<and>
        fsck ref_libs ([] @ es) = Inr (of_nat (length ([] :: json list) + length es), w_tip w')))"
proof -
  have h: "s3_holds mem_s3 bucket_objs (\<lambda>t. t) bucket_empty ''s1'' (print_log ref_libs [])"
    by (simp add: s3_holds_def mem_s3_laws empty_has_log print_log_def)
  from s3c.recover_spec [OF ref_serde h valid_log_Nil, of rds "(1, ''t'')" "[]"] obtain sr1 turn where
    rec: "recover_tail ref_libs srv rds (1, ''t'') ''s1'' (bucket_empty, []) = Some (sr1, Inr (GENESIS, turn))"
    by (auto simp: log_tip_def)
  have t: "map (\<lambda>x. u64_field (snd x) ''turn_id'') [((2 :: int, ''u''), JObj body0)] = map Some [1]" by code_simp
  show ?thesis
    by (rule session_writer_keeps_log_valid [OF mem_s3_laws ref_serde _ _ _ rec _ t, of "[]" 0])
      (simp_all add: print_log_def empty_has_log fsck_Inr log_tip_def log_turn_def bodies_ok)
qed

definition replayed0 where "replayed0 = (case recover_probe ref_libs srv rds (1, ''t'') ''s1'' (bucket1, []) of
  Some (sr, _) \<Rightarrow> replay_tip_from_log ref_libs srv rds (1, ''t'') ''s1'' sr | None \<Rightarrow> None)"

lemma recover_tail_finds_tip_witness:
  "\<exists>s' r' turn. recover_tail ref_libs srv rds (1, ''t'') ''s1'' (bucket1, []) = Some ((s', r'), Inr (log_tip [sealed0], turn)) \<and>
    has_log (bucket_objs s') ''s1'' (print_log ref_libs [sealed0])"
proof -
  have "(case replayed0 of Some (_, res) \<Rightarrow> is_ok res | None \<Rightarrow> False)" by code_simp
  with recover_tail_finds_tip [OF mem_s3_laws ref_serde bucket1_log, of rds "(1, ''t'')" "[]"] show ?thesis
    by (auto simp: replayed0_def sealed0_facts)
qed

lemma redis_outage_tears_log_witness:
  "\<exists>s' r' w' reply. session_writer ref_libs srv (mem_redis False) ''s1'' (1, ''t'') [((2, ''u''), JObj body1)] (bucket1, []) =
      Some ((s', r'), w', [reply]) \<and>
    (\<forall>h t. reply = Committed h t \<longrightarrow>
      (\<exists>e. has_log (bucket_objs s') ''s1'' (print_log ref_libs ([sealed0] @ [e])) \<and>
        fsck ref_libs ([sealed0] @ [e]) = Inl (Torn (of_nat (length [sealed0])))))"
  by (rule redis_outage_tears_log [OF mem_s3_laws ref_serde ref_digest_laws bucket1_log])
    (simp_all add: sealed0_facts bodies_ok mem_redis_def)

text \<open>The same run, evaluated: the event is committed, so the log is torn.\<close>

lemma redis_outage_commits:
  "(case session_writer ref_libs srv (mem_redis False) ''s1'' (1, ''t'') [((2, ''u''), JObj body1)] (bucket1, []) of
      Some (sr, w, [Committed h t]) \<Rightarrow> True | _ \<Rightarrow> False)"
  by code_simp

lemma stale_tip_tears_log_witness:
  "\<exists>s' e. has_log (bucket_objs s') ''s1'' (print_log ref_libs ([] @ [e])) \<and> fsck ref_libs ([] @ [e]) = Inl (Torn (of_nat (length ([] :: json list))))"
proof -
  have "is_committed (writer_step ref_libs srv rds (1, ''t'') ''s1'' (JObj body0) (fresh_writer (''blake3:x'', 0)) (bucket_empty, []))"
    by code_simp
  then obtain s' r' w' h t where st: "writer_step ref_libs srv rds (1, ''t'') ''s1'' (JObj body0) (fresh_writer (''blake3:x'', 0)) (bucket_empty, []) =
      Some ((s', r'), w', Committed h t)" by (rule is_committedE)
  have "\<exists>e. has_log (bucket_objs s') ''s1'' (print_log ref_libs ([] @ [e])) \<and> fsck ref_libs ([] @ [e]) = Inl (Torn (of_nat (length ([] :: json list))))"
    by (rule stale_tip_tears_log [OF mem_s3_laws ref_serde _ _ bodies_ok(1) _ _ st])
      (simp_all add: print_log_def empty_has_log fresh_writer_def log_tip_def GENESIS_def)
  then show ?thesis by blast
qed

lemma writer_commits_turn_regression_witness:
  "\<exists>s' e. has_log (bucket_objs s') ''s1'' (print_log ref_libs ([sealed0] @ [e])) \<and>
     fsck ref_libs ([sealed0] @ [e]) = Inl (TurnRegression (of_nat (length [sealed0])))"
proof -
  let ?w = "fresh_writer (tip0, 1)"
  have "is_committed (writer_step ref_libs srv rds (1, ''t'') ''s1'' body_back ?w (bucket1, []))"
    by code_simp
  then obtain s' r' w' h t where st: "writer_step ref_libs srv rds (1, ''t'') ''s1'' body_back ?w (bucket1, []) =
      Some ((s', r'), w', Committed h t)" by (rule is_committedE)
  have t: "u64_field body_back ''turn_id'' = Some 0" "0 < log_turn [sealed0]" by code_simp+
  have "w_tip ?w = log_tip [sealed0]" by (simp add: fresh_writer_def sealed0_facts)
  from writer_commits_turn_regression [OF mem_s3_laws ref_serde bucket1_log sealed0_facts(3) bodies_ok(3) _ this t st]
  show ?thesis by auto
qed

definition first0 :: "((bucket \<times> mem) \<times> writer \<times> append_result) option" where
  "first0 = writer_step ref_libs srv rds (1, ''t'') ''s1'' (JObj body0) (fresh_writer (GENESIS, 0)) (bucket_empty, [])"

lemma retry_is_duplicate_witness:
  "\<exists>ch. compute_content_hash ref_libs (JObj body0) = Inr ch \<and>
    writer_step ref_libs srv rds (9, ''v'') ''s1'' (JObj body0) (fst (snd (the first0))) (fst (the first0)) =
      Some (fst (the first0), fst (snd (the first0)), Duplicate ch)"
proof -
  have "is_committed first0" by code_simp
  then obtain s' r' w' h t where st: "first0 = Some ((s', r'), w', Committed h t)" by (rule is_committedE)
  show ?thesis
    unfolding st option.sel fst_conv snd_conv
    by (rule retry_is_duplicate [OF st [unfolded first0_def], of "[]" _ _ "[]"])
      (simp_all add: committed_def List.map_filter_simps RECENT_HASHES_def)
qed

end
