(* ===== verification/Registry.thy ===== *)
theory Registry
  imports Json
begin

text \<open>
  \<open>crates/orchestrator/src/registry.rs\<close>: the pod registry. It keeps every row twice, in a hash
  map and in an ordered map that snapshots read. \<open>Instant\<close> is the monotonic clock in nanoseconds.
  Run one after the other, the operations keep both copies equal and the fill within the
  capacity. Each operation takes two steps, though, the hash map first and the ordered map after
  its lock is released; the step relation at the end runs operations of several tasks
  interleaved.
\<close>

subsection \<open>State\<close>

type_synonym instant = int

datatype pod_phase = Booting | Ready | Draining | Dead

definition is_ready :: "pod_phase \<Rightarrow> bool" where
  "is_ready ph = (case ph of Ready \<Rightarrow> True | _ \<Rightarrow> False)"

record pod_state =
  ps_id :: string
  ps_addr :: string
  ps_cap :: u32
  ps_fill :: u32
  ps_versions :: "json option"
  ps_last_ping :: instant
  ps_state :: pod_phase
  ps_cooldown_until :: "instant option"
  ps_created_at :: instant

record pod_registry =
  pr_pods :: "string \<rightharpoonup> pod_state"
  pr_order :: "(string \<times> pod_state) list"

definition duration_since :: "instant \<Rightarrow> instant \<Rightarrow> int" where
  "duration_since now t = max 0 (now - t)"

definition PING_DEAD_AFTER :: int where
  "PING_DEAD_AFTER = 15 * 1000000000"

definition new_registry :: pod_registry where
  "new_registry = \<lparr>pr_pods = Map.empty, pr_order = []\<rparr>"

subsection \<open>Rows\<close>

text \<open>What each operation does to the row of its pod.\<close>

definition new_pod :: "instant \<Rightarrow> string \<Rightarrow> string \<Rightarrow> u32 \<Rightarrow> json option \<Rightarrow> pod_state" where
  "new_pod now pid addr cap versions =
     \<lparr>ps_id = pid, ps_addr = addr, ps_cap = cap, ps_fill = 0, ps_versions = versions, ps_last_ping = now,
      ps_state = Booting, ps_cooldown_until = None, ps_created_at = now\<rparr>"

definition ready_row :: "instant \<Rightarrow> pod_state \<Rightarrow> pod_state" where
  "ready_row now p = p\<lparr>ps_state := Ready, ps_last_ping := now\<rparr>"

definition ping_row :: "instant \<Rightarrow> u32 \<Rightarrow> pod_state \<Rightarrow> pod_state" where
  "ping_row now fill p = p\<lparr>ps_fill := min fill (ps_cap p), ps_last_ping := now\<rparr>"

definition assign_row :: "pod_state \<Rightarrow> pod_state" where
  "assign_row p = p\<lparr>ps_fill := min (ps_fill p + 1) (ps_cap p), ps_cooldown_until := None\<rparr>"

definition release_row :: "pod_state \<Rightarrow> pod_state" where
  "release_row p = p\<lparr>ps_fill := saturating_sub (ps_fill p) 1\<rparr>"

definition drain_row :: "pod_state \<Rightarrow> pod_state" where
  "drain_row p = p\<lparr>ps_state := Draining, ps_cooldown_until := None\<rparr>"

definition dead_row :: "pod_state \<Rightarrow> pod_state" where
  "dead_row p = p\<lparr>ps_state := Dead\<rparr>"

subsection \<open>Operations\<close>

text \<open>
  An update finds the row in the hash map, changes it there and copies it to the ordered map;
  without a row nothing happens.
\<close>

definition update_row :: "string \<Rightarrow> (pod_state \<Rightarrow> pod_state) \<Rightarrow> pod_registry \<Rightarrow> pod_registry" where
  "update_row pid f reg =
     (case pr_pods reg pid of
        None \<Rightarrow> reg
      | Some p \<Rightarrow> \<lparr>pr_pods = (pr_pods reg)(pid \<mapsto> f p), pr_order = bt_insert pid (f p) (pr_order reg)\<rparr>)"

definition register :: "instant \<Rightarrow> string \<Rightarrow> string \<Rightarrow> u32 \<Rightarrow> json option \<Rightarrow> pod_registry \<Rightarrow> pod_registry" where
  "register now pid addr cap versions reg =
     (let state = new_pod now pid addr cap versions in
      \<lparr>pr_pods = (pr_pods reg)(pid \<mapsto> state), pr_order = bt_insert pid state (pr_order reg)\<rparr>)"

definition ready :: "instant \<Rightarrow> string \<Rightarrow> pod_registry \<Rightarrow> pod_registry" where
  "ready now pid = update_row pid (ready_row now)"

definition ping :: "instant \<Rightarrow> string \<Rightarrow> u32 \<Rightarrow> pod_registry \<Rightarrow> pod_registry" where
  "ping now pid fill = update_row pid (ping_row now fill)"

definition assign :: "string \<Rightarrow> pod_registry \<Rightarrow> pod_registry" where
  "assign pid = update_row pid assign_row"

definition release :: "string \<Rightarrow> pod_registry \<Rightarrow> pod_registry" where
  "release pid = update_row pid release_row"

definition drain :: "string \<Rightarrow> pod_registry \<Rightarrow> pod_registry" where
  "drain pid = update_row pid drain_row"

definition start_cooldown :: "string \<Rightarrow> instant \<Rightarrow> int \<Rightarrow> pod_registry \<Rightarrow> pod_registry" where
  "start_cooldown pid now cooldown reg =
     (case pr_pods reg pid of
        None \<Rightarrow> reg
      | Some p \<Rightarrow>
          if ps_state p = Ready \<and> ps_fill p = 0
          then update_row pid (\<lambda>p. p\<lparr>ps_cooldown_until := Some (now + cooldown)\<rparr>) reg
          else reg)"

definition mark_dead :: "string \<Rightarrow> pod_registry \<Rightarrow> pod_registry" where
  "mark_dead pid = update_row pid dead_row"

definition remove_pod :: "string \<Rightarrow> pod_registry \<Rightarrow> pod_registry" where
  "remove_pod pid reg = \<lparr>pr_pods = (pr_pods reg)(pid := None), pr_order = bt_remove pid (pr_order reg)\<rparr>"

definition get_pod :: "string \<Rightarrow> pod_registry \<Rightarrow> pod_state option" where
  "get_pod pid reg = pr_pods reg pid"

definition pods_snapshot :: "pod_registry \<Rightarrow> pod_state list" where
  "pods_snapshot reg = map snd (pr_order reg)"

subsection \<open>Invariant\<close>

definition row_ok :: "string \<Rightarrow> pod_state \<Rightarrow> bool" where
  "row_ok pid p \<longleftrightarrow> ps_id p = pid \<and> ps_fill p \<le> ps_cap p"

definition reg_ok :: "pod_registry \<Rightarrow> bool" where
  "reg_ok reg \<longleftrightarrow> bt_ok (pr_order reg) \<and> map_of (pr_order reg) = pr_pods reg \<and>
     (\<forall>pid p. pr_pods reg pid = Some p \<longrightarrow> row_ok pid p)"

text \<open>Row changes that keep the identity and the bound on the fill.\<close>

definition keeps_row :: "(pod_state \<Rightarrow> pod_state) \<Rightarrow> bool" where
  "keeps_row f \<longleftrightarrow> (\<forall>pid p. row_ok pid p \<longrightarrow> row_ok pid (f p))"

lemma saturating_sub_le: "saturating_sub x y \<le> x"
  by (simp add: word_le_nat_alt unat_saturating_sub)

lemma keeps_row_ops:
  "keeps_row (ready_row now)" "keeps_row (ping_row now fill)" "keeps_row assign_row" "keeps_row release_row"
  "keeps_row drain_row" "keeps_row dead_row" "keeps_row (\<lambda>p. p\<lparr>ps_cooldown_until := t\<rparr>)"
  by (auto simp: keeps_row_def row_ok_def ready_row_def ping_row_def assign_row_def release_row_def drain_row_def
      dead_row_def intro: order.trans [OF saturating_sub_le])

lemma reg_ok_new: "reg_ok new_registry"
  by (auto simp: reg_ok_def new_registry_def)

lemma reg_ok_insert:
  assumes "reg_ok reg" and "row_ok pid p"
  shows "reg_ok \<lparr>pr_pods = (pr_pods reg)(pid \<mapsto> p), pr_order = bt_insert pid p (pr_order reg)\<rparr>"
  using assms by (auto simp: reg_ok_def bt_ok_insert map_of_bt_insert fun_eq_iff)

lemma reg_ok_update:
  assumes "reg_ok reg" and "keeps_row f"
  shows "reg_ok (update_row pid f reg)"
proof (cases "pr_pods reg pid")
  case (Some p)
  with assms have "row_ok pid (f p)" by (auto simp: reg_ok_def keeps_row_def)
  from reg_ok_insert [OF assms(1) this] Some show ?thesis by (simp add: update_row_def)
qed (use assms in \<open>simp add: update_row_def\<close>)

lemma reg_ok_remove: "reg_ok reg \<Longrightarrow> reg_ok (remove_pod pid reg)"
  by (auto simp: reg_ok_def remove_pod_def bt_ok_remove map_of_bt_remove fun_eq_iff)

lemma reg_ok_register: "reg_ok reg \<Longrightarrow> reg_ok (register now pid addr cap versions reg)"
  unfolding register_def Let_def by (rule reg_ok_insert) (simp_all add: row_ok_def new_pod_def)

lemma reg_ok_start_cooldown: "reg_ok reg \<Longrightarrow> reg_ok (start_cooldown pid now cooldown reg)"
  by (auto simp: start_cooldown_def reg_ok_update keeps_row_ops split: option.splits)

lemmas reg_ok_ops =
  reg_ok_register reg_ok_remove reg_ok_start_cooldown
  reg_ok_update [OF _ keeps_row_ops(1), folded ready_def]
  reg_ok_update [OF _ keeps_row_ops(2), folded ping_def]
  reg_ok_update [OF _ keeps_row_ops(3), folded assign_def]
  reg_ok_update [OF _ keeps_row_ops(4), folded release_def]
  reg_ok_update [OF _ keeps_row_ops(5), folded drain_def]
  reg_ok_update [OF _ keeps_row_ops(6), folded mark_dead_def]

text \<open>The contract of the registry as its clients see it, rows behind an ordered snapshot.\<close>

lemma snapshot_rows:
  assumes "reg_ok reg"
  shows "set (pods_snapshot reg) = ran (pr_pods reg)"
    and "sorted_wrt (<) (map ps_id (pods_snapshot reg))"
proof -
  have dist: "distinct (map fst (pr_order reg))"
    using assms by (simp add: reg_ok_def bt_ok_def strict_sorted_iff)
  show "set (pods_snapshot reg) = ran (pr_pods reg)"
    using assms ran_distinct [OF dist] by (simp add: pods_snapshot_def reg_ok_def)
  have "map ps_id (pods_snapshot reg) = map fst (pr_order reg)"
    using assms dist by (auto simp: pods_snapshot_def reg_ok_def row_ok_def) (metis map_of_is_SomeI)
  with assms show "sorted_wrt (<) (map ps_id (pods_snapshot reg))" by (simp add: reg_ok_def bt_ok_def)
qed

subsection \<open>Operations of several tasks\<close>

text \<open>
  What is left of an operation after its first step: the copy of the row that still has to go
  into the ordered map, or the removal from it. A state is the registry and what is pending.
\<close>

datatype pending = Insert string pod_state | Remove string

inductive reg_step :: "pod_registry \<times> pending list \<Rightarrow> pod_registry \<times> pending list \<Rightarrow> bool" where
  register_step:
    "reg_step (reg, ps)
       (reg\<lparr>pr_pods := (pr_pods reg)(pid \<mapsto> new_pod now pid addr cap versions)\<rparr>,
        ps @ [Insert pid (new_pod now pid addr cap versions)])"
| update_step:
    "pr_pods reg pid = Some p \<Longrightarrow> keeps_row f \<Longrightarrow>
     reg_step (reg, ps) (reg\<lparr>pr_pods := (pr_pods reg)(pid \<mapsto> f p)\<rparr>, ps @ [Insert pid (f p)])"
| remove_step:
    "reg_step (reg, ps) (reg\<lparr>pr_pods := (pr_pods reg)(pid := None)\<rparr>, ps @ [Remove pid])"
| insert_step:
    "reg_step (reg, xs @ Insert pid p # ys) (reg\<lparr>pr_order := bt_insert pid p (pr_order reg)\<rparr>, xs @ ys)"
| delete_step:
    "reg_step (reg, xs @ Remove pid # ys) (reg\<lparr>pr_order := bt_remove pid (pr_order reg)\<rparr>, xs @ ys)"

abbreviation reg_reach :: "pod_registry \<times> pending list \<Rightarrow> bool" where
  "reg_reach st \<equiv> reg_step\<^sup>*\<^sup>* (new_registry, []) st"

inductive_cases reg_stepE: "reg_step st st'"

definition weak_ok :: "pod_registry \<times> pending list \<Rightarrow> bool" where
  "weak_ok st \<longleftrightarrow> bt_ok (pr_order (fst st)) \<and>
     (\<forall>pid p. pr_pods (fst st) pid = Some p \<longrightarrow> row_ok pid p) \<and>
     (\<forall>(pid, p) \<in> set (pr_order (fst st)). row_ok pid p) \<and>
     (\<forall>pid p. Insert pid p \<in> set (snd st) \<longrightarrow> row_ok pid p)"

lemma weak_ok_step: "reg_step st st' \<Longrightarrow> weak_ok st \<Longrightarrow> weak_ok st'"
proof (induction rule: reg_step.induct)
  case (insert_step reg xs pid p ys)
  then have "row_ok pid p" by (auto simp: weak_ok_def)
  moreover have "q \<in> set (bt_insert pid p m) \<Longrightarrow> q = (pid, p) \<or> q \<in> set m" for q m
    by (induction m) (auto split: if_splits)
  ultimately show ?case using insert_step by (fastforce simp: weak_ok_def bt_ok_insert)
next
  case (delete_step reg xs pid ys)
  then show ?case by (fastforce simp: weak_ok_def bt_ok_remove dest: values_bt_remove)
qed (auto simp: weak_ok_def row_ok_def new_pod_def keeps_row_def split: if_splits)

lemma weak_ok_reach: "reg_reach st \<Longrightarrow> weak_ok st"
proof (induction rule: rtranclp_induct)
  case base
  then show ?case by (simp add: weak_ok_def new_registry_def)
qed (rule weak_ok_step)

subsection \<open>Properties\<close>

text \<open>The operations as data, for sequences of them.\<close>

datatype reg_op =
    Register instant string string u32 "json option"
  | ReadyOp instant string
  | PingOp instant string u32
  | AssignOp string
  | ReleaseOp string
  | DrainOp string
  | CooldownOp string instant int
  | MarkDead string
  | RemoveOp string

fun apply_op :: "reg_op \<Rightarrow> pod_registry \<Rightarrow> pod_registry" where
  "apply_op (Register now pid addr cap vs) = register now pid addr cap vs"
| "apply_op (ReadyOp now pid) = ready now pid"
| "apply_op (PingOp now pid fill) = ping now pid fill"
| "apply_op (AssignOp pid) = assign pid"
| "apply_op (ReleaseOp pid) = release pid"
| "apply_op (DrainOp pid) = drain pid"
| "apply_op (CooldownOp pid now c) = start_cooldown pid now c"
| "apply_op (MarkDead pid) = mark_dead pid"
| "apply_op (RemoveOp pid) = remove_pod pid"

lemma apply_op_ok: "reg_ok reg \<Longrightarrow> reg_ok (apply_op x reg)"
  by (cases x) (simp_all add: reg_ok_ops)

text \<open>
  C35. Run one after the other, any sequence of registry operations keeps the two copies of
  every row equal, every row under its own pod id, and the fill of every pod within its capacity;
  so a snapshot lists exactly the registered pods, each once, by ascending id.
\<close>

theorem registry_sequence_consistent:
  "reg_ok (fold apply_op ops new_registry) \<and>
   set (pods_snapshot (fold apply_op ops new_registry)) = ran (pr_pods (fold apply_op ops new_registry)) \<and>
   sorted_wrt (<) (map ps_id (pods_snapshot (fold apply_op ops new_registry)))"
proof -
  have "reg_ok reg \<Longrightarrow> reg_ok (fold apply_op ops reg)" for reg
    by (induction ops arbitrary: reg) (simp_all add: apply_op_ok)
  from this [OF reg_ok_new] show ?thesis using snapshot_rows by blast
qed

text \<open>
  What interleaving cannot break: however the steps of concurrent operations interleave,
  every row in either copy is stored under its own pod id and its fill is within its capacity.
\<close>

theorem registry_interleaved_rows_bounded:
  assumes "reg_reach (reg, ps)"
  shows "(\<forall>pid p. pr_pods reg pid = Some p \<longrightarrow> ps_id p = pid \<and> ps_fill p \<le> ps_cap p) \<and>
    set (pods_snapshot reg) \<subseteq> {p. ps_fill p \<le> ps_cap p}"
  using weak_ok_reach [OF assms] by (auto simp: weak_ok_def row_ok_def pods_snapshot_def)

definition row0 :: pod_state where
  "row0 = new_pod 0 ''p'' ''a'' 2 None"

text \<open>
  What interleaving can break: two assignments to the same pod can leave the two copies
  different for good. Both bump the row in the hash map, the second copies its row to the ordered
  map first and the first overwrites it: with nothing left to do the hash map says two sessions
  and the snapshot the router reads says one.
\<close>

theorem registry_race_loses_update:
  "\<exists>reg. reg_reach (reg, []) \<and>
     map_option ps_fill (pr_pods reg ''p'') = Some 2 \<and> map ps_fill (pods_snapshot reg) = [1]"
proof -
  let ?r1 = "assign_row row0" and ?r2 = "assign_row (assign_row row0)"
  let ?a = "\<lparr>pr_pods = [''p'' \<mapsto> row0], pr_order = []\<rparr>"
  let ?b = "\<lparr>pr_pods = [''p'' \<mapsto> row0], pr_order = [(''p'', row0)]\<rparr>"
  let ?c = "\<lparr>pr_pods = [''p'' \<mapsto> ?r1], pr_order = [(''p'', row0)]\<rparr>"
  let ?d = "\<lparr>pr_pods = [''p'' \<mapsto> ?r2], pr_order = [(''p'', row0)]\<rparr>"
  let ?e = "\<lparr>pr_pods = [''p'' \<mapsto> ?r2], pr_order = [(''p'', ?r2)]\<rparr>"
  let ?f = "\<lparr>pr_pods = [''p'' \<mapsto> ?r2], pr_order = [(''p'', ?r1)]\<rparr>"
  have 1: "reg_step (new_registry, []) (?a, [Insert ''p'' row0])"
    using register_step [of new_registry "[]" "''p''" 0 "''a''" 2 None] by (simp add: new_registry_def row0_def)
  have 2: "reg_step (?a, [Insert ''p'' row0]) (?b, [])"
    using insert_step [of ?a "[]" "''p''" row0 "[]"] by simp
  have 3: "reg_step (?b, []) (?c, [Insert ''p'' ?r1])"
    using update_step [of ?b "''p''" row0 assign_row "[]"] keeps_row_ops(3) by simp
  have 4: "reg_step (?c, [Insert ''p'' ?r1]) (?d, [Insert ''p'' ?r1, Insert ''p'' ?r2])"
    using update_step [of ?c "''p''" ?r1 assign_row "[Insert ''p'' ?r1]"] keeps_row_ops(3) by simp
  have 5: "reg_step (?d, [Insert ''p'' ?r1, Insert ''p'' ?r2]) (?e, [Insert ''p'' ?r1])"
    using insert_step [of ?d "[Insert ''p'' ?r1]" "''p''" ?r2 "[]"] by simp
  have 6: "reg_step (?e, [Insert ''p'' ?r1]) (?f, [])"
    using insert_step [of ?e "[]" "''p''" ?r1 "[]"] by simp
  have "reg_reach (?f, [])"
    using 1 2 3 4 5 6 by (meson rtranclp.rtrancl_refl rtranclp.rtrancl_into_rtrancl)
  moreover have "ps_fill ?r2 = 2" "ps_fill ?r1 = 1" by code_simp+
  ultimately show ?thesis by (intro exI [of _ ?f]) (simp add: pods_snapshot_def)
qed

subsection \<open>Witnesses\<close>

lemma registry_interleaved_rows_bounded_witness:
  "(\<forall>pid p. pr_pods new_registry pid = Some p \<longrightarrow> ps_id p = pid \<and> ps_fill p \<le> ps_cap p) \<and>
    set (pods_snapshot new_registry) \<subseteq> {p. ps_fill p \<le> ps_cap p}"
  by (rule registry_interleaved_rows_bounded [of _ "[]"]) simp

end
