(* ===== verification/Provider.thy ===== *)
theory Provider
  imports Registry
begin

text \<open>
  \<open>crates/orchestrator/src/provider.rs\<close> and \<open>provider_mock.rs\<close>: the interface every cloud driver
  implements, as a record of its operations on the cloud's state, and the driver that records its
  calls in memory. Durations are in nanoseconds.
\<close>

subsection \<open>The interface\<close>

record pod_spec =
  sp_id :: string
  sp_cap :: u32
  sp_region :: string
  sp_gpu_type :: string

datatype prov_err = ProvError string | ProvTimeout string

record 'p provider =
  pv_deploy :: "pod_spec \<Rightarrow> 'p \<Rightarrow> 'p \<times> (prov_err + string)"
  pv_terminate :: "string \<Rightarrow> 'p \<Rightarrow> 'p \<times> (prov_err + unit)"
  pv_cold_start_hint :: int

definition as_secs :: "int \<Rightarrow> int" where
  "as_secs d = d div 1000000000"

text \<open>
  What the orchestrator relies on: a successful deployment starts the pod it names, a successful
  termination stops the pod, and a call that fails starts and stops nothing.
\<close>

locale pod_provider =
  fixes P :: "'p provider" and live :: "'p \<Rightarrow> string set"
  assumes deploy_ok: "pv_deploy P spec p = (p', Inr pid) \<Longrightarrow> live p' = insert pid (live p)"
    and deploy_err: "pv_deploy P spec p = (p', Inl e) \<Longrightarrow> live p' = live p"
    and terminate_ok: "pv_terminate P pid p = (p', Inr u) \<Longrightarrow> live p' = live p - {pid}"
    and terminate_err: "pv_terminate P pid p = (p', Inl e) \<Longrightarrow> live p' = live p"

subsection \<open>The mock driver\<close>

datatype mock_event = Deployed string u32 | Terminated string

record mock_provider =
  mk_log :: "mock_event list"
  mk_live :: "string \<rightharpoonup> string"

definition new_mock :: mock_provider where
  "new_mock = \<lparr>mk_log = [], mk_live = Map.empty\<rparr>"

definition mock_deploy :: "pod_spec \<Rightarrow> mock_provider \<Rightarrow> mock_provider \<times> (prov_err + string)" where
  "mock_deploy spec m =
     (m\<lparr>mk_log := mk_log m @ [Deployed (sp_id spec) (sp_cap spec)], mk_live := (mk_live m)(sp_id spec \<mapsto> sp_id spec)\<rparr>,
      Inr (sp_id spec))"

definition mock_terminate :: "string \<Rightarrow> mock_provider \<Rightarrow> mock_provider \<times> (prov_err + unit)" where
  "mock_terminate pid m =
     (m\<lparr>mk_log := mk_log m @ [Terminated pid], mk_live := (mk_live m)(pid := None)\<rparr>, Inr ())"

definition mock_cold_start_hint :: int where
  "mock_cold_start_hint = 45 * 1000000000"

definition mock :: "mock_provider provider" where
  "mock = \<lparr>pv_deploy = mock_deploy, pv_terminate = mock_terminate, pv_cold_start_hint = mock_cold_start_hint\<rparr>"

interpretation mk: pod_provider mock "\<lambda>m. dom (mk_live m)"
  by unfold_locales (auto simp: mock_def mock_deploy_def mock_terminate_def)

end
