(* ===== verification/Tokens.thy ===== *)
theory Tokens
  imports Redis
begin

text \<open>
  \<open>crates/vihs-auth/src/store.rs\<close>: minting, seeding, verification and revocation of the opaque
  bearer tokens. Redis is the parameter of theory \<open>Redis\<close>; base64url and argon2id are the
  parameter \<open>crypto\<close>; the random bytes, the salt and the clock reading (in seconds) are
  arguments. The message of an \<open>Upstream\<close> error is left out. A result \<open>None\<close> of \<open>revoke\<close> is
  the panic of \<open>split_at\<close>.
\<close>

subsection \<open>Types\<close>

datatype scope = User | Admin | Pod

record principal =
  p_owner :: string
  p_scope :: scope

datatype token_error = Authz string | Upstream

definition DEFAULT_TOKEN_TTL :: int where
  "DEFAULT_TOKEN_TTL = 24 * 60 * 60"

definition POD_TOKEN_TTL :: int where
  "POD_TOKEN_TTL = 15 * 60"

definition TOKEN_ID_BYTES :: nat where
  "TOKEN_ID_BYTES = 16"

definition TOKEN_TOTAL_BYTES :: nat where
  "TOKEN_TOTAL_BYTES = TOKEN_ID_BYTES + 16"

text \<open>
  \<open>b64enc\<close> and \<open>b64dec\<close> are \<open>URL_SAFE_NO_PAD\<close>; \<open>argon_hash salt pw\<close> is the encoded
  argon2id hash; \<open>argon_check ph pw\<close> is \<open>None\<close> when the stored hash does not parse.
\<close>

record crypto =
  b64enc :: "u8 list \<Rightarrow> string"
  b64dec :: "string \<Rightarrow> u8 list option"
  argon_hash :: "string \<Rightarrow> string \<Rightarrow> string option"
  argon_check :: "string \<Rightarrow> string \<Rightarrow> bool option"

definition crypto_laws :: "crypto \<Rightarrow> bool" where
  "crypto_laws C \<longleftrightarrow>
     (\<forall>bs. b64dec C (b64enc C bs) = Some bs) \<and>
     (\<forall>s bs. b64dec C s = Some bs \<longrightarrow> b64enc C bs = s) \<and>
     (\<forall>bs. b64enc C bs = [] \<longleftrightarrow> bs = []) \<and>
     (\<forall>salt pw h. argon_hash C salt pw = Some h \<longrightarrow> argon_check C h pw = Some True)"

lemma crypto_dec: "crypto_laws C \<Longrightarrow> b64dec C (b64enc C bs) = Some bs"
  by (simp add: crypto_laws_def)

lemma crypto_argon: "crypto_laws C \<Longrightarrow> argon_hash C salt pw = Some h \<Longrightarrow> argon_check C h pw = Some True"
  unfolding crypto_laws_def by meson

lemma crypto_nonempty: "crypto_laws C \<Longrightarrow> bs \<noteq> [] \<Longrightarrow> b64enc C bs \<noteq> []"
  by (simp add: crypto_laws_def)

subsection \<open>Operations\<close>

definition token_key :: "string \<Rightarrow> string" where
  "token_key token_id = ''token:'' @ token_id"

fun scope_name :: "scope \<Rightarrow> string" where
  "scope_name User = ''user''"
| "scope_name Admin = ''admin''"
| "scope_name Pod = ''pod''"

definition parse_scope :: "string \<Rightarrow> scope" where
  "parse_scope s = (if s = ''admin'' then Admin else if s = ''pod'' then Pod else User)"

definition token_id :: "crypto \<Rightarrow> string \<Rightarrow> string option" where
  "token_id C token =
     Option.bind (b64dec C token) (\<lambda>raw.
     if length raw \<noteq> TOKEN_TOTAL_BYTES then None
     else Some (b64enc C (take TOKEN_ID_BYTES raw)))"

text \<open>The pooled connection first, once more on a fresh one when the pooled one is down.\<close>

definition with_conn ::
    "'r redis \<Rightarrow> (conn \<Rightarrow> 'r \<Rightarrow> 'r \<times> (redis_error + 'a)) \<Rightarrow> 'r \<Rightarrow> 'r \<times> (token_error + 'a)" where
  "with_conn R op r =
     (case op Pooled r of
        (r1, Inr v) \<Rightarrow> (r1, Inr v)
      | (r1, Inl ConnDown) \<Rightarrow>
          if rconnect R r1 then
            (case op Fresh r1 of
               (r2, Inr v) \<Rightarrow> (r2, Inr v)
             | (r2, Inl e) \<Rightarrow> (r2, Inl Upstream))
          else (r1, Inl Upstream)
      | (r1, Inl OtherErr) \<Rightarrow> (r1, Inl Upstream))"

definition hash_token :: "crypto \<Rightarrow> string \<Rightarrow> string \<Rightarrow> string \<Rightarrow> token_error + string" where
  "hash_token C pepper salt token = ok_or (argon_hash C salt (token @ pepper)) Upstream"

definition verify_hash :: "crypto \<Rightarrow> string \<Rightarrow> string \<Rightarrow> string \<Rightarrow> token_error + unit" where
  "verify_hash C pepper phash token =
     (case argon_check C phash (token @ pepper) of
        None \<Rightarrow> Inl (Authz ''corrupt token record'')
      | Some True \<Rightarrow> Inr ()
      | Some False \<Rightarrow> Inl (Authz ''token mismatch''))"

text \<open>The record written by \<open>mint\<close> and \<open>seed\<close>: one pipeline of HSET and EXPIRE.\<close>

definition write_record ::
    "'r redis \<Rightarrow> int \<Rightarrow> string \<Rightarrow> string \<Rightarrow> scope \<Rightarrow> string \<Rightarrow> int \<Rightarrow> 'r \<Rightarrow> 'r \<times> (token_error + unit)" where
  "write_record R now key owner scope phash ttl r =
     (let (r', res) = with_conn R (\<lambda>c. rpipe R c now
        [HSet key [(''owner'', owner), (''scope'', scope_name scope), (''phash'', phash),
                   (''exp'', show_int (now + ttl)), (''revoked'', ''0'')],
         Expire key ttl]) r in
      (r', rbind res (\<lambda>_. Inr ())))"

definition mint ::
    "crypto \<Rightarrow> 'r redis \<Rightarrow> string \<Rightarrow> int \<Rightarrow> u8 list \<Rightarrow> string \<Rightarrow> string \<Rightarrow> scope \<Rightarrow> int \<Rightarrow> 'r \<Rightarrow>
     'r \<times> (token_error + string)" where
  "mint C R pepper now raw salt owner scope ttl r =
     (let token_id = b64enc C (take TOKEN_ID_BYTES raw);
          token = b64enc C raw in
      case hash_token C pepper salt token of
        Inl e \<Rightarrow> (r, Inl e)
      | Inr phash \<Rightarrow>
          (let (r', res) = write_record R now (token_key token_id) owner scope phash ttl r in
           (r', rbind res (\<lambda>_. Inr token))))"

definition seed ::
    "crypto \<Rightarrow> 'r redis \<Rightarrow> string \<Rightarrow> int \<Rightarrow> string \<Rightarrow> string \<Rightarrow> string \<Rightarrow> scope \<Rightarrow> int \<Rightarrow> 'r \<Rightarrow>
     'r \<times> (token_error + unit)" where
  "seed C R pepper now salt token owner scope ttl r =
     (case b64dec C token of
        None \<Rightarrow> (r, Inl (Authz ''seed token must be base64url''))
      | Some raw \<Rightarrow>
          if length raw \<noteq> TOKEN_TOTAL_BYTES then (r, Inl (Authz ''seed token must decode to 32 bytes''))
          else
            (let token_id = b64enc C (take TOKEN_ID_BYTES raw) in
             case hash_token C pepper salt token of
               Inl e \<Rightarrow> (r, Inl e)
             | Inr phash \<Rightarrow> write_record R now (token_key token_id) owner scope phash ttl r))"

text \<open>The checks on the record, in the order of the code.\<close>

definition check_record ::
    "crypto \<Rightarrow> string \<Rightarrow> int \<Rightarrow> string \<Rightarrow> (string \<rightharpoonup> string) \<Rightarrow> token_error + principal" where
  "check_record C pepper now token rec =
     rbind (ok_or (rec ''owner'') (Authz ''unknown token'')) (\<lambda>owner.
     rbind (ok_or (rec ''scope'') (Authz ''unknown token'')) (\<lambda>scope.
     rbind (ok_or (rec ''phash'') (Authz ''unknown token'')) (\<lambda>phash.
     rbind (ok_or (Option.bind (rec ''exp'') parse_i64) (Authz ''corrupt token record'')) (\<lambda>exp.
     let revoked = unwrap_or (Option.bind (rec ''revoked'') parse_i64) 0 in
     if revoked \<noteq> 0 then Inl (Authz ''token revoked'')
     else if now > exp then Inl (Authz ''token expired'')
     else rbind (verify_hash C pepper phash token) (\<lambda>_.
       Inr \<lparr>p_owner = owner, p_scope = parse_scope scope\<rparr>)))))"

definition verify :: "crypto \<Rightarrow> 'r redis \<Rightarrow> string \<Rightarrow> int \<Rightarrow> string \<Rightarrow> 'r \<Rightarrow> 'r \<times> (token_error + principal)" where
  "verify C R pepper now token r =
     (case b64dec C token of
        None \<Rightarrow> (r, Inl (Authz ''malformed token''))
      | Some raw \<Rightarrow>
          if length raw \<noteq> TOKEN_TOTAL_BYTES then (r, Inl (Authz ''malformed token''))
          else
            (let key = token_key (b64enc C (take TOKEN_ID_BYTES raw));
                 (r', res) = with_conn R (\<lambda>c r0.
                   let (r1, x) = rexec R c now (HGetAll key) r0 in (r1, rbind x reply_pairs)) r in
             (r', rbind res (\<lambda>fields. check_record C pepper now token (map_of (rev fields))))))"

definition revoke :: "crypto \<Rightarrow> 'r redis \<Rightarrow> int \<Rightarrow> string \<Rightarrow> 'r \<Rightarrow> ('r \<times> (token_error + unit)) option" where
  "revoke C R now token r =
     (case b64dec C token of
        None \<Rightarrow> Some (r, Inl (Authz ''malformed token''))
      | Some raw \<Rightarrow>
          if length raw < TOKEN_ID_BYTES then None
          else
            (let key = token_key (b64enc C (take TOKEN_ID_BYTES raw));
                 (r', res) = with_conn R (\<lambda>c. rexec R c now (HSet key [(''revoked'', ''1'')])) r in
             Some (r', rbind res (\<lambda>_. Inr ()))))"

subsection \<open>The connection wrapper\<close>

lemma with_conn_Inr:
  "with_conn R op r = (r', Inr v) \<Longrightarrow> \<exists>c r0. op c r0 = (r', Inr v)"
  by (auto simp: with_conn_def split: prod.splits sum.splits redis_error.splits if_splits)

lemma with_conn_Inl: "with_conn R op r = (r', Inl e) \<Longrightarrow> e = Upstream"
  by (auto simp: with_conn_def split: prod.splits sum.splits redis_error.splits if_splits)

text \<open>What a read through the wrapper returns is about the keyspace before the call.\<close>

lemma with_conn_read:
  assumes "redis_laws R db"
    and "with_conn R (\<lambda>c r0. let (r1, x) = rexec R c now (HGetAll key) r0 in (r1, rbind x reply_pairs)) r = (r', Inr fs)"
  shows "distinct (map fst fs) \<and> hash_at (purge now (db r)) key = Some (map_of fs)"
proof -
  let ?op = "\<lambda>c r0. let (r1, x) = rexec R c now (HGetAll key) r0 in (r1, rbind x reply_pairs)"
  have ok: "distinct (map fst fs) \<and> hash_at (purge now (db r0)) key = Some (map_of fs)"
    if "?op c r0 = (r1, Inr fs)" for c r0 r1
  proof -
    from that obtain rep where rep: "rexec R c now (HGetAll key) r0 = (r1, Inr rep)" "reply_pairs rep = Inr fs"
      by (auto simp: Let_def split: prod.splits)
    from rexec_ok [OF assms(1) rep(1)] rep(2) show ?thesis by auto
  qed
  have err: "purge now (db r1) = purge now (db r)" if "?op Pooled r = (r1, Inl ConnDown)" for r1
  proof -
    from that obtain x where x: "rexec R Pooled now (HGetAll key) r = (r1, x)" "rbind x reply_pairs = Inl ConnDown"
      by (auto simp: Let_def split: prod.splits)
    show ?thesis
    proof (cases x)
      case (Inl e)
      with x(1) have "rexec R Pooled now (HGetAll key) r = (r1, Inl e)" by simp
      from rexec_err [OF assms(1) this] have "db r1 = purge now (db r)" by auto
      then show ?thesis by simp
    next
      case (Inr rep)
      with x(2) show ?thesis by (cases rep) simp_all
    qed
  qed
  from assms(2) consider "?op Pooled r = (r', Inr fs)"
    | r1 where "?op Pooled r = (r1, Inl ConnDown)" "?op Fresh r1 = (r', Inr fs)"
    unfolding with_conn_def by (auto split: prod.splits sum.splits redis_error.splits if_splits)
  then show ?thesis by cases (use ok err in fastforce)+
qed

lemma check_record_Inr:
  "check_record C pepper now token rec = Inr p \<longleftrightarrow>
     rec ''owner'' = Some (p_owner p) \<and>
     (\<exists>s ph e. rec ''scope'' = Some s \<and> p_scope p = parse_scope s \<and> rec ''phash'' = Some ph \<and>
        argon_check C ph (token @ pepper) = Some True \<and>
        Option.bind (rec ''exp'') parse_i64 = Some e \<and> now \<le> e) \<and>
     unwrap_or (Option.bind (rec ''revoked'') parse_i64) 0 = 0"
proof -
  have v: "verify_hash C pepper ph token = Inr u \<longleftrightarrow> argon_check C ph (token @ pepper) = Some True" for ph u
    by (simp add: verify_hash_def split: option.splits bool.splits)
  have i: "(if b then Inl e else if d then Inl f else x) = Inr y \<longleftrightarrow> \<not> b \<and> \<not> d \<and> x = Inr y"
    for b d and e f :: token_error and x and y :: principal by simp
  have s: "\<lparr>p_owner = a, p_scope = c\<rparr> = p \<longleftrightarrow> a = p_owner p \<and> c = p_scope p" for a c by (cases p) auto
  show ?thesis
    unfolding check_record_def Let_def rbind_eq_Inr ok_or_eq_Inr i v sum.inject s not_less by auto
qed

lemma map_of_rev_distinct: "distinct (map fst xs) \<Longrightarrow> map_of (rev xs) = map_of xs"
  by (rule map_of_inject_set [THEN iffD2]) (simp_all add: rev_map [symmetric])

text \<open>A verification decides on the record in the keyspace before the call.\<close>

lemma verify_decides:
  assumes "redis_laws R db" and "b64dec C token = Some raw" "length raw = TOKEN_TOTAL_BYTES"
  shows "\<exists>r'. verify C R pepper now token r = (r', Inl Upstream) \<or>
    (\<exists>h. hash_at (purge now (db r)) (token_key (b64enc C (take TOKEN_ID_BYTES raw))) = Some h \<and>
      verify C R pepper now token r = (r', check_record C pepper now token h))"
proof -
  let ?key = "token_key (b64enc C (take TOKEN_ID_BYTES raw))"
  obtain r' res where w: "with_conn R (\<lambda>c r0. let (r1, x) = rexec R c now (HGetAll ?key) r0 in (r1, rbind x reply_pairs)) r = (r', res)"
    by fastforce
  show ?thesis
  proof (cases res)
    case (Inl e)
    with w have "e = Upstream" by (auto dest: with_conn_Inl)
    with Inl w assms(2,3) show ?thesis by (auto simp: verify_def Let_def)
  next
    case (Inr fs)
    with with_conn_read [OF assms(1)] w have "distinct (map fst fs)" "hash_at (purge now (db r)) ?key = Some (map_of fs)"
      by blast+
    moreover have "verify C R pepper now token r = (r', check_record C pepper now token (map_of (rev fs)))"
      using w Inr assms(2,3) by (simp add: verify_def Let_def)
    ultimately show ?thesis by (simp add: map_of_rev_distinct) blast
  qed
qed

subsection \<open>What a written record says\<close>

lemma rpipe_record:
  assumes "redis_laws R db" and "rpipe R c now [HSet k fs, Expire k ttl] r = (r', Inr reps)" and "0 < ttl"
  shows "\<exists>h. keyspace (db r') k = Some (RHash (h ++ map_of (rev fs))) \<and> deadline (db r') k = Some (now + ttl)"
proof -
  from assms(2) obtain r1 a b where e1: "rexec R c now (HSet k fs) r = (r1, Inr a)"
    and e2: "rexec R c now (Expire k ttl) r1 = (r', Inr b)"
    by (auto simp: Let_def split: prod.splits)
  from rexec_hset [OF assms(1) e1] obtain h where h: "db r1 = put_key k (RHash (h ++ map_of (rev fs))) (purge now (db r))"
    by blast
  have alive: "keyspace (purge now (db r1)) k = Some (RHash (h ++ map_of (rev fs)))"
    by (auto simp: h purge_def Let_def split: option.splits)
  with rexec_ok [OF assms(1) e2] assms(3) have "db r' = (purge now (db r1))\<lparr>deadline := (deadline (purge now (db r1)))(k \<mapsto> now + ttl)\<rparr>"
    by auto
  with alive show ?thesis by auto
qed

lemma write_record_Inr:
  assumes "redis_laws R db" and "write_record R now k owner scope ph ttl r = (r', Inr u)" and "0 < ttl" and "t < now + ttl"
  shows "\<exists>h. hash_at (purge t (db r')) k = Some (h ++ map_of
    [(''revoked'', ''0''), (''exp'', show_int (now + ttl)), (''phash'', ph), (''scope'', scope_name scope), (''owner'', owner)])"
proof -
  let ?fs = "[(''owner'', owner), (''scope'', scope_name scope), (''phash'', ph),
      (''exp'', show_int (now + ttl)), (''revoked'', ''0'')]"
  from assms(2) obtain reps where "with_conn R (\<lambda>c. rpipe R c now [HSet k ?fs, Expire k ttl]) r = (r', Inr reps)"
    unfolding write_record_def Let_def by (auto split: prod.splits)
  from with_conn_Inr [OF this] obtain c r0 where "rpipe R c now [HSet k ?fs, Expire k ttl] r0 = (r', Inr reps)"
    by blast
  from rpipe_record [OF assms(1) this assms(3)] obtain h where
    h: "keyspace (db r') k = Some (RHash (h ++ map_of (rev ?fs)))" "deadline (db r') k = Some (now + ttl)" by blast
  with assms(4) have "keyspace (purge t (db r')) k = Some (RHash (h ++ map_of (rev ?fs)))" by (simp add: purge_def)
  then show ?thesis by (auto simp: hash_at_def)
qed

lemma parse_scope_name [simp]: "parse_scope (scope_name s) = s"
  by (cases s) (simp_all add: parse_scope_def)

lemma parse_flags: "parse_i64 ''0'' = Some 0" "parse_i64 ''1'' = Some 1"
  by (simp_all add: parse_i64_def parse_nat_def drop_plus_def digit_val_def)

lemma check_written_record:
  assumes "argon_check C ph (token @ pepper) = Some True" and "- (2 ^ 63) \<le> e" "e < 2 ^ 63" and "t \<le> e"
  shows "check_record C pepper t token (h ++ map_of
    [(''revoked'', ''0''), (''exp'', show_int e), (''phash'', ph), (''scope'', scope_name scope), (''owner'', owner)]) =
    Inr \<lparr>p_owner = owner, p_scope = scope\<rparr>"
proof -
  let ?rec = "h ++ map_of [(''revoked'', ''0''), (''exp'', show_int e), (''phash'', ph), (''scope'', scope_name scope), (''owner'', owner)]"
  have "?rec ''owner'' = Some owner" "?rec ''scope'' = Some (scope_name scope)" "?rec ''phash'' = Some ph"
    "?rec ''exp'' = Some (show_int e)" "?rec ''revoked'' = Some ''0''" by (simp_all add: map_add_def)
  moreover have "parse_i64 (show_int e) = Some e" using assms(2,3) by (rule parse_show_i64)
  ultimately show ?thesis
    using assms(1,4) by (simp add: check_record_def verify_hash_def parse_flags Let_def del: map_of.simps)
qed

lemma TOKEN_BYTES [simp]: "TOKEN_ID_BYTES \<le> TOKEN_TOTAL_BYTES"
  by (simp add: TOKEN_TOTAL_BYTES_def)

lemma minted_token_verifies:
  assumes "redis_laws R db" and "crypto_laws C" and "length raw = TOKEN_TOTAL_BYTES"
    and "0 < ttl" and "0 \<le> now" and "now + ttl < 2 ^ 63"
    and "mint C R pepper now raw salt owner scope ttl r = (r1, Inr token)"
    and "t < now + ttl"
  shows "snd (verify C R pepper t token r1) \<in> {Inl Upstream, Inr \<lparr>p_owner = owner, p_scope = scope\<rparr>}"
proof -
  let ?key = "token_key (b64enc C (take TOKEN_ID_BYTES raw))"
  from assms(7) obtain ph where token: "token = b64enc C raw" and ph: "argon_hash C salt (token @ pepper) = Some ph"
    and w: "write_record R now ?key owner scope ph ttl r = (r1, Inr ())"
    by (auto simp: mint_def hash_token_def ok_or_def Let_def split: option.splits prod.splits)
  have dec: "b64dec C token = Some raw" and check: "argon_check C ph (token @ pepper) = Some True"
    using crypto_dec [OF assms(2)] crypto_argon [OF assms(2) ph] by (simp_all add: token)
  from write_record_Inr [OF assms(1) w assms(4,8)] obtain h where
    h: "hash_at (purge t (db r1)) ?key = Some (h ++ map_of
      [(''revoked'', ''0''), (''exp'', show_int (now + ttl)), (''phash'', ph), (''scope'', scope_name scope), (''owner'', owner)])" by blast
  have "check_record C pepper t token (h ++ map_of
      [(''revoked'', ''0''), (''exp'', show_int (now + ttl)), (''phash'', ph), (''scope'', scope_name scope), (''owner'', owner)]) =
      Inr \<lparr>p_owner = owner, p_scope = scope\<rparr>"
    by (rule check_written_record [OF check]) (use assms(4-6,8) in auto)
  with verify_decides [OF assms(1) dec assms(3), of pepper t r1] h show ?thesis by fastforce
qed

subsection \<open>Properties\<close>

text \<open>
  A minted token verifies: for as long as its lifetime lasts, verification of the token
  returned by a successful mint gives exactly the owner and the scope it was minted for, or
  fails because Redis is unreachable; it is never refused.
\<close>

theorem mint_verify_roundtrip:
  assumes "redis_laws R db" and "crypto_laws C" and "length raw = TOKEN_TOTAL_BYTES"
    and "0 < ttl" and "0 \<le> now" and "now + ttl < 2 ^ 63"
    and "mint C R pepper now raw salt owner scope ttl r = (r1, Inr token)"
    and "t < now + ttl"
  shows "snd (verify C R pepper t token r1) \<in> {Inl Upstream, Inr \<lparr>p_owner = owner, p_scope = scope\<rparr>}"
  using minted_token_verifies [OF assms] .

text \<open>
  C6. Verification is sound: a principal is only ever returned for a token of 32 bytes whose
  record is alive in Redis, names that owner and that scope, stores an argon2id hash the token
  passes with the pepper, has not run out, and is not marked revoked.
\<close>

theorem verify_sound:
  assumes "redis_laws R db" and "verify C R pepper now token r = (r', Inr p)"
  shows "\<exists>raw rec s ph e. b64dec C token = Some raw \<and> length raw = TOKEN_TOTAL_BYTES \<and>
    hash_at (purge now (db r)) (token_key (b64enc C (take TOKEN_ID_BYTES raw))) = Some rec \<and>
    rec ''owner'' = Some (p_owner p) \<and> rec ''scope'' = Some s \<and> p_scope p = parse_scope s \<and>
    rec ''phash'' = Some ph \<and> argon_check C ph (token @ pepper) = Some True \<and>
    Option.bind (rec ''exp'') parse_i64 = Some e \<and> now \<le> e \<and>
    unwrap_or (Option.bind (rec ''revoked'') parse_i64) 0 = 0"
proof -
  from assms(2) obtain raw where raw: "b64dec C token = Some raw" "length raw = TOKEN_TOTAL_BYTES"
    by (auto simp: verify_def split: option.splits if_splits)
  from verify_decides [OF assms(1) raw, of pepper now r] assms(2) obtain h where
    "hash_at (purge now (db r)) (token_key (b64enc C (take TOKEN_ID_BYTES raw))) = Some h"
    "check_record C pepper now token h = Inr p" by fastforce
  with raw show ?thesis unfolding check_record_Inr by blast
qed

text \<open>
  C10. Revocation takes effect at once: after a revocation that reports success, no verification
  of that token returns a principal, at any time, until its record is written again.
\<close>

theorem revoke_effective:
  assumes "redis_laws R db" and "revoke C R now token r = Some (r1, Inr u)"
  shows "\<not> is_ok (snd (verify C R pepper t token r1))"
proof
  assume "is_ok (snd (verify C R pepper t token r1))"
  then obtain r2 p where v: "verify C R pepper t token r1 = (r2, Inr p)"
    by (cases "verify C R pepper t token r1") (auto simp: is_ok_def split: sum.splits)
  then obtain raw where raw: "b64dec C token = Some raw" "length raw = TOKEN_TOTAL_BYTES"
    by (auto simp: verify_def split: option.splits if_splits)
  let ?key = "token_key (b64enc C (take TOKEN_ID_BYTES raw))"
  from assms(2) raw obtain rep where "with_conn R (\<lambda>c. rexec R c now (HSet ?key [(''revoked'', ''1'')])) r = (r1, Inr rep)"
    by (auto simp: revoke_def Let_def split: prod.splits if_splits)
  from with_conn_Inr [OF this] obtain c r0 where "rexec R c now (HSet ?key [(''revoked'', ''1'')]) r0 = (r1, Inr rep)" by blast
  from rexec_hset [OF assms(1) this] obtain h where "keyspace (db r1) ?key = Some (RHash (h(''revoked'' \<mapsto> ''1'')))"
    by auto
  then have "hash_at (purge t (db r1)) ?key \<in> {Some Map.empty, Some (h(''revoked'' \<mapsto> ''1''))}"
    by (auto simp: hash_at_def purge_def Let_def)
  with verify_decides [OF assms(1) raw, of pepper t r1] v show False
    by (fastforce simp: check_record_Inr parse_flags)
qed

text \<open>
  Revoking a token that decodes to fewer than 16 bytes panics: unlike the other operations,
  revocation does not check the length before it splits the bytes.
\<close>

theorem revoke_panics_on_short_token:
  assumes "b64dec C token = Some raw"
  shows "revoke C R now token r = None \<longleftrightarrow> length raw < TOKEN_ID_BYTES"
  using assms by (simp add: revoke_def Let_def split: prod.splits)

text \<open>
  A seeded token verifies like a minted one, and a token of the wrong shape is refused
  without a command to Redis.
\<close>

theorem seed_verify_roundtrip:
  assumes "redis_laws R db" and "crypto_laws C"
    and "0 < ttl" and "0 \<le> now" and "now + ttl < 2 ^ 63" and "t < now + ttl"
  shows "case seed C R pepper now salt token owner scope ttl r of
      (r1, Inr u) \<Rightarrow> snd (verify C R pepper t token r1) \<in> {Inl Upstream, Inr \<lparr>p_owner = owner, p_scope = scope\<rparr>}
    | (r1, Inl e) \<Rightarrow> e = Upstream \<or> r1 = r \<and> token_id C token = None"
proof (cases "b64dec C token")
  case None
  then show ?thesis by (simp add: seed_def token_id_def)
next
  case (Some raw)
  show ?thesis
  proof (cases "length raw = TOKEN_TOTAL_BYTES")
    case False
    with Some show ?thesis by (simp add: seed_def token_id_def)
  next
    case len: True
    let ?key = "token_key (b64enc C (take TOKEN_ID_BYTES raw))"
    show ?thesis
    proof (cases "argon_hash C salt (token @ pepper)")
      case None
      with Some len show ?thesis by (simp add: seed_def hash_token_def Let_def)
    next
      case ph: (Some ph)
      have seed: "seed C R pepper now salt token owner scope ttl r = write_record R now ?key owner scope ph ttl r"
        using Some len ph by (simp add: seed_def hash_token_def Let_def)
      have check: "argon_check C ph (token @ pepper) = Some True" using crypto_argon [OF assms(2) ph] .
      obtain r1 res where w: "write_record R now ?key owner scope ph ttl r = (r1, res)" by fastforce
      show ?thesis
      proof (cases res)
        case (Inl e)
        with w have "e = Upstream" unfolding write_record_def Let_def
          by (auto split: prod.splits simp: rbind_def split: sum.splits dest: with_conn_Inl)
        with Inl w seed show ?thesis by simp
      next
        case (Inr u)
        from write_record_Inr [OF assms(1) w [unfolded Inr] assms(3,6)] obtain h where
          h: "hash_at (purge t (db r1)) ?key = Some (h ++ map_of
            [(''revoked'', ''0''), (''exp'', show_int (now + ttl)), (''phash'', ph), (''scope'', scope_name scope), (''owner'', owner)])" by blast
        have "check_record C pepper t token (h ++ map_of
            [(''revoked'', ''0''), (''exp'', show_int (now + ttl)), (''phash'', ph), (''scope'', scope_name scope), (''owner'', owner)]) =
            Inr \<lparr>p_owner = owner, p_scope = scope\<rparr>"
          by (rule check_written_record [OF check]) (use assms(3-6) in auto)
        with verify_decides [OF assms(1) Some len, of pepper t r1] h have
          "snd (verify C R pepper t token r1) \<in> {Inl Upstream, Inr \<lparr>p_owner = owner, p_scope = scope\<rparr>}" by fastforce
        with w Inr seed show ?thesis by simp
      qed
    qed
  qed
qed

subsection \<open>Witnesses\<close>

text \<open>A coding of bytes as characters and a hash that is the password itself.\<close>

definition ref_crypto :: crypto where
  "ref_crypto =
     \<lparr>b64enc = map (\<lambda>w. char_of (unat w)), b64dec = (\<lambda>s. Some (map (\<lambda>c. word_of_nat (of_char c)) s)),
      argon_hash = (\<lambda>salt pw. Some pw), argon_check = (\<lambda>h pw. Some (h = pw))\<rparr>"

lemma ref_crypto_laws: "crypto_laws ref_crypto"
proof -
  have "unat (w :: u8) < 256" for w using unat_bound [of w] by simp
  then have "word_of_nat (of_char (char_of (unat w))) = w" for w :: u8 by simp
  moreover have "char_of (unat (word_of_nat (of_char c) :: u8)) = c" for c
  proof -
    have "(of_char c :: nat) < 256" by simp
    then have "unat (word_of_nat (of_char c) :: u8) = of_char c" by (simp add: unat_of_nat)
    then show ?thesis by simp
  qed
  ultimately show ?thesis by (auto simp: crypto_laws_def ref_crypto_def map_idI comp_def)
qed

abbreviation raw0 :: "u8 list" where "raw0 \<equiv> replicate 32 65"

definition minted0 :: "mem \<times> (token_error + string)" where
  "minted0 = mint ref_crypto (mem_redis True) ''pp'' 1 raw0 ''s'' ''alice'' User 6 []"

definition token0 :: string where
  "token0 = b64enc ref_crypto raw0"

lemma minted0_ok: "snd minted0 = Inr token0"
  by code_simp

lemma mint_verify_roundtrip_witness:
  "snd (verify ref_crypto (mem_redis True) ''pp'' 3 token0 (fst minted0)) \<in>
     {Inl Upstream, Inr \<lparr>p_owner = ''alice'', p_scope = User\<rparr>}"
proof (rule mint_verify_roundtrip [OF mem_redis_laws ref_crypto_laws])
  show "mint ref_crypto (mem_redis True) ''pp'' 1 raw0 ''s'' ''alice'' User 6 [] = (fst minted0, Inr token0)"
    using minted0_ok by (simp add: minted0_def prod_eq_iff)
qed (simp_all add: TOKEN_TOTAL_BYTES_def TOKEN_ID_BYTES_def)

definition verified0 :: "mem \<times> (token_error + principal)" where
  "verified0 = verify ref_crypto (mem_redis True) ''pp'' 3 token0 (fst minted0)"

lemma verified0_ok: "snd verified0 = Inr \<lparr>p_owner = ''alice'', p_scope = User\<rparr>"
  by code_simp

lemma verify_sound_witness:
  "\<exists>raw rec s ph e. b64dec ref_crypto token0 = Some raw \<and> length raw = TOKEN_TOTAL_BYTES \<and>
    hash_at (purge 3 (mem_abs (fst minted0))) (token_key (b64enc ref_crypto (take TOKEN_ID_BYTES raw))) = Some rec \<and>
    rec ''owner'' = Some ''alice'' \<and> rec ''scope'' = Some s \<and> User = parse_scope s \<and>
    rec ''phash'' = Some ph \<and> argon_check ref_crypto ph (token0 @ ''pp'') = Some True \<and>
    Option.bind (rec ''exp'') parse_i64 = Some e \<and> 3 \<le> e \<and>
    unwrap_or (Option.bind (rec ''revoked'') parse_i64) 0 = 0"
proof -
  have "verify ref_crypto (mem_redis True) ''pp'' 3 token0 (fst minted0) =
      (fst verified0, Inr \<lparr>p_owner = ''alice'', p_scope = User\<rparr>)"
    using verified0_ok by (simp add: verified0_def prod_eq_iff)
  from verify_sound [OF mem_redis_laws this] show ?thesis by simp
qed

definition revoked0 :: "(mem \<times> (token_error + unit)) option" where
  "revoked0 = revoke ref_crypto (mem_redis True) 2 token0 (fst minted0)"

lemma revoked0_ok: "map_option snd revoked0 = Some (Inr ())"
  by code_simp

lemma revoke_effective_witness:
  "\<not> is_ok (snd (verify ref_crypto (mem_redis True) ''pp'' 3 token0 (fst (the revoked0))))"
proof (rule revoke_effective [OF mem_redis_laws])
  show "revoke ref_crypto (mem_redis True) 2 token0 (fst minted0) = Some (fst (the revoked0), Inr ())"
    using revoked0_ok by (cases revoked0) (auto simp: revoked0_def prod_eq_iff)
qed

lemma revoke_panics_on_short_token_witness: "revoke ref_crypto (mem_redis True) 2 ''short'' [] = None"
proof -
  have "b64dec ref_crypto ''short'' = Some (map (\<lambda>c. word_of_nat (of_char c)) ''short'')" by (simp add: ref_crypto_def)
  from revoke_panics_on_short_token [OF this] show ?thesis by (simp add: TOKEN_ID_BYTES_def)
qed

lemma seed_verify_roundtrip_witness:
  "case seed ref_crypto (mem_redis True) ''pp'' 1 ''s'' token0 ''alice'' User 6 [] of
      (r1, Inr u) \<Rightarrow> snd (verify ref_crypto (mem_redis True) ''pp'' 3 token0 r1) \<in> {Inl Upstream, Inr \<lparr>p_owner = ''alice'', p_scope = User\<rparr>}
    | (r1, Inl e) \<Rightarrow> e = Upstream \<or> r1 = [] \<and> token_id ref_crypto token0 = None"
  by (rule seed_verify_roundtrip [OF mem_redis_laws ref_crypto_laws]) simp_all

end
