(* ===== verification/Redact.thy ===== *)
theory Redact
  imports Codec "HOL-Library.Sublist"
begin

text \<open>
  \<open>crates/vihs-core/src/redact.rs\<close>: the owner hash for log lines and the scrubbing of bearer
  tokens and signed-URL credentials. The scanners work on the bytes of a line; a result \<open>None\<close>
  is the panic of a slice that cuts a character, which valid UTF-8 rules out.
\<close>

subsection \<open>Owner hash\<close>

definition HEX :: string where
  "HEX = ''0123456789abcdef''"

definition hex8 :: "u8 list \<Rightarrow> string" where
  "hex8 bs = concat (map (\<lambda>b. [HEX ! unat (drop_bit 4 b), HEX ! unat (and b 0x0f)]) bs)"

definition owner_hash :: "libs \<Rightarrow> string \<Rightarrow> string" where
  "owner_hash L owner = hex8 (take 4 (b3_bytes L owner))"

subsection \<open>Bearer tokens\<close>

definition is_b64url :: "char \<Rightarrow> bool" where
  "is_b64url c =
     (let n = (of_char c :: nat) in
      (48 \<le> n \<and> n \<le> 57) \<or> (65 \<le> n \<and> n \<le> 90) \<or> (97 \<le> n \<and> n \<le> 122) \<or> c = CHR ''-'' \<or> c = CHR ''_'')"

definition utf8_len :: "char \<Rightarrow> nat" where
  "utf8_len c =
     (let b = (of_char c :: nat) in
      if b < 0x80 then 1
      else if b div 2 ^ 5 = 6 then 2
      else if b div 2 ^ 4 = 14 then 3
      else if b div 2 ^ 3 = 30 then 4
      else 1)"

text \<open>
  The scan from position \<open>i\<close>: a marker is copied and the run of token characters after it is
  replaced when it has 24 characters or more; anything else is copied one character at a time.
\<close>

function mask_bearer_from :: "string \<Rightarrow> nat \<Rightarrow> string option" where
  "mask_bearer_from line i =
     (if i < length line then
        if starts_with (drop i line) ''Bearer '' then
          (let start = i + 7;
               j = start + length (takeWhile is_b64url (drop start line)) in
           Option.bind (if j - start \<ge> 24 then Some ''[REDACTED]'' else str_slice line start j)
             (\<lambda>piece. map_option (\<lambda>rest. ''Bearer '' @ piece @ rest) (mask_bearer_from line j)))
        else
          (let ch_len = utf8_len (line ! i) in
           Option.bind (str_slice line i (i + ch_len))
             (\<lambda>piece. map_option (\<lambda>rest. piece @ rest) (mask_bearer_from line (i + ch_len))))
      else Some [])"
  by pat_completeness auto
termination
  by (relation "measure (\<lambda>(line, i). length line - i)") (auto simp: utf8_len_def Let_def)

declare mask_bearer_from.simps [simp del]

definition mask_bearer :: "string \<Rightarrow> string option" where
  "mask_bearer line = mask_bearer_from line 0"

subsection \<open>Signed URLs\<close>

definition PARAMS :: "string list" where
  "PARAMS = [''X-Amz-Signature='', ''X-Amz-Credential='', ''X-Amz-Security-Token='']"

text \<open>\<open>str::find\<close>: the first position where the pattern occurs.\<close>

fun str_find :: "string \<Rightarrow> string \<Rightarrow> nat option" where
  "str_find s p =
     (if starts_with s p then Some 0
      else case s of [] \<Rightarrow> None | c # cs \<Rightarrow> map_option Suc (str_find cs p))"

declare str_find.simps [simp del]

text \<open>The loop over the parameters keeps the earliest hit, the first listed one on a tie.\<close>

fun earliest_param :: "string \<Rightarrow> string list \<Rightarrow> (nat \<times> string) option \<Rightarrow> (nat \<times> string) option" where
  "earliest_param rest [] best = best"
| "earliest_param rest (p # ps) best =
     earliest_param rest ps
       (case str_find rest p of
          None \<Rightarrow> best
        | Some i \<Rightarrow> (case best of None \<Rightarrow> Some (i, p) | Some (e, _) \<Rightarrow> if i < e then Some (i, p) else best))"

lemma str_find_Some: "str_find s p = Some i \<Longrightarrow> s = take i s @ p @ drop (i + length p) s \<and> i + length p \<le> length s"
proof (induction s arbitrary: i)
  case Nil
  then show ?case by (auto simp: str_find.simps [of "[]"] starts_with_def split: if_splits)
next
  case (Cons c s)
  show ?case
  proof (cases "starts_with (c # s) p")
    case True
    with Cons.prems have "i = 0" by (simp add: str_find.simps)
    moreover obtain r where "c # s = p @ r"
      using True unfolding starts_with_def by (metis append_take_drop_id)
    ultimately show ?thesis by (metis add_0 append_Nil append_eq_conv_conj le_add1 length_append take_0)
  next
    case False
    with Cons.prems obtain j where "str_find s p = Some j" "i = Suc j" by (auto simp: str_find.simps [of "c # s"])
    with Cons.IH [of j] show ?thesis by simp
  qed
qed

lemma str_find_append: "\<exists>i. str_find (a @ p @ b) p = Some i \<and> i \<le> length a"
proof (induction a)
  case Nil
  then show ?case by (simp add: str_find.simps)
next
  case (Cons c a)
  then show ?case by (auto simp: str_find.simps [of "c # a @ p @ b"])
qed

lemma earliest_param_least:
  assumes "earliest_param rest ps best = r"
  shows "case r of
      None \<Rightarrow> best = None \<and> (\<forall>q \<in> set ps. str_find rest q = None)
    | Some (i, p) \<Rightarrow> (best = Some (i, p) \<or> p \<in> set ps \<and> str_find rest p = Some i) \<and>
        (\<forall>q \<in> set ps. \<forall>j. str_find rest q = Some j \<longrightarrow> i \<le> j) \<and>
        (\<forall>e q. best = Some (e, q) \<longrightarrow> i \<le> e)"
  using assms
proof (induction ps arbitrary: best)
  case Nil
  then show ?case by (auto split: option.splits)
next
  case (Cons q ps)
  let ?best = "case str_find rest q of None \<Rightarrow> best
        | Some i \<Rightarrow> (case best of None \<Rightarrow> Some (i, q) | Some (e, _) \<Rightarrow> if i < e then Some (i, q) else best)"
  from Cons.prems have "earliest_param rest ps ?best = r" by simp
  from Cons.IH [OF this] show ?case
    by (auto split: option.splits if_splits prod.splits)
qed

lemma earliest_PARAMS:
  assumes "earliest_param rest PARAMS None = Some (i, p)"
  shows "p \<in> set PARAMS" "str_find rest p = Some i"
    "q \<in> set PARAMS \<Longrightarrow> str_find rest q = Some j \<Longrightarrow> i \<le> j"
  using earliest_param_least [OF assms] by auto

function mask_signed_url_params :: "string \<Rightarrow> string" where
  "mask_signed_url_params rest =
     (case earliest_param rest PARAMS None of
        None \<Rightarrow> rest
      | Some (idx, param) \<Rightarrow>
          (let value_start = idx + length param;
               value_end = (case str_find (drop value_start rest) ''&'' of
                              Some e \<Rightarrow> value_start + e | None \<Rightarrow> length rest) in
           take idx rest @ param @ ''[REDACTED]'' @ mask_signed_url_params (drop value_end rest)))"
  by pat_completeness auto
termination
proof (relation "measure length")
  fix rest idx param value_start value_end x y
  assume *: "earliest_param rest PARAMS None = Some x" "(idx, param) = x"
    "value_start = idx + length param"
    "value_end = (case str_find (drop value_start rest) ''&'' of
       Some e \<Rightarrow> value_start + e | None \<Rightarrow> length rest)"
  then have "earliest_param rest PARAMS None = Some (idx, param)" by simp
  from earliest_PARAMS(1,2) [OF this] have "param \<noteq> []" "idx + length param \<le> length rest"
    by (auto simp: PARAMS_def dest: str_find_Some)
  then obtain c cs where "param = c # cs" by (cases param) auto
  with * \<open>idx + length param \<le> length rest\<close> show "(drop value_end rest, rest) \<in> measure length"
    by (auto split: option.splits)
qed simp

declare mask_signed_url_params.simps [simp del]

definition scrub_log_line :: "string \<Rightarrow> string option" where
  "scrub_log_line line = mask_bearer (mask_signed_url_params line)"

subsection \<open>UTF-8\<close>

text \<open>The bytes of a Rust string: every character is a lead byte and its continuation bytes.\<close>

function utf8_ok :: "string \<Rightarrow> bool" where
  "utf8_ok [] = True"
| "utf8_ok (c # cs) =
     (\<not> is_continuation c \<and> utf8_len c - 1 \<le> length cs \<and>
      list_all is_continuation (take (utf8_len c - 1) cs) \<and> utf8_ok (drop (utf8_len c - 1) cs))"
  by pat_completeness auto
termination
  by (relation "measure length") auto

lemma utf8_len_ascii: "(of_char c :: nat) < 128 \<Longrightarrow> utf8_len c = 1 \<and> \<not> is_continuation c"
  by (simp add: utf8_len_def is_continuation_def)

lemma utf8_len_pos: "0 < utf8_len c"
  by (simp add: utf8_len_def Let_def)

lemma utf8_ok_ascii_append: "ascii a \<Longrightarrow> utf8_ok (a @ s) = utf8_ok s"
  by (induction a) (auto simp: ascii_def utf8_len_ascii)

lemma utf8_ok_boundary: "utf8_ok (drop i s) \<Longrightarrow> i \<le> length s \<Longrightarrow> char_boundary s i"
proof (cases "i = length s")
  case False
  moreover assume "utf8_ok (drop i s)" "i \<le> length s"
  ultimately have "drop i s = s ! i # drop (Suc i) s" "i < length s" by (simp_all add: Cons_nth_drop_Suc)
  with \<open>utf8_ok (drop i s)\<close> show ?thesis by (simp add: char_boundary_def)
qed (simp add: char_boundary_def)

lemma utf8_slice:
  assumes "utf8_ok (drop a s)" "utf8_ok (drop b s)" "a \<le> b" "b \<le> length s"
  shows "str_slice s a b = Some (take (b - a) (drop a s))"
  using assms by (simp add: str_slice_def utf8_ok_boundary)

lemma b64url_ascii: "is_b64url c \<Longrightarrow> (of_char c :: nat) < 128"
  by (auto simp: is_b64url_def Let_def)

lemma ascii_run: "ascii (takeWhile is_b64url s)"
  by (auto simp: ascii_def dest!: set_takeWhileD intro: b64url_ascii)

lemma utf8_ok_run: "utf8_ok s \<Longrightarrow> utf8_ok (drop (length (takeWhile is_b64url s)) s)"
  by (metis ascii_run dropWhile_eq_drop takeWhile_dropWhile_id utf8_ok_ascii_append)

lemma utf8_ok_Bearer:
  assumes "utf8_ok s" and "starts_with s ''Bearer ''"
  shows "utf8_ok (drop 7 s)" "7 \<le> length s"
proof -
  from assms(2) have "take 7 s = ''Bearer ''" by (simp add: starts_with_def numeral_eq_Suc)
  then have s: "s = ''Bearer '' @ drop 7 s" by (metis append_take_drop_id)
  have "ascii ''Bearer ''" by (simp add: ascii_def)
  with assms(1) s show "utf8_ok (drop 7 s)" by (metis utf8_ok_ascii_append)
  have "length s = length (''Bearer '' @ drop 7 s)" using s by simp
  then show "7 \<le> length s" by simp
qed

lemma utf8_ok_char:
  assumes "utf8_ok s" and "s \<noteq> []"
  shows "utf8_ok (drop (utf8_len (hd s)) s)" "utf8_len (hd s) \<le> length s"
proof -
  obtain c cs where s: "s = c # cs" using assms(2) by (cases s) auto
  obtain n where "utf8_len c = Suc n" using utf8_len_pos [of c] by (cases "utf8_len c") auto
  with assms(1) s show "utf8_ok (drop (utf8_len (hd s)) s)" "utf8_len (hd s) \<le> length s" by auto
qed

text \<open>The same scan on what is left of the line, without positions and panics.\<close>

function scan_bearer :: "string \<Rightarrow> string" where
  "scan_bearer s =
     (if s = [] then []
      else if starts_with s ''Bearer '' then
        (let run = takeWhile is_b64url (drop 7 s) in
         ''Bearer '' @ (if length run \<ge> 24 then ''[REDACTED]'' else run) @ scan_bearer (drop (7 + length run) s))
      else take (utf8_len (hd s)) s @ scan_bearer (drop (utf8_len (hd s)) s))"
  by pat_completeness auto
termination
  by (relation "measure length") (auto simp: utf8_len_pos)

declare scan_bearer.simps [simp del]

lemma mask_bearer_from_scan:
  "utf8_ok (drop i line) \<Longrightarrow> mask_bearer_from line i = Some (scan_bearer (drop i line))"
proof (induction line i rule: mask_bearer_from.induct)
  case (1 line i)
  let ?s = "drop i line"
  show ?case
  proof (cases "i < length line")
    case True
    then have ne: "?s \<noteq> []" and hd: "hd ?s = line ! i" by (simp_all add: hd_drop_conv_nth)
    show ?thesis
    proof (cases "starts_with ?s ''Bearer ''")
      case mark: True
      let ?run = "takeWhile is_b64url (drop (i + 7) line)"
      let ?j = "i + 7 + length ?run"
      have ok7: "utf8_ok (drop (i + 7) line)" and le7: "i + 7 \<le> length line"
        using utf8_ok_Bearer [OF "1.prems" mark] True by (simp_all add: add.commute)
      have okj: "utf8_ok (drop ?j line)" using utf8_ok_run [OF ok7] by (simp add: add.commute)
      have lej: "?j \<le> length line"
        using length_takeWhile_le [of is_b64url "drop (i + 7) line"] le7 by simp
      have "str_slice line (i + 7) ?j = Some ?run"
        using utf8_slice [OF ok7 okj _ lej] by (simp add: takeWhile_eq_take [symmetric])
      with "1.IH"(1) [OF True mark refl refl] okj True mark show ?thesis
        by (subst mask_bearer_from.simps, subst scan_bearer.simps) (simp add: Let_def ne add.assoc add.commute [of _ i])
    next
      case False
      let ?n = "utf8_len (line ! i)"
      have okn: "utf8_ok (drop (i + ?n) line)" and len: "i + ?n \<le> length line"
        using utf8_ok_char [OF "1.prems" ne] True by (simp_all add: hd add.commute)
      have "str_slice line i (i + ?n) = Some (take ?n ?s)"
        using utf8_slice [OF "1.prems" okn _ len] by simp
      with "1.IH"(2) [OF True False refl] okn True False show ?thesis
        by (subst mask_bearer_from.simps, subst scan_bearer.simps) (simp add: Let_def ne hd add.commute)
    qed
  qed (simp add: mask_bearer_from.simps scan_bearer.simps)
qed

lemma mask_bearer_scan: "utf8_ok line \<Longrightarrow> mask_bearer line = Some (scan_bearer line)"
  using mask_bearer_from_scan [of 0 line] by (simp add: mask_bearer_def)

subsection \<open>Occurrences\<close>

lemma starts_with_drop:
  "p \<noteq> [] \<Longrightarrow> starts_with (drop n s) p \<longleftrightarrow> n + length p \<le> length s \<and> (\<forall>k < length p. s ! (n + k) = p ! k)"
proof -
  assume p: "p \<noteq> []"
  have "n + length p \<le> length s" if "take (length p) (drop n s) = p"
  proof -
    have "min (length p) (length s - n) = length p" using arg_cong [OF that, of length] by (simp add: min.commute)
    with p show ?thesis by (cases "n \<le> length s") (auto simp: min_def split: if_splits)
  qed
  moreover have "take (length p) (drop n s) = p \<longleftrightarrow> (\<forall>k < length p. s ! (n + k) = p ! k)" if "n + length p \<le> length s"
    using that by (simp add: list_eq_iff_nth_eq)
  ultimately show ?thesis unfolding starts_with_def by blast
qed

lemma str_find_iff:
  assumes "p \<noteq> []"
  shows "str_find s p = Some i \<longleftrightarrow> starts_with (drop i s) p \<and> (\<forall>j < i. \<not> starts_with (drop j s) p)"
proof (induction s arbitrary: i)
  case Nil
  with assms show ?case by (simp add: str_find.simps [of "[]"] starts_with_def)
next
  case (Cons c s)
  show ?case
    by (cases i) (auto simp: str_find.simps [of "c # s"] Cons.IH All_less_Suc2)
qed

lemma str_find_None: "p \<noteq> [] \<Longrightarrow> str_find s p = None \<Longrightarrow> \<not> starts_with (drop j s) p"
proof (induction s arbitrary: j)
  case (Cons c s)
  then show ?case by (cases j) (auto simp: str_find.simps [of "c # s"] split: if_splits)
qed (simp add: starts_with_def)

lemma str_find_least:
  assumes "p \<noteq> []" and "starts_with (drop j s) p"
  obtains i where "str_find s p = Some i" "i \<le> j"
  using assms by (cases "str_find s p") (auto simp: str_find_None str_find_iff not_less [symmetric])

subsection \<open>What the bearer scan leaves\<close>

lemma char_no_marker:
  assumes "utf8_ok s" "s \<noteq> []" "starts_with (drop i s) ''Bearer ''" "0 < i"
  shows "utf8_len (hd s) \<le> i"
proof (rule ccontr)
  assume "\<not> utf8_len (hd s) \<le> i"
  moreover obtain c cs where s: "s = c # cs" using assms(2) by (cases s) auto
  ultimately have i: "i - 1 < utf8_len c - 1" "i = Suc (i - 1)" using assms(4) by auto
  from s assms(1) have all: "list_all is_continuation (take (utf8_len c - 1) cs)" "utf8_len c - 1 \<le> length cs" by auto
  then have "is_continuation (cs ! (i - 1))"
    using i by (auto simp: list_all_length)
  moreover from assms(3) have "s ! i = CHR ''B''"
    by (auto simp: starts_with_drop numeral_eq_Suc All_less_Suc2)
  then have "cs ! (i - 1) = CHR ''B''" using s i by (metis nth_Cons_Suc)
  ultimately show False by (simp add: is_continuation_def)
qed

lemma scan_bearer_skip:
  "utf8_ok s \<Longrightarrow> str_find s ''Bearer '' = Some i \<Longrightarrow> scan_bearer s = take i s @ scan_bearer (drop i s)"
proof (induction s arbitrary: i rule: scan_bearer.induct)
  case (1 s)
  show ?case
  proof (cases "i = 0")
    case False
    with "1.prems" have ne: "s \<noteq> []" and no: "\<not> starts_with s ''Bearer ''" and at: "starts_with (drop i s) ''Bearer ''"
      by (auto simp: str_find_iff starts_with_def)
    let ?n = "utf8_len (hd s)"
    have n: "?n \<le> i" using char_no_marker [OF "1.prems"(1) ne at] False by simp
    have "str_find (drop ?n s) ''Bearer '' = Some (i - ?n)"
      using "1.prems"(2) n by (auto simp: str_find_iff)
    then have "scan_bearer (drop ?n s) = take (i - ?n) (drop ?n s) @ scan_bearer (drop i s)"
      using "1.IH"(2) [OF ne no] utf8_ok_char(1) [OF "1.prems"(1) ne] n by simp
    then show ?thesis
      using n ne no by (subst scan_bearer.simps) (simp add: append_assoc [symmetric] take_add [symmetric] del: append_assoc)
  qed simp
qed

lemma scan_boundary: "utf8_ok s \<Longrightarrow> str_find s ''Bearer '' = Some i \<Longrightarrow> utf8_ok (drop i s)"
proof (induction s arbitrary: i rule: scan_bearer.induct)
  case (1 s)
  show ?case
  proof (cases "i = 0")
    case False
    with "1.prems" have ne: "s \<noteq> []" and no: "\<not> starts_with s ''Bearer ''" and at: "starts_with (drop i s) ''Bearer ''"
      by (auto simp: str_find_iff starts_with_def)
    let ?n = "utf8_len (hd s)"
    have n: "?n \<le> i" using char_no_marker [OF "1.prems"(1) ne at] False by simp
    have "str_find (drop ?n s) ''Bearer '' = Some (i - ?n)"
      using "1.prems"(2) n by (auto simp: str_find_iff)
    then show ?thesis
      using "1.IH"(2) [OF ne no] utf8_ok_char(1) [OF "1.prems"(1) ne] n by simp
  qed (use "1.prems" in simp)
qed

lemma ascii_Bearer: "ascii ''Bearer ''"
  by (simp add: ascii_def)

lemma scan_bearer_plain:
  "utf8_ok s \<Longrightarrow> str_find s ''Bearer '' = None \<Longrightarrow> scan_bearer s = s"
proof (induction s rule: scan_bearer.induct)
  case (1 s)
  show ?case
  proof (cases "s = []")
    case False
    let ?n = "utf8_len (hd s)"
    have no: "\<not> starts_with (drop j s) ''Bearer ''" for j using str_find_None "1.prems"(2) by simp
    from this [of 0] have no0: "\<not> starts_with s ''Bearer ''" by simp
    have "str_find (drop ?n s) ''Bearer '' = None"
    proof (cases "str_find (drop ?n s) ''Bearer ''")
      case (Some i)
      then show ?thesis using no [of "i + ?n"] by (simp add: str_find_iff)
    qed
    with "1.IH"(2) [OF False no0] utf8_ok_char(1) [OF "1.prems"(1) False]
    have "scan_bearer (drop ?n s) = drop ?n s" by simp
    with False no0 show ?thesis by (subst scan_bearer.simps) simp
  qed (simp add: scan_bearer.simps)
qed

lemma scan_bearer_token:
  assumes "list_all is_b64url tok" "post = [] \<or> \<not> is_b64url (hd post)"
  shows "scan_bearer (''Bearer '' @ tok @ post) =
    ''Bearer '' @ (if 24 \<le> length tok then ''[REDACTED]'' else tok) @ scan_bearer post"
proof -
  have "takeWhile is_b64url post = []" using assms(2) by (cases post) auto
  with assms(1) have "takeWhile is_b64url (tok @ post) = tok"
    by (simp add: list_all_iff takeWhile_append2)
  then show ?thesis
    by (subst scan_bearer.simps) (simp add: Let_def starts_with_def numeral_eq_Suc)
qed

subsection \<open>What the signed-URL scan leaves\<close>

lemma PARAMS_shape:
  assumes "p \<in> set PARAMS"
  shows "p \<noteq> []" "p ! 0 = CHR ''X''" "CHR ''['' \<notin> set p" "\<And>k. 0 < k \<Longrightarrow> k < length p \<Longrightarrow> p ! k \<noteq> CHR ''X''"
proof -
  show "p \<noteq> []" "p ! 0 = CHR ''X''" "CHR ''['' \<notin> set p" using assms by (auto simp: PARAMS_def)
  fix k :: nat
  assume k: "0 < k" "k < length p"
  have "CHR ''X'' \<notin> set (tl p)" using assms by (auto simp: PARAMS_def)
  moreover have "p ! k = tl p ! (k - 1)" "k - 1 < length (tl p)" using k by (auto simp: nth_tl)
  ultimately show "p ! k \<noteq> CHR ''X''" by (metis nth_mem)
qed

lemma PARAMS_prefix: "p \<in> set PARAMS \<Longrightarrow> q \<in> set PARAMS \<Longrightarrow> length p \<le> length q \<Longrightarrow> take (length p) q = p \<Longrightarrow> p = q"
  by (auto simp: PARAMS_def)

lemma mask_step_no_leak:
  assumes q: "q \<in> set PARAMS" and p: "p \<in> set PARAMS"
    and red: "red \<noteq> []" "red ! 0 = CHR ''[''" "CHR ''X'' \<notin> set red"
    and first: "\<And>n. n < length pre \<Longrightarrow> \<not> starts_with (drop n (pre @ q)) p"
    and IH: "\<And>n. starts_with (drop n tail) p \<Longrightarrow> starts_with (drop (n + length p) tail) red"
    and occ: "starts_with (drop n (pre @ q @ red @ tail)) p"
  shows "starts_with (drop (n + length p) (pre @ q @ red @ tail)) red"
proof -
  let ?s = "pre @ q @ red @ tail"
  let ?i = "length pre" and ?r = "length pre + length q"
  note P = PARAMS_shape [OF p] and Q = PARAMS_shape [OF q]
  note at = occ [unfolded starts_with_drop [OF P(1)], THEN conjunct2, rule_format]
  have bracket: "?s ! ?r = CHR ''[''" using red by (simp add: nth_append)
  have head: "?s ! n = CHR ''X''" using at [of 0] P(1,2) by simp
  have short: "n + length p \<le> ?r" if "n < ?r"
  proof (rule ccontr)
    assume *: "\<not> n + length p \<le> ?r"
    then have "?r - n < length p" using that by simp
    with at [of "?r - n"] that bracket P(3) show False by (metis add_diff_inverse_nat less_imp_not_less nth_mem)
  qed
  consider "n < ?i" | "n = ?i" | "?i < n" "n < ?r" | "?r \<le> n" "n < ?r + length red" | "?r + length red \<le> n" by linarith
  then show ?thesis
  proof cases
    case 1
    with short Q(1) have "n + length p \<le> length (pre @ q)" by simp
    moreover have "(pre @ q) ! (n + k) = p ! k" if "k < length p" for k
      using at [OF that] calculation that by (simp add: nth_append split: if_splits)
    ultimately have "starts_with (drop n (pre @ q)) p" unfolding starts_with_drop [OF P(1)] by blast
    with first [OF 1] show ?thesis by simp
  next
    case 2
    with short Q(1) have le: "length p \<le> length q" by simp
    have "take (length p) q = p"
    proof (rule nth_equalityI)
      fix k assume "k < length (take (length p) q)"
      with at [of k] 2 le show "take (length p) q ! k = p ! k" by (simp add: nth_append)
    qed (simp add: le)
    with PARAMS_prefix [OF p q le] 2 show ?thesis by (simp add: starts_with_def)
  next
    case 3
    then have "?s ! n = q ! (n - ?i)" by (simp add: nth_append less_diff_conv2)
    with head Q(4) [of "n - ?i"] 3 show ?thesis by simp
  next
    case 4
    then obtain m where "n = ?r + m" "m < length red" by (auto simp: le_iff_add)
    then have "?s ! n \<in> set red" by (simp add: nth_append)
    with head red(3) show ?thesis by simp
  next
    case 5
    then obtain m where n: "n = ?r + length red + m" by (auto simp: le_iff_add)
    with occ IH [of m] show ?thesis by (simp add: add.assoc)
  qed
qed

lemma earliest_PARAMS_None: "earliest_param rest PARAMS None = None \<Longrightarrow> p \<in> set PARAMS \<Longrightarrow> \<not> starts_with (drop n rest) p"
  using earliest_param_least [of rest PARAMS None None] str_find_None PARAMS_shape(1) by auto

lemma mask_signed_url_no_leak:
  assumes "p \<in> set PARAMS"
  shows "starts_with (drop n (mask_signed_url_params line)) p \<Longrightarrow>
    starts_with (drop (n + length p) (mask_signed_url_params line)) ''[REDACTED]''"
proof (induction line arbitrary: n rule: mask_signed_url_params.induct)
  case (1 line)
  show ?case
  proof (cases "earliest_param line PARAMS None")
    case None
    with "1.prems" earliest_PARAMS_None [OF None assms] show ?thesis by (simp add: mask_signed_url_params.simps)
  next
    case (Some x)
    obtain idx q where x: "x = (idx, q)" by (cases x)
    note E = earliest_PARAMS [OF Some [unfolded x]]
    from str_find_Some [OF E(2)] have line: "line = take idx line @ q @ drop (idx + length q) line"
      and idx: "idx + length q \<le> length line" by auto
    define e where "e = (case str_find (drop (idx + length q) line) ''&'' of
        Some e \<Rightarrow> idx + length q + e | None \<Rightarrow> length line)"
    let ?tail = "mask_signed_url_params (drop e line)"
    have eq: "mask_signed_url_params line = take idx line @ q @ ''[REDACTED]'' @ ?tail"
      using Some x by (subst mask_signed_url_params.simps) (simp add: Let_def e_def)
    have first: "\<not> starts_with (drop n (take idx line @ q)) p" if "n < length (take idx line)" for n
    proof
      assume at: "starts_with (drop n (take idx line @ q)) p"
      have "line = (take idx line @ q) @ drop (idx + length q) line" using line by simp
      moreover have "starts_with (drop n ((take idx line @ q) @ r)) p" for r
        using at PARAMS_shape(1) [OF assms] by (auto simp del: drop_append append_assoc simp: starts_with_drop nth_append [of "take idx line @ q"])
      ultimately have "starts_with (drop n line) p" by metis
      then obtain i where "str_find line p = Some i" "i \<le> n"
        using str_find_least PARAMS_shape(1) [OF assms] by metis
      with E(3) [OF assms] that show False by fastforce
    qed
    have IH: "starts_with (drop (n + length p) ?tail) ''[REDACTED]''" if "starts_with (drop n ?tail) p" for n
      using "1.IH" [OF Some x [symmetric] refl e_def that] .
    show ?thesis
      unfolding eq
      by (rule mask_step_no_leak [OF E(1) assms _ _ _ first IH "1.prems" [unfolded eq]]) simp_all
  qed
qed

lemma mask_signed_url_plain:
  assumes "\<And>p n. p \<in> set PARAMS \<Longrightarrow> \<not> starts_with (drop n line) p"
  shows "mask_signed_url_params line = line"
proof (cases "earliest_param line PARAMS None")
  case (Some x)
  obtain idx q where "x = (idx, q)" by (cases x)
  with earliest_PARAMS [OF Some [unfolded this]] assms PARAMS_shape(1) show ?thesis
    by (auto simp: str_find_iff)
qed (simp add: mask_signed_url_params.simps)

subsection \<open>Properties\<close>

text \<open>
  Bearer masking never panics on a UTF-8 line, leaves a line without the marker as it is,
  and replaces the first bearer token: when the first marker of the line is followed by a run of
  at least 24 token characters, the output is the text before the marker, the marker, the
  placeholder, and the masked rest of the line. No character of the token is left.
\<close>

theorem mask_bearer_correct:
  assumes "utf8_ok line"
  shows "case str_find line ''Bearer '' of
      None \<Rightarrow> mask_bearer line = Some line
    | Some i \<Rightarrow>
        (let tok = takeWhile is_b64url (drop (i + 7) line); post = drop (i + 7 + length tok) line in
         \<exists>out. mask_bearer post = Some out \<and>
           mask_bearer line = Some (take i line @ ''Bearer '' @
             (if 24 \<le> length tok then ''[REDACTED]'' else tok) @ out))"
proof (cases "str_find line ''Bearer ''")
  case None
  then show ?thesis using mask_bearer_scan [OF assms] scan_bearer_plain [OF assms] by simp
next
  case (Some i)
  define tok where "tok = takeWhile is_b64url (drop (i + 7) line)"
  define post where "post = drop (i + 7 + length tok) line"
  have post: "post = dropWhile is_b64url (drop (i + 7) line)"
    by (simp add: post_def tok_def dropWhile_eq_drop add.commute add.left_commute)
  have tok: "list_all is_b64url tok" "post = [] \<or> \<not> is_b64url (hd post)"
    using hd_dropWhile [of is_b64url "drop (i + 7) line"]
    by (auto simp: tok_def post list_all_iff dest: set_takeWhileD)
  from Some have "take 7 (drop i line) = ''Bearer ''" by (simp add: str_find_iff starts_with_def numeral_eq_Suc)
  then have line: "drop i line = ''Bearer '' @ tok @ post"
    unfolding tok_def post by (metis add.commute append_take_drop_id drop_drop takeWhile_dropWhile_id)
  have "utf8_ok (drop i line)"
    using scan_boundary [OF assms Some] .
  with line have "utf8_ok post" using ascii_run [of "drop (i + 7) line"]
    by (metis tok_def utf8_ok_ascii_append ascii_Bearer)
  moreover have "mask_bearer line = Some (take i line @ ''Bearer '' @
        (if 24 \<le> length tok then ''[REDACTED]'' else tok) @ scan_bearer post)"
    using scan_bearer_token [OF tok] scan_bearer_skip [OF assms Some] mask_bearer_scan [OF assms] line by simp
  ultimately show ?thesis
    using Some mask_bearer_scan [of post] by (simp add: Let_def tok_def [symmetric] post_def [symmetric])
qed

text \<open>
  No signed-URL credential survives: wherever one of the three parameter names occurs in
  the output of the masking, the placeholder follows it at once; and a line in which none of
  them occurs is left as it is.
\<close>

theorem mask_signed_url_params_no_leak:
  assumes "p \<in> set PARAMS" and "starts_with (drop n (mask_signed_url_params line)) p"
  shows "starts_with (drop (n + length p) (mask_signed_url_params line)) ''[REDACTED]''"
  using mask_signed_url_no_leak [OF assms] .

text \<open>
  A token after a doubled marker is not masked: in \<open>Bearer Bearer <token>\<close> the second
  word is read as a run of six token characters, the scan resumes after it, and no marker starts
  there any more, so any token whatever is copied to the output.
\<close>

theorem mask_bearer_doubled_marker_leaks:
  assumes "list_all is_b64url tok"
  shows "mask_bearer (''Bearer Bearer '' @ tok) = Some (''Bearer Bearer '' @ tok)"
proof -
  have no: "CHR '' '' \<notin> set tok" "ascii tok" using assms by (auto simp: list_all_iff is_b64url_def Let_def ascii_def)
  have "str_find ('' '' @ tok) ''Bearer '' = None"
  proof (cases "str_find ('' '' @ tok) ''Bearer ''")
    case (Some i)
    from str_find_Some [OF this] have "'' '' @ tok = take i ('' '' @ tok) @ ''Bearer '' @ drop (i + 7) ('' '' @ tok)"
      by (simp add: numeral_eq_Suc)
    then have "tok = drop 1 (take i ('' '' @ tok) @ ''Bearer '' @ drop (i + 7) ('' '' @ tok))" by (metis drop0 drop_Suc_Cons One_nat_def append_Cons append_Nil)
    from arg_cong [OF this, of set] have "CHR '' '' \<in> set tok" by (cases i) auto
    with no show ?thesis by simp
  qed simp
  moreover have ok: "utf8_ok (a @ tok)" if "ascii a" for a
    using no(2) that utf8_ok_ascii_append [of "a @ tok" "[]"] by (auto simp: ascii_def)
  ultimately have "scan_bearer ('' '' @ tok) = '' '' @ tok" 
    using scan_bearer_plain [OF ok [of "'' ''"]] by (simp add: ascii_def)
  moreover have "scan_bearer (''Bearer '' @ ''Bearer'' @ '' '' @ tok) = ''Bearer '' @ ''Bearer'' @ scan_bearer ('' '' @ tok)"
    by (subst scan_bearer_token) (simp_all add: is_b64url_def)
  moreover have "utf8_ok (''Bearer Bearer '' @ tok)" by (rule ok) (simp add: ascii_def)
  ultimately show ?thesis by (simp add: mask_bearer_scan)
qed

lemma hex8_length: "length (hex8 bs) = 2 * length bs"
  by (induction bs) (simp_all add: hex8_def)

lemma nibbles: "unat (drop_bit 4 (b :: u8)) < 16" "unat (and b 0x0f) < 16"
proof -
  have "unat b < 256" using unat_bound [of b] by simp
  then show "unat (drop_bit 4 b) < 16" by (simp add: drop_bit_eq_div unat_div)
  have "and b 0x0f = take_bit 4 b" by (simp add: take_bit_eq_mask mask_numeral)
  then show "unat (and b 0x0f) < 16" using take_bit_nat_less_exp [of 4 "unat b"] by (simp add: unsigned_take_bit_eq)
qed

lemma hex8_chars: "set (hex8 bs) \<subseteq> set HEX"
proof -
  have "HEX ! n \<in> set HEX" if "n < 16" for n using that by (intro nth_mem) (simp add: HEX_def numeral_eq_Suc)
  with nibbles show ?thesis by (auto simp: hex8_def)
qed

text \<open>
  The owner hash that stands for an owner in the logs is always eight hexadecimal
  characters, whatever the owner string is.
\<close>

theorem owner_hash_shape:
  assumes "digest_laws L"
  shows "length (owner_hash L owner) = 8 \<and> set (owner_hash L owner) \<subseteq> set HEX"
  using assms hex8_chars [of "take 4 (b3_bytes L owner)"]
  by (simp add: owner_hash_def hex8_length digest_laws_def min_def)

subsection \<open>Witnesses\<close>

lemma owner_hash_shape_witness: "length (owner_hash ref_libs ''alice'') = 8 \<and> set (owner_hash ref_libs ''alice'') \<subseteq> set HEX"
  by (rule owner_hash_shape [OF ref_digest_laws])

lemma mask_bearer_correct_witness:
  "mask_bearer ''a Bearer abcdefghijklmnopqrstuvwx end'' = Some ''a Bearer [REDACTED] end''"
proof -
  let ?line = "''a Bearer abcdefghijklmnopqrstuvwx end''" and ?tok = "''abcdefghijklmnopqrstuvwx''"
  have ok: "utf8_ok ?line" by code_simp
  have find: "str_find ?line ''Bearer '' = Some 2" by code_simp
  have run: "takeWhile is_b64url (drop (2 + 7) ?line) = ?tok" by code_simp
  have rest: "drop (2 + 7 + length ?tok) ?line = '' end''" by code_simp
  have out: "mask_bearer '' end'' = Some '' end''" by code_simp
  have "24 \<le> length ?tok" by code_simp
  then show ?thesis
    using mask_bearer_correct [OF ok, unfolded find option.case Let_def run rest out] by simp
qed

lemma mask_signed_url_params_no_leak_witness:
  "starts_with (drop (4 + length ''X-Amz-Signature='') (mask_signed_url_params ''u?a&X-Amz-Signature=k&b'')) ''[REDACTED]''"
proof (rule mask_signed_url_params_no_leak)
  show "''X-Amz-Signature='' \<in> set PARAMS" by (simp add: PARAMS_def)
  show "starts_with (drop 4 (mask_signed_url_params ''u?a&X-Amz-Signature=k&b'')) ''X-Amz-Signature=''"
    by code_simp
qed

lemma mask_bearer_doubled_marker_leaks_witness:
  "mask_bearer (''Bearer Bearer '' @ ''abcdefghijklmnopqrstuvwxyz'') = Some ''Bearer Bearer abcdefghijklmnopqrstuvwxyz''"
proof -
  have "list_all is_b64url ''abcdefghijklmnopqrstuvwxyz''" by code_simp
  from mask_bearer_doubled_marker_leaks [OF this] show ?thesis by simp
qed

end
