(* ===== verification/OrchErr.thy ===== *)
theory OrchErr
  imports Tokens Redact
begin

text \<open>
  \<open>crates/orchestrator/src/error.rs\<close>, \<open>tokens.rs\<close>, \<open>authz.rs\<close> and \<open>memoryd_client.rs\<close>: the
  error taxonomy of the control plane with its codes and statuses, the authorizer, and the
  client of the memory service. The HTTP transport is a parameter: a request is answered by a
  status and a body (\<open>None\<close> when the body cannot be read), or fails.
\<close>

subsection \<open>Errors\<close>

datatype orch_error =
    OInvalid string
  | OAuthz string
  | ONotFound string
  | OIntegrityHold string
  | ONoCapacity string
  | OProvider string
  | OUpstream
  | ORateLimited

definition code :: "orch_error \<Rightarrow> string" where
  "code e = (case e of
      OInvalid _ \<Rightarrow> ''invalid'' | OAuthz _ \<Rightarrow> ''unauthorized'' | ONotFound _ \<Rightarrow> ''not_found''
    | OIntegrityHold _ \<Rightarrow> ''integrity_hold'' | ONoCapacity _ \<Rightarrow> ''no_capacity''
    | OProvider _ \<Rightarrow> ''provider'' | OUpstream \<Rightarrow> ''upstream'' | ORateLimited \<Rightarrow> ''rate_limited'')"

definition orch_retryable :: "orch_error \<Rightarrow> bool" where
  "orch_retryable e = (case e of
      ONoCapacity _ \<Rightarrow> True | OProvider _ \<Rightarrow> True | OUpstream \<Rightarrow> True | ORateLimited \<Rightarrow> True | _ \<Rightarrow> False)"

definition status :: "orch_error \<Rightarrow> nat" where
  "status e = (case e of
      OInvalid _ \<Rightarrow> 400 | OAuthz _ \<Rightarrow> 401 | ONotFound _ \<Rightarrow> 404 | OIntegrityHold _ \<Rightarrow> 409
    | ONoCapacity _ \<Rightarrow> 503 | OProvider _ \<Rightarrow> 503 | OUpstream \<Rightarrow> 503 | ORateLimited \<Rightarrow> 429)"

definition from_token_error :: "token_error \<Rightarrow> orch_error" where
  "from_token_error e = (case e of Authz m \<Rightarrow> OAuthz m | Upstream \<Rightarrow> OUpstream)"

datatype memoryd_client_error = Http | Status nat string | Payload

definition from_client_error :: "memoryd_client_error \<Rightarrow> orch_error" where
  "from_client_error e =
     (case e of
        Status st body \<Rightarrow>
          if st = 409 \<and> str_find body ''integrity_hold'' \<noteq> None then OIntegrityHold body else OUpstream
      | _ \<Rightarrow> OUpstream)"

subsection \<open>The client of the memory service\<close>

datatype http_method = GET | POST | DELETE

record http_request =
  rq_method :: http_method
  rq_url :: string
  rq_bearer :: string
  rq_body :: "json option"

record http_response =
  rs_status :: nat
  rs_body :: "bytes option"

text \<open>The transport: a request on the network's state, a response or a failure.\<close>

type_synonym 'h http = "http_request \<Rightarrow> 'h \<Rightarrow> 'h \<times> http_response option"

definition is_success :: "nat \<Rightarrow> bool" where
  "is_success st = (200 \<le> st \<and> st < 300)"

record load_result =
  lr_tip_hash :: string
  lr_last_turn_id :: u64
  lr_epoch :: u64
  lr_memory_url :: "string option"

text \<open>\<open>trim_end_matches('/')\<close> and the scheme.\<close>

definition client_base :: "string \<Rightarrow> string" where
  "client_base base =
     (let b = rev (dropWhile (\<lambda>c. c = CHR ''/'') (rev base)) in
      if starts_with b ''http://'' \<or> starts_with b ''https://'' then b else ''http://'' @ b)"

definition session_url :: "string \<Rightarrow> string \<Rightarrow> string \<Rightarrow> string" where
  "session_url base sid rest = base @ ''/v1/sessions/'' @ sid @ rest"

text \<open>A call whose body is read as JSON, and one whose body is read as text.\<close>

definition json_call :: "libs \<Rightarrow> 'h http \<Rightarrow> http_request \<Rightarrow> 'h \<Rightarrow> 'h \<times> (memoryd_client_error + json)" where
  "json_call L net rq h =
     (case net rq h of
        (h', None) \<Rightarrow> (h', Inl Http)
      | (h', Some rs) \<Rightarrow>
          (h', rbind (ok_or (Option.bind (rs_body rs) (from_slice L)) Payload) (\<lambda>body.
               if \<not> is_success (rs_status rs) then Inl (Status (rs_status rs) (unwrap_or (to_vec L body) []))
               else Inr body)))"

definition client_load :: "libs \<Rightarrow> 'h http \<Rightarrow> string \<Rightarrow> string \<Rightarrow> string \<Rightarrow> 'h \<Rightarrow> 'h \<times> (memoryd_client_error + load_result)" where
  "client_load L net base sid token h =
     (let (h', res) = json_call L net
        \<lparr>rq_method = POST, rq_url = session_url base sid ''/load'', rq_bearer = token, rq_body = None\<rparr> h in
      (h', rbind res (\<lambda>body.
        let cursor = jidx body ''cursor'' in
        Inr \<lparr>lr_tip_hash = unwrap_or (as_str (jidx cursor ''tip_hash'')) [],
             lr_last_turn_id = unwrap_or (as_u64 (jidx cursor ''last_turn_id'')) 0,
             lr_epoch = unwrap_or (as_u64 (jidx cursor ''epoch'')) 0,
             lr_memory_url = as_str (jidx body ''memory_url'')\<rparr>)))"

definition client_append_event ::
    "libs \<Rightarrow> 'h http \<Rightarrow> string \<Rightarrow> string \<Rightarrow> string \<Rightarrow> json \<Rightarrow> 'h \<Rightarrow> 'h \<times> (memoryd_client_error + json)" where
  "client_append_event L net base sid token body h =
     json_call L net
       \<lparr>rq_method = POST, rq_url = session_url base sid ''/events'', rq_bearer = token, rq_body = Some body\<rparr> h"

definition create_note :: "string \<Rightarrow> string \<Rightarrow> string \<Rightarrow> json" where
  "create_note sid owner now =
     jobject [(''v'', ju64 1), (''session_id'', JStr sid), (''turn_id'', ju64 0), (''ts'', JStr now),
       (''role'', JStr ''system''), (''kind'', JStr ''note''), (''text'', JStr ''session created''),
       (''meta'', jobject [(''interrupted'', JBool False), (''owner'', JStr owner)])]"

definition client_create_session ::
    "libs \<Rightarrow> 'h http \<Rightarrow> string \<Rightarrow> string \<Rightarrow> string \<Rightarrow> string \<Rightarrow> string \<Rightarrow> 'h \<Rightarrow> 'h \<times> (memoryd_client_error + unit)" where
  "client_create_session L net base sid owner now token h =
     (let (h', res) = client_append_event L net base sid token (create_note sid owner now) h in
      (h', rbind res (\<lambda>_. Inr ())))"

definition client_transcript :: "'h http \<Rightarrow> string \<Rightarrow> string \<Rightarrow> string \<Rightarrow> 'h \<Rightarrow> 'h \<times> (memoryd_client_error + string)" where
  "client_transcript net base sid token h =
     (case net \<lparr>rq_method = GET, rq_url = session_url base sid ''/transcript'', rq_bearer = token, rq_body = None\<rparr> h of
        (h', None) \<Rightarrow> (h', Inl Http)
      | (h', Some rs) \<Rightarrow>
          (h', rbind (ok_or (rs_body rs) Payload) (\<lambda>text.
               if \<not> is_success (rs_status rs) then Inl (Status (rs_status rs) text) else Inr text)))"

definition client_delete_session :: "'h http \<Rightarrow> string \<Rightarrow> string \<Rightarrow> string \<Rightarrow> 'h \<Rightarrow> 'h \<times> (memoryd_client_error + unit)" where
  "client_delete_session net base sid token h =
     (case net \<lparr>rq_method = DELETE, rq_url = session_url base sid [], rq_bearer = token, rq_body = None\<rparr> h of
        (h', None) \<Rightarrow> (h', Inl Http)
      | (h', Some rs) \<Rightarrow>
          (h', if \<not> is_success (rs_status rs)
               then rbind (ok_or (rs_body rs) Payload) (\<lambda>text. Inl (Status (rs_status rs) text))
               else Inr ()))"

definition event_body :: "string \<Rightarrow> string \<Rightarrow> u64 \<Rightarrow> string \<Rightarrow> string \<Rightarrow> string \<Rightarrow> json" where
  "event_body now sid turn_id role kind text =
     jobject [(''v'', ju64 1), (''session_id'', JStr sid), (''turn_id'', ju64 turn_id), (''ts'', JStr now),
       (''role'', JStr role), (''kind'', JStr kind), (''text'', JStr text),
       (''meta'', jobject [(''interrupted'', JBool False)])]"

subsection \<open>The authorizer\<close>

datatype verb = VSession | VAdmin | VPod

definition verb_allows :: "verb \<Rightarrow> scope \<Rightarrow> bool" where
  "verb_allows v s =
     (case v of
        VSession \<Rightarrow> s = User \<or> s = Admin
      | VAdmin \<Rightarrow> s = Admin
      | VPod \<Rightarrow> s = Pod)"

definition allow :: "crypto \<Rightarrow> 'r redis \<Rightarrow> string \<Rightarrow> int \<Rightarrow> string \<Rightarrow> verb \<Rightarrow> 'r \<Rightarrow> 'r \<times> (orch_error + principal)" where
  "allow C R pepper now token v r =
     (if token = [] then (r, Inl (OAuthz ''missing token''))
      else
        (let (r', res) = verify C R pepper now token r in
         (r', rbind (map_err from_token_error res) (\<lambda>p.
              if \<not> verb_allows v (p_scope p) then Inl (OAuthz ''scope not permitted for route'') else Inr p))))"

definition permissive_allow :: "string \<Rightarrow> verb \<Rightarrow> orch_error + principal" where
  "permissive_allow token v =
     (if token = [] then Inl (OAuthz ''missing token'')
      else Inr \<lparr>p_owner = ''dev'', p_scope = (case v of VSession \<Rightarrow> User | VAdmin \<Rightarrow> Admin | VPod \<Rightarrow> Pod)\<rparr>)"

subsection \<open>Properties\<close>

text \<open>
  C11. Scope separation end to end: within the lifetime of a minted token, a route lets it
  through exactly when the scope it was minted with fits the route's verb (user and admin on
  session routes, admin on admin routes, pod on pod routes), and then as the owner it was minted
  for; otherwise it is refused as unauthorized. Only an unreachable Redis gives another answer,
  and that is the retryable upstream error, never a verdict on the token.
\<close>

theorem minted_token_scope_enforced:
  assumes "redis_laws R db" and "crypto_laws C" and "length raw = TOKEN_TOTAL_BYTES"
    and "0 < ttl" and "0 \<le> now" and "now + ttl < 2 ^ 63"
    and "mint C R pepper now raw salt owner scope ttl r = (r1, Inr token)"
    and "t < now + ttl"
  shows "snd (allow C R pepper t token v r1) \<in>
    {Inl OUpstream,
     if (v, scope) \<in> {(VSession, User), (VSession, Admin), (VAdmin, Admin), (VPod, Pod)}
     then Inr \<lparr>p_owner = owner, p_scope = scope\<rparr>
     else Inl (OAuthz ''scope not permitted for route'')}"
proof -
  from assms(7) have "token = b64enc C raw" by (auto simp: mint_def Let_def split: sum.splits prod.splits)
  moreover have "raw \<noteq> []" using assms(3) by (auto simp: TOKEN_TOTAL_BYTES_def TOKEN_ID_BYTES_def)
  ultimately have "token \<noteq> []" using crypto_nonempty [OF assms(2)] by simp
  obtain r2 res where v: "verify C R pepper t token r1 = (r2, res)" by fastforce
  with minted_token_verifies [OF assms] have "res = Inl Upstream \<or> res = Inr \<lparr>p_owner = owner, p_scope = scope\<rparr>" by simp
  then show ?thesis
  proof
    assume "res = Inl Upstream"
    with v \<open>token \<noteq> []\<close> show ?thesis by (simp add: allow_def from_token_error_def)
  next
    assume "res = Inr \<lparr>p_owner = owner, p_scope = scope\<rparr>"
    with v \<open>token \<noteq> []\<close> show ?thesis by (cases v; cases scope) (simp_all add: allow_def verb_allows_def)
  qed
qed

text \<open>
  The integrity verdict survives the hop between services: a response of the memory service
  is reported as an integrity hold (409, not retryable) exactly when its status is 409 and its
  body carries that code; every other failure of the call is reported as the retryable upstream
  error (503).
\<close>

theorem client_error_mapping:
  "(code (from_client_error e) = ''integrity_hold'' \<longleftrightarrow>
      (\<exists>body pre post. e = Status 409 body \<and> body = pre @ ''integrity_hold'' @ post)) \<and>
   (if code (from_client_error e) = ''integrity_hold''
    then status (from_client_error e) = 409 \<and> \<not> orch_retryable (from_client_error e)
    else status (from_client_error e) = 503 \<and> orch_retryable (from_client_error e))"
proof (cases e)
  case (Status st body)
  have "str_find body ''integrity_hold'' \<noteq> None \<longleftrightarrow> (\<exists>pre post. body = pre @ ''integrity_hold'' @ post)"
  proof
    assume "str_find body ''integrity_hold'' \<noteq> None"
    then obtain i where "str_find body ''integrity_hold'' = Some i" by blast
    from str_find_Some [OF this] show "\<exists>pre post. body = pre @ ''integrity_hold'' @ post" by blast
  next
    assume "\<exists>pre post. body = pre @ ''integrity_hold'' @ post"
    then obtain pre post where body: "body = pre @ ''integrity_hold'' @ post" by blast
    obtain i where "str_find body ''integrity_hold'' = Some i"
      using str_find_append [of pre "''integrity_hold''" post] unfolding body by blast
    then show "str_find body ''integrity_hold'' \<noteq> None" by simp
  qed
  then show ?thesis using Status
    by (auto simp: from_client_error_def code_def status_def orch_retryable_def split: if_splits)
qed (auto simp: from_client_error_def code_def status_def orch_retryable_def)

subsection \<open>Witnesses\<close>

lemma minted_token_scope_enforced_witness:
  "snd (allow ref_crypto (mem_redis True) ''pp'' 3 token0 VSession (fst minted0)) \<in> {Inl OUpstream, Inr \<lparr>p_owner = ''alice'', p_scope = User\<rparr>} \<and>
   snd (allow ref_crypto (mem_redis True) ''pp'' 3 token0 VAdmin (fst minted0)) \<in> {Inl OUpstream, Inl (OAuthz ''scope not permitted for route'')} \<and>
   snd (allow ref_crypto (mem_redis True) ''pp'' 3 token0 VPod (fst minted0)) \<in> {Inl OUpstream, Inl (OAuthz ''scope not permitted for route'')}"
proof -
  have m: "mint ref_crypto (mem_redis True) ''pp'' 1 raw0 ''s'' ''alice'' User 6 [] = (fst minted0, Inr token0)"
    using minted0_ok by (simp add: minted0_def prod_eq_iff)
  note enforced = minted_token_scope_enforced [OF mem_redis_laws ref_crypto_laws _ _ _ _ m, of 3]
  show ?thesis
    using enforced [of VSession] enforced [of VAdmin] enforced [of VPod] by (simp add: TOKEN_TOTAL_BYTES_def TOKEN_ID_BYTES_def)
qed

end
