(* ===== verification/Router.thy ===== *)
theory Router
  imports Provider OrchErr "HOL-Library.Product_Lexorder"
begin

text \<open>
  \<open>crates/orchestrator/src/router.rs\<close>: the choice of a pod and the assignment of a session to it.
  The assign channels are the frames sent to each connected pod. An assignment waits for the
  memory service and for Redis between the choice and the commit; what other tasks do to the
  registry and the channels meanwhile is the argument \<open>env\<close>.
\<close>

type_synonym channels = "string \<rightharpoonup> json list"

record assign_outcome =
  ao_pod_id :: string
  ao_addr :: string
  ao_connection_id :: string
  ao_memory_url :: "string option"
  ao_last_turn_id :: u64
  ao_resume :: bool

subsection \<open>Choice\<close>

text \<open>\<open>Iterator::min_by_key\<close>: the first of the least elements.\<close>

fun min_by_key :: "('a \<Rightarrow> 'k::linorder) \<Rightarrow> 'a list \<Rightarrow> 'a option" where
  "min_by_key f [] = None"
| "min_by_key f (x # xs) =
     (case min_by_key f xs of
        None \<Rightarrow> Some x
      | Some y \<Rightarrow> if f y < f x then Some y else Some x)"

definition pick :: "pod_registry \<Rightarrow> u32 \<Rightarrow> channels \<Rightarrow> pod_state option" where
  "pick reg cap ch =
     min_by_key (\<lambda>p. (ps_fill p, ps_id p))
       (filter (\<lambda>p. ch (ps_id p) \<noteq> None)
         (filter (\<lambda>p. ps_state p = Ready \<and> ps_fill p < min (ps_cap p) cap) (pods_snapshot reg)))"

subsection \<open>Assignment\<close>

definition opt_str :: "string option \<Rightarrow> json" where
  "opt_str x = (case x of Some s \<Rightarrow> JStr s | None \<Rightarrow> JNull)"

definition assign_frame :: "string \<Rightarrow> string \<Rightarrow> string \<Rightarrow> load_result \<Rightarrow> json" where
  "assign_frame session_id connection_id pod_token load =
     jobject [(''t'', JStr ''assign''), (''session_id'', JStr session_id), (''connection_id'', JStr connection_id),
       (''memory_url'', opt_str (lr_memory_url load)), (''pod_token'', JStr pod_token),
       (''resume'', JBool (lr_last_turn_id load > 0)),
       (''cursor'', jobject [(''tip_hash'', JStr (lr_tip_hash load)), (''last_turn_id'', ju64 (lr_last_turn_id load)),
          (''epoch'', ju64 (lr_epoch load))])]"

record ('h, 'r) control =
  ct_registry :: pod_registry
  ct_channels :: channels
  ct_net :: 'h
  ct_redis :: 'r

text \<open>The fresh values of one assignment: connection id, token bytes, salt and clock.\<close>

record fresh =
  fr_connection_id :: string
  fr_raw :: "u8 list"
  fr_salt :: string
  fr_now :: int

definition assign_session ::
    "libs \<Rightarrow> 'h http \<Rightarrow> string \<Rightarrow> crypto \<Rightarrow> 'r redis \<Rightarrow> string \<Rightarrow> fresh \<Rightarrow>
     (pod_registry \<times> channels \<Rightarrow> pod_registry \<times> channels) \<Rightarrow> string \<Rightarrow> string \<Rightarrow> ('h, 'r) control \<Rightarrow>
     ('h, 'r) control \<times> (orch_error + assign_outcome)" where
  "assign_session L net base C R pepper fr env session_id user_token w =
     (case pick (ct_registry w) (- 1) (ct_channels w) of
        None \<Rightarrow> (w, Inl (ONoCapacity ''no ready pod with capacity''))
      | Some pod \<Rightarrow>
          (case client_load L net base session_id user_token (ct_net w) of
             (h1, Inl e) \<Rightarrow> (w\<lparr>ct_net := h1\<rparr>, Inl (from_client_error e))
           | (h1, Inr load) \<Rightarrow>
               (case mint C R pepper (fr_now fr) (fr_raw fr) (fr_salt fr) session_id Pod POD_TOKEN_TTL (ct_redis w) of
                  (r1, Inl e) \<Rightarrow> (w\<lparr>ct_net := h1, ct_redis := r1\<rparr>, Inl (from_token_error e))
                | (r1, Inr pod_token) \<Rightarrow>
                    (let (reg1, ch1) = env (ct_registry w, ct_channels w);
                         w1 = w\<lparr>ct_registry := reg1, ct_channels := ch1, ct_net := h1, ct_redis := r1\<rparr> in
                     case ch1 (ps_id pod) of
                       None \<Rightarrow> (w1, Inl (ONoCapacity ''pod lost its assign channel''))
                     | Some sent \<Rightarrow>
                         (w1\<lparr>ct_registry := assign (ps_id pod) reg1,
                             ct_channels := ch1(ps_id pod \<mapsto> sent @ [assign_frame session_id (fr_connection_id fr) pod_token load])\<rparr>,
                          Inr \<lparr>ao_pod_id = ps_id pod, ao_addr = ps_addr pod, ao_connection_id = fr_connection_id fr,
                               ao_memory_url = lr_memory_url load, ao_last_turn_id = lr_last_turn_id load,
                               ao_resume = (lr_last_turn_id load > 0)\<rparr>)))))"

definition eta_hint :: "'p provider \<Rightarrow> int" where
  "eta_hint P = as_secs (pv_cold_start_hint P)"

definition queued_eta :: "'p provider \<Rightarrow> bool \<times> int" where
  "queued_eta P = (True, eta_hint P)"

subsection \<open>The choice is the least loaded\<close>

lemma min_by_key_None: "min_by_key f xs = None \<longleftrightarrow> xs = []"
  by (cases xs) (auto split: option.splits)

lemma min_by_key_Some: "min_by_key f xs = Some x \<Longrightarrow> x \<in> set xs \<and> (\<forall>y \<in> set xs. f x \<le> f y)"
proof (induction xs arbitrary: x)
  case (Cons a xs)
  show ?case
  proof (cases "min_by_key f xs")
    case None
    with Cons.prems show ?thesis by (simp add: min_by_key_None)
  next
    case (Some y)
    with Cons.IH [of y] Cons.prems show ?thesis by (fastforce split: if_splits)
  qed
qed simp

definition eligible :: "pod_registry \<Rightarrow> u32 \<Rightarrow> channels \<Rightarrow> pod_state set" where
  "eligible reg cap ch =
     {p \<in> ran (pr_pods reg). ps_state p = Ready \<and> ps_fill p < ps_cap p \<and> ps_fill p < cap \<and> ch (ps_id p) \<noteq> None}"

lemma pick_candidates:
  assumes "reg_ok reg"
  shows "set (filter (\<lambda>p. ch (ps_id p) \<noteq> None)
     (filter (\<lambda>p. ps_state p = Ready \<and> ps_fill p < min (ps_cap p) cap) (pods_snapshot reg))) = eligible reg cap ch"
  using snapshot_rows(1) [OF assms] by (auto simp: eligible_def)

lemma pick_None: "reg_ok reg \<Longrightarrow> pick reg cap ch = None \<longleftrightarrow> eligible reg cap ch = {}"
  unfolding pick_def min_by_key_None pick_candidates [symmetric] set_empty by (rule refl)

lemma pick_Some:
  assumes "reg_ok reg" and "pick reg cap ch = Some p"
  shows "p \<in> eligible reg cap ch" and "q \<in> eligible reg cap ch \<Longrightarrow> (ps_fill p, ps_id p) \<le> (ps_fill q, ps_id q)"
  using min_by_key_Some [OF assms(2) [unfolded pick_def]] unfolding pick_candidates [OF assms(1)] by blast+

lemma eligible_row:
  assumes "reg_ok reg" and "p \<in> eligible reg cap ch"
  shows "pr_pods reg (ps_id p) = Some p"
  using assms by (auto simp: eligible_def reg_ok_def row_ok_def ran_def)

lemma fill_plus_one:
  assumes "ps_fill p < ps_cap p"
  shows "unat (ps_fill p + 1) = unat (ps_fill p) + 1" and "ps_fill p + 1 \<le> ps_cap p"
proof -
  have "unat (ps_fill p) + 1 < 2 ^ 32" using assms unat_bound [of "ps_cap p"] by (simp add: word_less_nat_alt)
  then show eq: "unat (ps_fill p + 1) = unat (ps_fill p) + 1" by (simp add: unat_word_ariths)
  with assms show "ps_fill p + 1 \<le> ps_cap p" by (simp add: word_le_nat_alt word_less_nat_alt)
qed

lemma assign_row_fill: "ps_fill p < ps_cap p \<Longrightarrow> unat (ps_fill (assign_row p)) = unat (ps_fill p) + 1"
  using fill_plus_one [of p] by (simp add: assign_row_def)

text \<open>The fields of the frame a pod is sent.\<close>

lemma assign_frame_fields:
  "jget (assign_frame sid cid tok load) ''t'' = Some (JStr ''assign'')" "jget (assign_frame sid cid tok load) ''session_id'' = Some (JStr sid)"
  "jget (assign_frame sid cid tok load) ''connection_id'' = Some (JStr cid)" "jget (assign_frame sid cid tok load) ''pod_token'' = Some (JStr tok)"
  "jget (assign_frame sid cid tok load) ''resume'' = Some (JBool (lr_last_turn_id load \<noteq> 0))"
  "jget (assign_frame sid cid tok load) ''memory_url'' = Some (case lr_memory_url load of Some u \<Rightarrow> JStr u | None \<Rightarrow> JNull)"
  "jget (assign_frame sid cid tok load) ''cursor'' = Some (jobject [(''tip_hash'', JStr (lr_tip_hash load)),
     (''last_turn_id'', ju64 (lr_last_turn_id load)), (''epoch'', ju64 (lr_epoch load))])"
  by (simp_all add: assign_frame_def jobject_def [of "(''t'', _) # _"] opt_str_def word_neq_0_conv)

subsection \<open>Properties\<close>

text \<open>
  The router picks a Ready pod with a free slot and a connected channel whenever there is
  one, and of these a least loaded one, the lowest pod id breaking ties; it reports no capacity
  exactly when there is none.
\<close>

theorem pick_least_loaded:
  assumes "reg_ok reg"
  shows "case pick reg cap ch of
      None \<Rightarrow> eligible reg cap ch = {}
    | Some p \<Rightarrow> p \<in> eligible reg cap ch \<and>
        (\<forall>q \<in> eligible reg cap ch. ps_fill p < ps_fill q \<or> ps_fill p = ps_fill q \<and> ps_id p \<le> ps_id q)"
  using pick_None [OF assms, of cap ch] pick_Some [OF assms, of cap ch]
  by (fastforce split: option.split simp: less_eq_prod_def)

lemma assign_session_Inr:
  assumes "assign_session L net base C R pepper fr env sid user_token w = (w', Inr out)"
  obtains pod h1 load r1 tok reg1 ch1 sent where
    "pick (ct_registry w) (- 1) (ct_channels w) = Some pod"
    "client_load L net base sid user_token (ct_net w) = (h1, Inr load)"
    "mint C R pepper (fr_now fr) (fr_raw fr) (fr_salt fr) sid Pod POD_TOKEN_TTL (ct_redis w) = (r1, Inr tok)"
    "env (ct_registry w, ct_channels w) = (reg1, ch1)" "ch1 (ps_id pod) = Some sent"
    "w' = w\<lparr>ct_registry := assign (ps_id pod) reg1,
            ct_channels := ch1(ps_id pod \<mapsto> sent @ [assign_frame sid (fr_connection_id fr) tok load]),
            ct_net := h1, ct_redis := r1\<rparr>"
    "out = \<lparr>ao_pod_id = ps_id pod, ao_addr = ps_addr pod, ao_connection_id = fr_connection_id fr,
            ao_memory_url = lr_memory_url load, ao_last_turn_id = lr_last_turn_id load,
            ao_resume = (lr_last_turn_id load > 0)\<rparr>"
  using assms by (fastforce simp: assign_session_def Let_def split: option.splits prod.splits sum.splits)

text \<open>
  C21. A successful assignment with no other task in between takes exactly one free slot of an
  eligible pod of least load: the pod's fill goes up by one and stays within its capacity, its
  cooldown is cancelled and the rest of its row and every other row are unchanged, the pod's channel
  gets exactly one more frame and the others none. The memory service was asked for this session
  with the user's token; its answer is what the frame and the outcome carry, and the session resumes
  exactly when that answer has a turn. The pod token in the frame verifies, for fifteen minutes, as a
  pod token of this session (or Redis is unreachable).
\<close>

theorem assign_takes_one_slot:
  assumes "redis_laws R db" and "crypto_laws C" and "reg_ok (ct_registry w)"
    and "length (fr_raw fr) = TOKEN_TOTAL_BYTES" and "0 \<le> fr_now fr" and "fr_now fr + POD_TOKEN_TTL < 2 ^ 63"
    and "assign_session L net base C R pepper fr (\<lambda>s. s) sid user_token w = (w', Inr out)"
  shows "\<exists>pod load tok sent frame.
      pod \<in> eligible (ct_registry w) (- 1) (ct_channels w) \<and>
      (\<forall>q \<in> eligible (ct_registry w) (- 1) (ct_channels w). ps_fill pod \<le> ps_fill q) \<and>
      reg_ok (ct_registry w') \<and>
      pr_pods (ct_registry w') = (pr_pods (ct_registry w))(ps_id pod \<mapsto> pod\<lparr>ps_fill := ps_fill pod + 1, ps_cooldown_until := None\<rparr>) \<and>
      unat (ps_fill pod + 1) = unat (ps_fill pod) + 1 \<and> ps_fill pod + 1 \<le> ps_cap pod \<and>
      client_load L net base sid user_token (ct_net w) = (ct_net w', Inr load) \<and>
      ct_channels w (ps_id pod) = Some sent \<and>
      ct_channels w' = (ct_channels w)(ps_id pod \<mapsto> sent @ [frame]) \<and> jget frame ''t'' = Some (JStr ''assign'') \<and>
      jget frame ''session_id'' = Some (JStr sid) \<and> jget frame ''connection_id'' = Some (JStr (fr_connection_id fr)) \<and>
      jget frame ''pod_token'' = Some (JStr tok) \<and> jget frame ''resume'' = Some (JBool (lr_last_turn_id load \<noteq> 0)) \<and>
      jget frame ''memory_url'' = Some (case lr_memory_url load of Some u \<Rightarrow> JStr u | None \<Rightarrow> JNull) \<and>
      jget frame ''cursor'' = Some (jobject [(''tip_hash'', JStr (lr_tip_hash load)), (''last_turn_id'', ju64 (lr_last_turn_id load)),
        (''epoch'', ju64 (lr_epoch load))]) \<and>
      out = \<lparr>ao_pod_id = ps_id pod, ao_addr = ps_addr pod, ao_connection_id = fr_connection_id fr, ao_memory_url = lr_memory_url load,
        ao_last_turn_id = lr_last_turn_id load, ao_resume = (lr_last_turn_id load \<noteq> 0)\<rparr> \<and>
      (\<forall>t < fr_now fr + POD_TOKEN_TTL.
         snd (verify C R pepper t tok (ct_redis w')) \<in> {Inl Upstream, Inr \<lparr>p_owner = sid, p_scope = Pod\<rparr>})"
proof (rule assign_session_Inr [OF assms(7)])
  fix pod h1 load r1 tok reg1 ch1 sent
  assume pick: "pick (ct_registry w) (- 1) (ct_channels w) = Some pod"
    and load: "client_load L net base sid user_token (ct_net w) = (h1, Inr load)"
    and mint: "mint C R pepper (fr_now fr) (fr_raw fr) (fr_salt fr) sid Pod POD_TOKEN_TTL (ct_redis w) = (r1, Inr tok)"
    and env: "(ct_registry w, ct_channels w) = (reg1, ch1)" and sent: "ch1 (ps_id pod) = Some sent"
    and w': "w' = w\<lparr>ct_registry := assign (ps_id pod) reg1,
            ct_channels := ch1(ps_id pod \<mapsto> sent @ [assign_frame sid (fr_connection_id fr) tok load]),
            ct_net := h1, ct_redis := r1\<rparr>"
    and out: "out = \<lparr>ao_pod_id = ps_id pod, ao_addr = ps_addr pod, ao_connection_id = fr_connection_id fr,
            ao_memory_url = lr_memory_url load, ao_last_turn_id = lr_last_turn_id load,
            ao_resume = (lr_last_turn_id load > 0)\<rparr>"
  note least = pick_Some [OF assms(3) pick]
  have row: "pr_pods (ct_registry w) (ps_id pod) = Some pod" using eligible_row [OF assms(3) least(1)] .
  have free: "ps_fill pod < ps_cap pod" using least(1) by (simp add: eligible_def)
  have pods: "pr_pods (assign (ps_id pod) (ct_registry w)) = (pr_pods (ct_registry w))(ps_id pod \<mapsto> assign_row pod)"
    using row by (simp add: assign_def update_row_def)
  have "0 < POD_TOKEN_TTL" by (simp add: POD_TOKEN_TTL_def)
  then have tok: "t < fr_now fr + POD_TOKEN_TTL \<Longrightarrow>
      snd (verify C R pepper t tok r1) \<in> {Inl Upstream, Inr \<lparr>p_owner = sid, p_scope = Pod\<rparr>}" for t
    using minted_token_verifies [OF assms(1,2,4) _ assms(5,6) mint] by blast
  have bound: "unat (ps_fill pod + 1) = unat (ps_fill pod) + 1" "ps_fill pod + 1 \<le> ps_cap pod"
    using fill_plus_one [OF free] by simp_all
  have fill: "assign_row pod = pod\<lparr>ps_fill := ps_fill pod + 1, ps_cooldown_until := None\<rparr>"
    using bound(2) by (simp add: assign_row_def min_def)
  have "\<forall>q \<in> eligible (ct_registry w) (- 1) (ct_channels w). ps_fill pod \<le> ps_fill q"
    using least(2) by (fastforce simp: less_eq_prod_def)
  then show ?thesis
    using least(1) pods fill bound load sent env tok reg_ok_ops(6) [OF assms(3)]
    by (intro exI [of _ pod] exI [of _ load] exI [of _ tok] exI [of _ sent] exI [of _ "assign_frame sid (fr_connection_id fr) tok load"])
      (auto simp: w' out word_neq_0_conv assign_frame_fields)
qed

text \<open>
  The capacity check and the commit of an assignment are not one step. When another
  assignment takes the last slot of the chosen pod while this one waits for the memory service,
  this one still succeeds: the pod gets both frames, one session more than its capacity, and the
  registry, which clamps the fill, shows a pod that is exactly full.
\<close>

theorem assign_overcommits_last_slot:
  assumes "reg_ok (ct_registry w)" and "pick (ct_registry w) (- 1) (ct_channels w) = Some pod"
    and "unat (ps_fill pod) + 1 = unat (ps_cap pod)" and "unat (ps_cap pod) + 1 < 2 ^ 32"
    and "\<And>reg ch. env (reg, ch) = (assign (ps_id pod) reg, ch(ps_id pod := map_option (\<lambda>sent. sent @ [other]) (ch (ps_id pod))))"
    and "assign_session L net base C R pepper fr env sid user_token w = (w', Inr out)"
  shows "ao_pod_id out = ps_id pod \<and>
    (\<exists>sent frame. ct_channels w (ps_id pod) = Some sent \<and> ct_channels w' (ps_id pod) = Some (sent @ [other, frame])) \<and>
    (\<exists>row. pr_pods (ct_registry w') (ps_id pod) = Some row \<and> ps_fill row = ps_cap pod \<and> ps_cap row = ps_cap pod)"
proof (rule assign_session_Inr [OF assms(6)])
  fix pod' h1 load r1 tok reg1 ch1 sent
  assume pick: "pick (ct_registry w) (- 1) (ct_channels w) = Some pod'"
    and env: "env (ct_registry w, ct_channels w) = (reg1, ch1)" and sent: "ch1 (ps_id pod') = Some sent"
    and w': "w' = w\<lparr>ct_registry := assign (ps_id pod') reg1,
            ct_channels := ch1(ps_id pod' \<mapsto> sent @ [assign_frame sid (fr_connection_id fr) tok load]),
            ct_net := h1, ct_redis := r1\<rparr>"
    and out: "out = \<lparr>ao_pod_id = ps_id pod', ao_addr = ps_addr pod', ao_connection_id = fr_connection_id fr,
            ao_memory_url = lr_memory_url load, ao_last_turn_id = lr_last_turn_id load,
            ao_resume = (lr_last_turn_id load > 0)\<rparr>"
  from pick assms(2) have [simp]: "pod' = pod" by simp
  have row: "pr_pods (ct_registry w) (ps_id pod) = Some pod" and free: "ps_fill pod < ps_cap pod"
    using pick_Some(1) [OF assms(1,2)] eligible_row [OF assms(1)] by (auto simp: eligible_def)
  have full: "ps_fill (assign_row pod) = ps_cap pod" "ps_cap (assign_row pod) = ps_cap pod"
    using assign_row_fill [OF free] assms(3) by (simp_all add: word_unat_eq_iff) (simp add: assign_row_def)
  have "ps_cap pod \<le> ps_cap pod + 1" using assms(4) by (simp add: word_le_nat_alt unat_word_ariths)
  then have twice: "ps_fill (assign_row (assign_row pod)) = ps_cap pod" "ps_cap (assign_row (assign_row pod)) = ps_cap pod"
    using full unfolding assign_row_def [of "assign_row pod"] by (simp_all add: min_absorb2)
  from env assms(5) [of "ct_registry w" "ct_channels w"] have reg1: "reg1 = assign (ps_id pod) (ct_registry w)"
    and ch1: "ch1 = (ct_channels w)(ps_id pod := map_option (\<lambda>sent. sent @ [other]) (ct_channels w (ps_id pod)))" by simp_all
  from sent ch1 obtain sent0 where "ct_channels w (ps_id pod) = Some sent0" "sent = sent0 @ [other]" by auto
  moreover have "pr_pods (assign (ps_id pod) reg1) (ps_id pod) = Some (assign_row (assign_row pod))"
    using row by (simp add: reg1 assign_def update_row_def)
  ultimately show ?thesis using twice by (simp add: w' out)
qed

subsection \<open>Witnesses\<close>

text \<open>One Ready pod with one slot, and a memory service without a turn.\<close>

definition reg0 :: pod_registry where
  "reg0 = ready 5 ''p'' (register 1 ''p'' ''a'' 1 None new_registry)"

definition world0 :: "(nat, mem) control" where
  "world0 = \<lparr>ct_registry = reg0, ct_channels = [''p'' \<mapsto> []], ct_net = 0, ct_redis = []\<rparr>"

definition net0 :: "nat http" where
  "net0 rq h = (Suc h, Some \<lparr>rs_status = 200, rs_body = to_vec ref_libs (JObj [])\<rparr>)"

definition fresh0 :: fresh where
  "fresh0 = \<lparr>fr_connection_id = ''c'', fr_raw = raw0, fr_salt = ''s'', fr_now = 1\<rparr>"

definition other_task :: "pod_registry \<times> channels \<Rightarrow> pod_registry \<times> channels" where
  "other_task s = (assign ''p'' (fst s), (snd s)(''p'' := map_option (\<lambda>sent. sent @ [JNull]) (snd s ''p'')))"

definition run0 where
  "run0 env = assign_session ref_libs net0 ''m'' ref_crypto (mem_redis True) ''pp'' fresh0 env ''s1'' ''u'' world0"

definition row1 :: pod_state where
  "row1 = ready_row 5 (new_pod 1 ''p'' ''a'' 1 None)"

lemma reg0_ok: "reg_ok reg0"
  unfolding reg0_def by (intro reg_ok_ops reg_ok_new)

lemma pick0: "pick (ct_registry world0) (- 1) (ct_channels world0) = Some row1"
  by code_simp

lemma run0_ok: "is_ok (snd (run0 (\<lambda>s. s)))" "is_ok (snd (run0 other_task))"
  by code_simp+

lemma pick_least_loaded_witness: "row1 \<in> eligible reg0 (- 1) [''p'' \<mapsto> []]"
  using pick_least_loaded [OF reg0_ok, of "- 1" "[''p'' \<mapsto> []]"] pick0 by (simp add: world0_def)

lemma assign_takes_one_slot_witness:
  "\<exists>w' out pod load. run0 (\<lambda>s. s) = (w', Inr out) \<and> ao_pod_id out = ps_id pod \<and>
     snd (client_load ref_libs net0 ''m'' ''s1'' ''u'' 0) = Inr load \<and> ao_last_turn_id out = lr_last_turn_id load \<and>
     pr_pods (ct_registry w') = (pr_pods reg0)(ps_id pod \<mapsto> pod\<lparr>ps_fill := ps_fill pod + 1, ps_cooldown_until := None\<rparr>)"
proof -
  from run0_ok(1) obtain w' out where run: "run0 (\<lambda>s. s) = (w', Inr out)"
    by (cases "run0 (\<lambda>s. s)"; cases "snd (run0 (\<lambda>s. s))") (auto simp: is_ok_def)
  have "\<exists>pod load. ao_pod_id out = ps_id pod \<and> snd (client_load ref_libs net0 ''m'' ''s1'' ''u'' 0) = Inr load \<and> ao_last_turn_id out = lr_last_turn_id load \<and>
      pr_pods (ct_registry w') = (pr_pods reg0)(ps_id pod \<mapsto> pod\<lparr>ps_fill := ps_fill pod + 1, ps_cooldown_until := None\<rparr>)"
    using assign_takes_one_slot [OF mem_redis_laws ref_crypto_laws _ _ _ _ run [unfolded run0_def]]
    by (fastforce simp: reg0_ok world0_def fresh0_def TOKEN_TOTAL_BYTES_def TOKEN_ID_BYTES_def POD_TOKEN_TTL_def)
  with run show ?thesis by blast
qed

lemma assign_overcommits_last_slot_witness:
  "\<exists>w' out row. run0 other_task = (w', Inr out) \<and> pr_pods (ct_registry w') ''p'' = Some row \<and> ps_fill row = 1 \<and>
     (\<exists>frame. ct_channels w' ''p'' = Some [JNull, frame])"
proof -
  from run0_ok(2) obtain w' out where run: "run0 other_task = (w', Inr out)"
    by (cases "run0 other_task"; cases "snd (run0 other_task)") (auto simp: is_ok_def)
  have row: "ps_id row1 = ''p''" "ps_fill row1 = 0" "ps_cap row1 = 1" by (simp_all add: row1_def ready_row_def new_pod_def)
  have "reg_ok (ct_registry world0)" using reg0_ok by (simp add: world0_def)
  from assign_overcommits_last_slot [OF this pick0 _ _ _ run [unfolded run0_def], of JNull]
  have "(\<exists>sent frame. ct_channels world0 ''p'' = Some sent \<and> ct_channels w' ''p'' = Some (sent @ [JNull, frame])) \<and>
      (\<exists>row. pr_pods (ct_registry w') ''p'' = Some row \<and> ps_fill row = 1)"
    by (auto simp: row other_task_def)
  with run show ?thesis by (auto simp: world0_def)
qed

end
