(* ===== verification/F32.thy ===== *)
theory F32
  imports Base Complex_Main "HOL-Library.Log_Nat"
begin

text \<open>
  The single-precision floats the autoscaler computes with: finite values as the rationals they
  denote, with conversion from \<open>u32\<close>, division and comparison. A result is rounded to 24
  significant bits, ties to even; the values that occur (quotients of \<open>u32\<close> values) are far from
  the limits of the exponent, so neither overflow nor subnormals arise.
\<close>

datatype f32 = Finite rat | Infinite bool | NaN

subsection \<open>Rounding\<close>

text \<open>Nearest integer, ties to even.\<close>

definition round_even :: "rat \<Rightarrow> int" where
  "round_even x =
     (let n = floor x; d = x - of_int n in
      if d < 1 / 2 then n else if d > 1 / 2 then n + 1 else if even n then n else n + 1)"

text \<open>The exponent of a positive rational: the power of two below it.\<close>

definition rat_exponent :: "rat \<Rightarrow> int" where
  "rat_exponent x =
     (let (a, b) = quotient_of x; k = bitlen a - bitlen b in
      if (2 :: rat) powi k \<le> x then k else k - 1)"

definition f32_round :: "rat \<Rightarrow> rat" where
  "f32_round x =
     (if x \<le> 0 then 0
      else let u = 2 powi (rat_exponent x - 23) in of_int (round_even (x / u)) * u)"

subsection \<open>Operations\<close>

definition u32_as_f32 :: "u32 \<Rightarrow> f32" where
  "u32_as_f32 n = Finite (f32_round (of_nat (unat n)))"

text \<open>The quotient of two finite non-negative values, the divisor not zero.\<close>

definition f32_div :: "f32 \<Rightarrow> f32 \<Rightarrow> f32" where
  "f32_div a b = (case (a, b) of (Finite x, Finite y) \<Rightarrow> if y = 0 then NaN else Finite (f32_round (x / y)) | _ \<Rightarrow> NaN)"

definition f32_ge :: "f32 \<Rightarrow> f32 \<Rightarrow> bool" where
  "f32_ge a b =
     (case (a, b) of
        (NaN, _) \<Rightarrow> False
      | (_, NaN) \<Rightarrow> False
      | (Infinite s, Infinite s') \<Rightarrow> \<not> s' \<or> s
      | (Infinite s, Finite _) \<Rightarrow> s
      | (Finite _, Infinite s) \<Rightarrow> \<not> s
      | (Finite x, Finite y) \<Rightarrow> x \<ge> y)"

subsection \<open>Rounding lemmas\<close>

lemma round_even_of_int [simp]: "round_even (of_int n) = n"
  by (simp add: round_even_def)

lemma round_even_mono:
  assumes "x \<le> y"
  shows "round_even x \<le> round_even y"
proof -
  have fl: "floor x \<le> floor y" using assms by (rule floor_mono)
  show ?thesis
  proof (cases "floor x = floor y")
    case True
    with assms show ?thesis by (auto simp: round_even_def Let_def)
  next
    case False
    with fl have "floor x + 1 \<le> floor y" by simp
    then show ?thesis by (auto simp: round_even_def Let_def)
  qed
qed

lemma bitlen_powi:
  assumes "0 < n"
  shows "2 powi (bitlen n - 1) \<le> (of_int n :: rat)" and "(of_int n :: rat) < 2 powi bitlen n"
proof -
  have pos: "1 \<le> bitlen n" using assms bitlen_nonneg [of n] bitlen_eq_zero_iff [of n] by linarith
  have "of_int (2 ^ nat (bitlen n - 1)) \<le> (of_int n :: rat)" "(of_int n :: rat) < of_int (2 ^ nat (bitlen n))"
    using bitlen_bounds [OF assms] by (simp_all only: of_int_le_iff of_int_less_iff)
  with pos show "2 powi (bitlen n - 1) \<le> (of_int n :: rat)" "(of_int n :: rat) < 2 powi bitlen n"
    by (simp_all add: power_int_def)
qed

lemma rat_exponent_bounds:
  assumes "0 < x"
  shows "2 powi rat_exponent x \<le> x" and "x < 2 powi (rat_exponent x + 1)"
proof -
  obtain a b where q: "quotient_of x = (a, b)" by fastforce
  have b: "0 < b" using quotient_of_denom_pos [OF q] .
  have x: "x = of_int a / of_int b" using quotient_of_div [OF q] .
  with assms b have a: "0 < a" by (simp add: zero_less_divide_iff)
  let ?k = "bitlen a - bitlen b"
  have "2 powi (?k - 1) = 2 powi (bitlen a - 1) / (2 powi bitlen b :: rat)"
    by (simp flip: power_int_diff add: algebra_simps)
  also have "\<dots> \<le> x" unfolding x
    using bitlen_powi [OF a] bitlen_powi [OF b] a b by (intro frac_le) auto
  finally have low: "2 powi (?k - 1) \<le> x" .
  have "x < 2 powi bitlen a / 2 powi (bitlen b - 1)" unfolding x
    using bitlen_powi [OF a] bitlen_powi [OF b] a by (intro frac_less) auto
  also have "\<dots> = 2 powi (?k + 1)" by (simp flip: power_int_diff add: algebra_simps)
  finally have "x < 2 powi (?k + 1)" .
  with low show "2 powi rat_exponent x \<le> x" "x < 2 powi (rat_exponent x + 1)"
    by (auto simp: rat_exponent_def q Let_def not_le)
qed

lemma powi_less: "(2 :: rat) powi i < 2 powi j \<Longrightarrow> i < j"
  using power_int_increasing [of j i "2 :: rat"] by (cases "i < j") auto

lemma rat_exponent_unique:
  assumes "2 powi k \<le> x" and "x < 2 powi (k + 1)"
  shows "rat_exponent x = k"
proof -
  have "0 < x" using assms(1) by (rule less_le_trans [rotated]) simp
  note b = rat_exponent_bounds [OF this]
  show ?thesis
  proof (rule ccontr)
    assume "rat_exponent x \<noteq> k"
    then consider "rat_exponent x + 1 \<le> k" | "k + 1 \<le> rat_exponent x" by linarith
    then show False
    proof cases
      case 1
      then have "(2 :: rat) powi (rat_exponent x + 1) \<le> 2 powi k" by (intro power_int_increasing) auto
      with b(2) assms(1) show False by simp
    next
      case 2
      then have "(2 :: rat) powi (k + 1) \<le> 2 powi rat_exponent x" by (intro power_int_increasing) auto
      with b(1) assms(2) show False by simp
    qed
  qed
qed

lemma ulp_scale:
  "2 powi (e + 1) = 2 powi (e - 23) * (2 ^ 24 :: rat)" "2 powi e = 2 powi (e - 23) * (2 ^ 23 :: rat)"
  using power_int_add [of "2 :: rat" "e - 23" 24] power_int_add [of "2 :: rat" "e - 23" 23] by (simp_all add: add.commute)

lemma f32_round_upper:
  assumes "0 < x"
  shows "f32_round x \<le> 2 powi (rat_exponent x + 1)"
proof -
  define u :: rat where "u = 2 powi (rat_exponent x - 23)"
  have u: "0 < u" by (simp add: u_def)
  have "x < u * 2 ^ 24"
    using rat_exponent_bounds(2) [OF assms] unfolding ulp_scale(1) u_def .
  then have "x / u \<le> of_int (2 ^ 24)" using u by (simp add: field_simps)
  from round_even_mono [OF this] have "round_even (x / u) \<le> 2 ^ 24" by (simp only: round_even_of_int)
  then have "(of_int (round_even (x / u)) :: rat) \<le> of_int (2 ^ 24)" by (simp only: of_int_le_iff)
  then have "of_int (round_even (x / u)) * u \<le> 2 ^ 24 * u" using u by simp
  also have "\<dots> = 2 powi (rat_exponent x + 1)" unfolding ulp_scale(1) u_def by (rule mult.commute)
  finally show ?thesis using assms by (simp add: f32_round_def Let_def u_def)
qed

lemma f32_round_lower:
  assumes "0 < x"
  shows "2 powi rat_exponent x \<le> f32_round x"
proof -
  define u :: rat where "u = 2 powi (rat_exponent x - 23)"
  have u: "0 < u" by (simp add: u_def)
  have e: "2 powi rat_exponent x = u * 2 ^ 23" unfolding u_def by (rule ulp_scale)
  then have "of_int (2 ^ 23) \<le> x / u" using rat_exponent_bounds(1) [OF assms] u by (simp add: field_simps)
  from round_even_mono [OF this] have "2 ^ 23 \<le> round_even (x / u)" by (simp only: round_even_of_int)
  then have "of_int (2 ^ 23) \<le> (of_int (round_even (x / u)) :: rat)" by (simp only: of_int_le_iff)
  then have "u * 2 ^ 23 \<le> of_int (round_even (x / u)) * u" using u by (simp add: mult.commute)
  then show ?thesis using assms e by (simp add: f32_round_def Let_def u_def)
qed

text \<open>Integers of at most 24 bits are exact.\<close>

lemma f32_round_exact:
  assumes "n < 2 ^ 24"
  shows "f32_round (of_nat n) = of_nat n"
proof (cases "n = 0")
  case False
  define e where "e = rat_exponent (of_nat n)"
  have pos: "0 < (of_nat n :: rat)" using False by simp
  have "(2 :: rat) powi e < 2 powi 24"
    using rat_exponent_bounds(1) [OF pos] assms by (simp add: e_def)
  then have "e < 24" by (rule powi_less)
  then obtain j where j: "23 - e = int j" using zero_le_imp_eq_int [of "23 - e"] by auto
  have "of_nat n / (2 powi (e - 23) :: rat) = of_int (int n * 2 ^ j)"
    using j by (simp add: power_int_minus [of 2 "23 - e", simplified] divide_inverse)
  then have "round_even (of_nat n / 2 powi (e - 23)) = int n * 2 ^ j" by (simp only: round_even_of_int)
  moreover have "of_int (int n * 2 ^ j) * (2 powi (e - 23) :: rat) = of_nat n"
    using j by (simp add: power_int_minus [of 2 "23 - e", simplified])
  ultimately show ?thesis using False by (simp add: f32_round_def Let_def e_def)
qed (simp add: f32_round_def)

subsection \<open>The four-fifths threshold\<close>

text \<open>The default threshold, the float nearest to \<open>0.8\<close>.\<close>

abbreviation four_fifths :: f32 where
  "four_fifths \<equiv> Finite (13421773 / 16777216)"

lemma four_fifths_nearest: "f32_round (4 / 5) = 13421773 / 16777216"
  by code_simp

lemma round_half_one:
  assumes "1 / 2 \<le> x" and "x < 1"
  shows "f32_round x = of_int (round_even (x * 16777216)) / 16777216"
proof -
  have "rat_exponent x = - 1" by (rule rat_exponent_unique) (use assms in \<open>simp_all add: power_int_minus\<close>)
  then show ?thesis using assms by (simp add: f32_round_def Let_def power_int_minus field_simps)
qed

lemma ratio_four_fifths:
  assumes "0 < c" and "c \<le> 2 ^ 20"
  shows "13421773 / 16777216 \<le> f32_round (of_nat n / of_nat c) \<longleftrightarrow> 4 * c \<le> 5 * n"
proof -
  define x :: rat where "x = of_nat n / of_nat c"
  have x: "4 / 5 \<le> x \<longleftrightarrow> 4 * c \<le> 5 * n"
  proof -
    have "4 / 5 \<le> x \<longleftrightarrow> (4 * of_nat c :: rat) \<le> 5 * of_nat n" using assms(1) by (simp add: x_def field_simps)
    also have "\<dots> \<longleftrightarrow> (of_nat (4 * c) :: rat) \<le> of_nat (5 * n)" by simp
    finally show ?thesis by (simp only: of_nat_le_iff)
  qed
  consider "x \<le> 0" | "0 < x" "x < 1 / 2" | "1 / 2 \<le> x" "x < 1" | "1 \<le> x" by linarith
  then have "13421773 / 16777216 \<le> f32_round x \<longleftrightarrow> 4 / 5 \<le> x"
  proof cases
    case 1
    then show ?thesis by (simp add: f32_round_def)
  next
    case 2
    then have "(2 :: rat) powi rat_exponent x < 2 powi (- 1)" using rat_exponent_bounds(1) [of x] by (simp add: power_int_minus)
    then have "rat_exponent x < - 1" by (rule powi_less)
    then have "(2 :: rat) powi (rat_exponent x + 1) \<le> 2 powi (- 1)" by (intro power_int_increasing) auto
    with f32_round_upper [of x] 2 have "f32_round x \<le> 1 / 2" by (simp add: power_int_minus)
    with 2 show ?thesis by simp
  next
    case 3
    show ?thesis
    proof
      assume "4 / 5 \<le> x"
      then have "round_even (4 / 5 * 16777216) \<le> round_even (x * 16777216)" by (intro round_even_mono) simp
      moreover have "round_even (4 / 5 * 16777216) = 13421773" by code_simp
      ultimately have "(of_int 13421773 :: rat) \<le> of_int (round_even (x * 16777216))" by (simp only: of_int_le_iff)
      then show "13421773 / 16777216 \<le> f32_round x" by (simp add: round_half_one [OF 3] divide_right_mono)
    next
      assume low: "13421773 / 16777216 \<le> f32_round x"
      show "4 / 5 \<le> x"
      proof (rule ccontr)
        assume less: "\<not> 4 / 5 \<le> x"
        with x have "5 * n + 1 \<le> 4 * c" by simp
        then have "(of_nat (5 * n + 1) :: rat) \<le> of_nat (4 * c)" by (simp only: of_nat_le_iff)
        then have "x * of_nat c + 1 / 5 \<le> 4 / 5 * of_nat c" using assms(1) by (simp add: x_def)
        moreover have "(of_nat c :: rat) \<le> 1048576" using assms(2) of_nat_le_iff [of c "2 ^ 20", where ?'a = rat] by simp
        then have "(4 / 5 - x) * of_nat c \<le> (4 / 5 - x) * 1048576" using less by (intro mult_left_mono) auto
        ultimately have "x * 16777216 \<le> of_int 13421771" by (simp add: algebra_simps)
        from round_even_mono [OF this] have "round_even (x * 16777216) \<le> 13421771" by (simp only: round_even_of_int)
        then have "(of_int (round_even (x * 16777216)) :: rat) \<le> of_int 13421771" by (simp only: of_int_le_iff)
        with low show False by (simp add: round_half_one [OF 3])
      qed
    qed
  next
    case 4
    then have "\<not> rat_exponent x + 1 \<le> 0" using rat_exponent_bounds(2) [of x] power_int_increasing [of "rat_exponent x + 1" 0 "2 :: rat"] by auto
    then have "(2 :: rat) powi 0 \<le> 2 powi rat_exponent x" by (intro power_int_increasing) auto
    with f32_round_lower [of x] 4 show ?thesis by simp
  qed
  with x show ?thesis by (simp add: x_def)
qed

end
