(* ===== verification/Queue.thy ===== *)
theory Queue
  imports Base
begin

text \<open>
  \<open>crates/orchestrator/src/queue.rs\<close>: sessions waiting for capacity, in a deque with a map of
  position hints beside it. The deque implements the contract of a queue with removal; the map
  follows the deque as long as no session waits twice.
\<close>

subsection \<open>State and operations\<close>

record queued_session =
  qs_session_id :: string
  qs_user_token :: string
  qs_queued_at :: int

record session_queue =
  sq_inner :: "queued_session list"
  sq_by_id :: "string \<rightharpoonup> u64"

definition new_queue :: session_queue where
  "new_queue = \<lparr>sq_inner = [], sq_by_id = Map.empty\<rparr>"

definition enqueue :: "queued_session \<Rightarrow> session_queue \<Rightarrow> session_queue" where
  "enqueue q sq =
     (let qq = sq_inner sq @ [q] in
      \<lparr>sq_inner = qq, sq_by_id = (sq_by_id sq)(qs_session_id q \<mapsto> word_of_nat (length qq))\<rparr>)"

definition dequeue :: "session_queue \<Rightarrow> session_queue \<times> queued_session option" where
  "dequeue sq =
     (case sq_inner sq of
        [] \<Rightarrow> (sq, None)
      | it # rest \<Rightarrow> (\<lparr>sq_inner = rest, sq_by_id = (sq_by_id sq)(qs_session_id it := None)\<rparr>, Some it))"

definition queue_len :: "session_queue \<Rightarrow> nat" where
  "queue_len sq = length (sq_inner sq)"

definition queue_is_empty :: "session_queue \<Rightarrow> bool" where
  "queue_is_empty sq = (sq_inner sq = [])"

fun position :: "('a \<Rightarrow> bool) \<Rightarrow> 'a list \<Rightarrow> nat option" where
  "position P [] = None"
| "position P (x # xs) = (if P x then Some 0 else map_option Suc (position P xs))"

definition remove_at :: "nat \<Rightarrow> 'a list \<Rightarrow> 'a list \<times> 'a option" where
  "remove_at i xs = (if i < length xs then (take i xs @ drop (Suc i) xs, Some (xs ! i)) else (xs, None))"

definition queue_remove :: "string \<Rightarrow> session_queue \<Rightarrow> session_queue \<times> queued_session option" where
  "queue_remove sid sq =
     (let (qq, item) = (case position (\<lambda>q. qs_session_id q = sid) (sq_inner sq) of
                          None \<Rightarrow> (sq_inner sq, None)
                        | Some i \<Rightarrow> remove_at i (sq_inner sq)) in
      (\<lparr>sq_inner = qq, sq_by_id = (sq_by_id sq)(sid := None)\<rparr>, item))"

subsection \<open>Contract\<close>

text \<open>A queue with removal: what its clients see is the list of the waiting items, oldest first.\<close>

lemma split_first_key:
  assumes "k \<in> f ` set l"
  obtains xs x ys where "l = xs @ x # ys" and "f x = k" and "k \<notin> f ` set xs"
proof -
  from assms have "\<exists>x \<in> set l. f x = k" by auto
  from split_list_first_prop [OF this] obtain xs x ys where l: "l = xs @ x # ys" "f x = k" and no: "\<forall>y \<in> set xs. f y \<noteq> k" by blast
  from no have "k \<notin> f ` set xs" by blast
  with l show thesis by (rule that)
qed

primrec drain_n :: "('q \<Rightarrow> 'q \<times> 'a option) \<Rightarrow> nat \<Rightarrow> 'q \<Rightarrow> 'q \<times> 'a option list" where
  "drain_n deq 0 q = (q, [])"
| "drain_n deq (Suc n) q = (let (q1, x) = deq q; (q2, xs) = drain_n deq n q1 in (q2, x # xs))"

locale removable_queue =
  fixes enq :: "'a \<Rightarrow> 'q \<Rightarrow> 'q" and deq :: "'q \<Rightarrow> 'q \<times> 'a option" and rem :: "'k \<Rightarrow> 'q \<Rightarrow> 'q \<times> 'a option"
    and items :: "'q \<Rightarrow> 'a list" and key :: "'a \<Rightarrow> 'k"
  assumes items_enq: "items (enq x q) = items q @ [x]"
    and deq_Nil: "items q = [] \<Longrightarrow> deq q = (q, None)"
    and deq_Cons: "items q = x # xs \<Longrightarrow> items (fst (deq q)) = xs \<and> snd (deq q) = Some x"
    and rem_absent: "k \<notin> key ` set (items q) \<Longrightarrow> items (fst (rem k q)) = items q \<and> snd (rem k q) = None"
    and rem_present: "items q = xs @ x # ys \<Longrightarrow> key x = k \<Longrightarrow> k \<notin> key ` set xs \<Longrightarrow>
      items (fst (rem k q)) = xs @ ys \<and> snd (rem k q) = Some x"
begin

lemma items_enqs: "items (fold enq xs q) = items q @ xs"
  by (induction xs arbitrary: q) (simp_all add: items_enq)

lemma drain_all: "length (items q) = n \<Longrightarrow> snd (drain_n deq n q) = map Some (items q) \<and> items (fst (drain_n deq n q)) = []"
proof (induction n arbitrary: q)
  case (Suc n)
  then obtain x xs where q: "items q = x # xs" by (cases "items q") auto
  from deq_Cons [OF this] obtain q1 where "deq q = (q1, Some x)" "items q1 = xs" by (metis prod.collapse)
  moreover obtain q2 ys where "drain_n deq n q1 = (q2, ys)" by fastforce
  ultimately show ?case using Suc.IH [of q1] Suc.prems q by simp
qed simp

lemma fifo:
  assumes "items q = []"
  shows "snd (drain_n deq (length xs) (fold enq xs q)) = map Some xs"
  using drain_all [of "fold enq xs q" "length xs"] assms by (simp add: items_enqs)

lemma rem_keeps_others:
  "filter (\<lambda>x. key x \<noteq> k) (items (fst (rem k q))) = filter (\<lambda>x. key x \<noteq> k) (items q)"
proof (cases "k \<in> key ` set (items q)")
  case True
  then obtain xs x ys where q: "items q = xs @ x # ys" "key x = k" "k \<notin> key ` set xs" by (rule split_first_key)
  from rem_present [OF q] q show ?thesis by simp
next
  case False
  from rem_absent [OF False] show ?thesis by simp
qed

end

lemma position_None: "position P xs = None \<longleftrightarrow> (\<forall>x \<in> set xs. \<not> P x)"
  by (induction xs) auto

lemma position_Some: "P x \<Longrightarrow> \<forall>y \<in> set xs. \<not> P y \<Longrightarrow> position P (xs @ x # ys) = Some (length xs)"
  by (induction xs) auto

interpretation sq: removable_queue enqueue dequeue queue_remove sq_inner qs_session_id
proof unfold_locales
  fix k and q :: session_queue
  assume "k \<notin> qs_session_id ` set (sq_inner q)"
  then have "position (\<lambda>x. qs_session_id x = k) (sq_inner q) = None" by (auto simp: position_None)
  then show "sq_inner (fst (queue_remove k q)) = sq_inner q \<and> snd (queue_remove k q) = None"
    by (simp add: queue_remove_def)
next
  fix q :: session_queue and xs x ys k
  assume q: "sq_inner q = xs @ x # ys" "qs_session_id x = k" "k \<notin> qs_session_id ` set xs"
  then have "position (\<lambda>x. qs_session_id x = k) (sq_inner q) = Some (length xs)"
    by (metis (mono_tags, lifting) image_eqI position_Some)
  with q show "sq_inner (fst (queue_remove k q)) = xs @ ys \<and> snd (queue_remove k q) = Some x"
    by (simp add: queue_remove_def remove_at_def)
qed (auto simp: enqueue_def dequeue_def Let_def)

subsection \<open>The position hints\<close>

definition hints_ok :: "session_queue \<Rightarrow> bool" where
  "hints_ok sq \<longleftrightarrow> distinct (map qs_session_id (sq_inner sq)) \<and>
     dom (sq_by_id sq) = qs_session_id ` set (sq_inner sq)"

lemma hints_new: "hints_ok new_queue"
  by (simp add: hints_ok_def new_queue_def)

lemma hints_enqueue:
  "hints_ok sq \<Longrightarrow> qs_session_id q \<notin> qs_session_id ` set (sq_inner sq) \<Longrightarrow> hints_ok (enqueue q sq)"
  by (auto simp: hints_ok_def enqueue_def Let_def)

lemma hints_dequeue: "hints_ok sq \<Longrightarrow> hints_ok (fst (dequeue sq))"
proof (cases "sq_inner sq")
  case (Cons q qs)
  assume "hints_ok sq"
  with Cons have "distinct (map qs_session_id qs)" "qs_session_id q \<notin> qs_session_id ` set qs"
    "dom (sq_by_id sq) = insert (qs_session_id q) (qs_session_id ` set qs)" by (auto simp: hints_ok_def)
  with Cons show ?thesis by (simp add: hints_ok_def dequeue_def)
qed (simp add: dequeue_def)

lemma hints_remove:
  assumes "hints_ok sq"
  shows "hints_ok (fst (queue_remove sid sq))"
proof (cases "sid \<in> qs_session_id ` set (sq_inner sq)")
  case True
  then obtain xs x ys where
    q: "sq_inner sq = xs @ x # ys" "qs_session_id x = sid" "sid \<notin> qs_session_id ` set xs" by (rule split_first_key)
  have hint: "sq_by_id (fst (queue_remove sid sq)) = (sq_by_id sq)(sid := None)"
    by (simp add: queue_remove_def Let_def split: prod.splits)
  from assms q have "distinct (map qs_session_id (xs @ ys))" "sid \<notin> qs_session_id ` set (xs @ ys)"
    "dom (sq_by_id sq) = insert sid (qs_session_id ` set (xs @ ys))" by (auto simp: hints_ok_def)
  with sq.rem_present [OF q] hint show ?thesis by (simp add: hints_ok_def)
next
  case False
  have hint: "sq_by_id (fst (queue_remove sid sq)) = (sq_by_id sq)(sid := None)"
    by (simp add: queue_remove_def Let_def split: prod.splits)
  from sq.rem_absent [OF False] hint False assms show ?thesis by (auto simp: hints_ok_def)
qed

subsection \<open>Properties\<close>

text \<open>
  Sessions leave the queue in the order in which they entered it, and cancelling one session
  takes out its oldest entry and leaves every other session where it was.
\<close>

theorem session_queue_fifo:
  "snd (drain_n dequeue (length xs) (fold enqueue xs new_queue)) = map Some xs \<and>
   filter (\<lambda>q. qs_session_id q \<noteq> sid) (sq_inner (fst (queue_remove sid (fold enqueue xs new_queue)))) =
     filter (\<lambda>q. qs_session_id q \<noteq> sid) xs"
  using sq.fifo [of new_queue xs] sq.rem_keeps_others [of sid "fold enqueue xs new_queue"] sq.items_enqs [of xs new_queue]
  by (simp add: new_queue_def)

text \<open>
  The position hints follow the deque: while no session waits twice, dequeuing and
  cancelling keep a hint for exactly the waiting sessions. Queuing keeps it only for a session
  that does not wait yet: the second entry of a session that is queued twice (a client that
  retries its connect) loses its hint when the first one leaves.
\<close>

theorem queue_hints_follow_deque:
  assumes "hints_ok sq"
  shows "hints_ok (fst (dequeue sq)) \<and> hints_ok (fst (queue_remove sid sq)) \<and>
    (hints_ok (enqueue q sq) \<longleftrightarrow> qs_session_id q \<notin> qs_session_id ` set (sq_inner sq)) \<and>
    sq_by_id (fst (dequeue (enqueue q (enqueue q new_queue)))) (qs_session_id q) = None \<and>
    sq_inner (fst (dequeue (enqueue q (enqueue q new_queue)))) = [q]"
  using assms hints_dequeue hints_remove hints_enqueue
  by (auto simp: hints_ok_def enqueue_def dequeue_def new_queue_def)

subsection \<open>Witnesses\<close>

definition waiting :: "string \<Rightarrow> queued_session" where
  "waiting sid = \<lparr>qs_session_id = sid, qs_user_token = ''t'', qs_queued_at = 0\<rparr>"

lemma queue_hints_follow_deque_witness:
  "hints_ok (fst (queue_remove ''a'' (enqueue (waiting ''b'') new_queue))) \<and>
   hints_ok (enqueue (waiting ''a'') (enqueue (waiting ''b'') new_queue))"
  using queue_hints_follow_deque [of "enqueue (waiting ''b'') new_queue" "''a''" "waiting ''a''"]
  by (simp add: hints_ok_def enqueue_def new_queue_def waiting_def)

end
