(* ===== verification/Scaler.thy ===== *)
theory Scaler
  imports Provider F32 Queue
begin

text \<open>
  \<open>crates/orchestrator/src/scaler.rs\<close> and the executor loop of \<open>main.rs\<close>: the autoscaling policy
  as a function of the fleet, and one tick of the loop, which marks stale pods, decides, and
  carries the actions out on the provider and the registry. A tick runs without interference of
  other tasks; the fresh pod ids it draws, each with the instant its row is made at, are the
  argument \<open>fresh\<close>. The metrics are in \<open>Metrics\<close>.
\<close>

subsection \<open>The policy\<close>

record fleet_view =
  fv_pods :: "pod_state list"
  fv_queue_len :: u64
  fv_warm_floor :: u32
  fv_scale_up_fill :: f32
  fv_cooldown :: int
  fv_now :: instant

datatype scale_action =
    Deploy u32
  | StartCooldown string
  | CancelCooldown string
  | Terminate string
  | Replace string
  | NoAction

definition ready_pods :: "pod_state list \<Rightarrow> pod_state list" where
  "ready_pods pods = filter (\<lambda>p. ps_state p = Ready) pods"

definition ready_capacity :: "pod_state list \<Rightarrow> u32 \<times> u32" where
  "ready_capacity pods = (sum_list (map ps_cap (ready_pods pods)), sum_list (map ps_fill (ready_pods pods)))"

definition any_booting :: "pod_state list \<Rightarrow> bool" where
  "any_booting pods = list_ex (\<lambda>p. ps_state p = Booting) pods"

definition live_count :: "pod_state list \<Rightarrow> u32" where
  "live_count pods = word_of_nat (length (filter (\<lambda>p. ps_state p \<noteq> Dead) pods))"

definition stale :: "instant \<Rightarrow> pod_state \<Rightarrow> bool" where
  "stale now p = (ps_state p \<noteq> Dead \<and> ps_state p \<noteq> Booting \<and> duration_since now (ps_last_ping p) > PING_DEAD_AFTER)"

definition fill_ratio :: "pod_state list \<Rightarrow> f32" where
  "fill_ratio pods =
     (let (ready_cap, ready_used) = ready_capacity pods in
      if ready_cap > 0 then f32_div (u32_as_f32 ready_used) (u32_as_f32 ready_cap) else Finite 0)"

definition largest_cap :: "pod_state list \<Rightarrow> u32" where
  "largest_cap pods = max 1 (case map ps_cap (ready_pods pods) of [] \<Rightarrow> 1 | c # cs \<Rightarrow> fold max cs c)"

text \<open>Rule 4 for one pod: the actions so far and the terminations among them.\<close>

definition scale_down :: "fleet_view \<Rightarrow> pod_state \<Rightarrow> scale_action list \<times> u32 \<Rightarrow> scale_action list \<times> u32" where
  "scale_down v p st =
     (case st of (actions, pending) \<Rightarrow>
        if ps_state p = Ready \<and> ps_fill p = 0 then
          (case ps_cooldown_until p of
             Some expiry \<Rightarrow>
               if expiry \<le> fv_now v \<and> saturating_sub (live_count (fv_pods v)) (1 + pending) \<ge> fv_warm_floor v
               then (actions @ [Terminate (ps_id p)], pending + 1)
               else st
           | None \<Rightarrow> (actions @ [StartCooldown (ps_id p)], pending))
        else if ps_state p = Ready \<and> ps_fill p > 0 \<and> ps_cooldown_until p \<noteq> None
        then (actions @ [CancelCooldown (ps_id p)], pending)
        else st)"

definition decide :: "fleet_view \<Rightarrow> scale_action list" where
  "decide v =
     (let pods = fv_pods v;
          replaced = map (Replace \<circ> ps_id) (filter (stale (fv_now v)) pods);
          live = live_count pods in
      if replaced \<noteq> [] then replaced
      else if live < fv_warm_floor v \<and> \<not> any_booting pods then [Deploy (fv_warm_floor v - live)]
      else if fst (ready_capacity pods) > 0 \<and> f32_ge (fill_ratio pods) (fv_scale_up_fill v) \<and> \<not> any_booting pods
      then [Deploy 1]
      else if fv_queue_len v > 0 \<and> \<not> any_booting pods
      then [Deploy (div_ceil (ucast (fv_queue_len v)) (largest_cap pods))]
      else (case fold (scale_down v) pods ([], 0) of
              ([], _) \<Rightarrow> [NoAction]
            | (actions, _) \<Rightarrow> actions))"

subsection \<open>One tick of the loop\<close>

record scaler_cfg =
  sc_pod_max_sessions :: u32
  sc_scale_up_fill :: f32
  sc_warm_pool_floor :: u32
  sc_pod_cooldown :: int

record 'p fleet =
  fl_registry :: pod_registry
  fl_cloud :: 'p
  fl_queue :: session_queue
  fl_last_scale_decisions :: "json list"
  fl_drawn :: nat

definition mark_stale :: "instant \<Rightarrow> pod_registry \<Rightarrow> pod_registry" where
  "mark_stale now reg = fold (\<lambda>p. if stale now p then mark_dead (ps_id p) else (\<lambda>r. r)) (pods_snapshot reg) reg"

definition view_of :: "scaler_cfg \<Rightarrow> instant \<Rightarrow> 'p fleet \<Rightarrow> fleet_view" where
  "view_of cfg now fl =
     \<lparr>fv_pods = pods_snapshot (fl_registry fl), fv_queue_len = word_of_nat (queue_len (fl_queue fl)),
      fv_warm_floor = sc_warm_pool_floor cfg, fv_scale_up_fill = sc_scale_up_fill cfg,
      fv_cooldown = sc_pod_cooldown cfg, fv_now = now\<rparr>"

text \<open>Deploy one pod and register it; the id the provider gave, if it did.\<close>

definition deploy_one ::
    "'p provider \<Rightarrow> scaler_cfg \<Rightarrow> (nat \<Rightarrow> string \<times> instant) \<Rightarrow> 'p fleet \<Rightarrow> 'p fleet \<times> string option" where
  "deploy_one P cfg fresh fl =
     (let (pid, made) = fresh (fl_drawn fl);
          spec = \<lparr>sp_id = pid, sp_cap = sc_pod_max_sessions cfg, sp_region = ''auto'', sp_gpu_type = ''auto''\<rparr>;
          (cloud, res) = pv_deploy P spec (fl_cloud fl);
          fl = fl\<lparr>fl_cloud := cloud, fl_drawn := Suc (fl_drawn fl)\<rparr> in
      case res of
        Inl _ \<Rightarrow> (fl, None)
      | Inr new_id \<Rightarrow>
          (fl\<lparr>fl_registry := register made new_id ''127.0.0.1:0'' (sp_cap spec) None (fl_registry fl)\<rparr>, Some new_id))"

definition terminate_one :: "'p provider \<Rightarrow> string \<Rightarrow> 'p fleet \<Rightarrow> 'p fleet \<times> bool" where
  "terminate_one P pid fl =
     (let (cloud, res) = pv_terminate P pid (fl_cloud fl);
          fl = fl\<lparr>fl_cloud := cloud\<rparr> in
      if is_ok res then (fl\<lparr>fl_registry := remove_pod pid (fl_registry fl)\<rparr>, True) else (fl, False))"

fun exec_action ::
    "'p provider \<Rightarrow> scaler_cfg \<Rightarrow> (nat \<Rightarrow> string \<times> instant) \<Rightarrow> instant \<Rightarrow> scale_action \<Rightarrow>
     'p fleet \<times> json list \<Rightarrow> 'p fleet \<times> json list" where
  "exec_action P cfg fresh now (Deploy n) (fl, ds) =
     (((\<lambda>fl. fst (deploy_one P cfg fresh fl)) ^^ unat n) fl,
      ds @ [jobject [(''t'', JStr ''deploy''), (''count'', ju64 (ucast n))]])"
| "exec_action P cfg fresh now (StartCooldown pid) (fl, ds) =
     (fl\<lparr>fl_registry := start_cooldown pid now (sc_pod_cooldown cfg) (fl_registry fl)\<rparr>,
      ds @ [jobject [(''t'', JStr ''cooldown''), (''pod'', JStr pid)]])"
| "exec_action P cfg fresh now (CancelCooldown pid) (fl, ds) =
     (fl, ds @ [jobject [(''t'', JStr ''cancel_cooldown''), (''pod'', JStr pid)]])"
| "exec_action P cfg fresh now (Terminate pid) (fl, ds) =
     (case terminate_one P pid fl of
        (fl, True) \<Rightarrow> (fl, ds @ [jobject [(''t'', JStr ''terminate''), (''pod'', JStr pid)]])
      | (fl, False) \<Rightarrow> (fl, ds))"
| "exec_action P cfg fresh now (Replace pid) (fl, ds) =
     (case deploy_one P cfg fresh (fst (terminate_one P pid fl)) of
        (fl, Some new_id) \<Rightarrow>
          (fl, ds @ [jobject [(''t'', JStr ''replace''), (''old'', JStr pid), (''new'', JStr new_id)]])
      | (fl, None) \<Rightarrow> (fl, ds))"
| "exec_action P cfg fresh now NoAction (fl, ds) = (fl, ds)"

definition keep_last :: "nat \<Rightarrow> 'a list \<Rightarrow> 'a list" where
  "keep_last n xs = drop (length xs - n) xs"

definition scaler_tick ::
    "'p provider \<Rightarrow> scaler_cfg \<Rightarrow> (nat \<Rightarrow> string \<times> instant) \<Rightarrow> instant \<Rightarrow> 'p fleet \<Rightarrow> 'p fleet" where
  "scaler_tick P cfg fresh now fl =
     (let fl = fl\<lparr>fl_registry := mark_stale now (fl_registry fl)\<rparr>;
          actions = decide (view_of cfg now fl);
          (fl, decisions) = fold (exec_action P cfg fresh now) actions (fl, []) in
      if decisions \<noteq> []
      then fl\<lparr>fl_last_scale_decisions := keep_last 32 (fl_last_scale_decisions fl @ decisions)\<rparr>
      else fl)"

subsection \<open>What the policy may ask for\<close>

abbreviation live_pods :: "pod_state list \<Rightarrow> nat" where
  "live_pods pods \<equiv> length (filter (\<lambda>p. ps_state p \<noteq> Dead) pods)"

definition terminations :: "scale_action list \<Rightarrow> string list" where
  "terminations actions = concat (map (\<lambda>a. case a of Terminate pid \<Rightarrow> [pid] | _ \<Rightarrow> []) actions)"

text \<open>Rule 4 acts on idle or busy Ready pods only.\<close>

definition justified :: "fleet_view \<Rightarrow> scale_action \<Rightarrow> bool" where
  "justified v a \<longleftrightarrow>
     (case a of
        Terminate pid \<Rightarrow> \<exists>p \<in> set (fv_pods v). ps_id p = pid \<and> ps_state p = Ready \<and> ps_fill p = 0 \<and>
          (\<exists>t. ps_cooldown_until p = Some t \<and> t \<le> fv_now v)
      | StartCooldown pid \<Rightarrow> \<exists>p \<in> set (fv_pods v). ps_id p = pid \<and> ps_state p = Ready \<and> ps_fill p = 0 \<and> ps_cooldown_until p = None
      | CancelCooldown pid \<Rightarrow> \<exists>p \<in> set (fv_pods v). ps_id p = pid \<and> ps_state p = Ready \<and> ps_fill p > 0 \<and> ps_cooldown_until p \<noteq> None
      | _ \<Rightarrow> False)"

definition down_ok :: "fleet_view \<Rightarrow> pod_state list \<Rightarrow> scale_action list \<times> u32 \<Rightarrow> bool" where
  "down_ok v ps st \<longleftrightarrow> unat (snd st) = length (terminations (fst st)) \<and> unat (snd st) \<le> live_pods ps \<and>
     (unat (snd st) > 0 \<longrightarrow> unat (snd st) + unat (fv_warm_floor v) \<le> live_pods (fv_pods v)) \<and>
     (\<forall>a \<in> set (fst st). justified v a)"

lemma terminations_snoc: "terminations (xs @ [a]) = terminations xs @ (case a of Terminate pid \<Rightarrow> [pid] | _ \<Rightarrow> [])"
  by (simp add: terminations_def)

lemma down_ok_step:
  assumes ok: "down_ok v ps st" and p: "fv_pods v = ps @ p # qs" and small: "length (fv_pods v) < 2 ^ 32"
  shows "down_ok v (ps @ [p]) (scale_down v p st)"
proof -
  obtain acts pending where st: "st = (acts, pending)" by fastforce
  have mem: "p \<in> set (fv_pods v)" using p by simp
  show ?thesis
  proof (cases "ps_state p = Ready \<and> ps_fill p = 0 \<and> (\<exists>t. ps_cooldown_until p = Some t \<and> t \<le> fv_now v) \<and>
      saturating_sub (live_count (fv_pods v)) (1 + pending) \<ge> fv_warm_floor v")
    case True
    let ?L = "live_pods (fv_pods v)"
    have "live_pods ps + 1 \<le> ?L" using True p by simp
    with ok st have le: "unat pending + 1 \<le> ?L" by (simp add: down_ok_def)
    have L: "?L < 2 ^ 32" using small le_less_trans length_filter_le by blast
    have one: "unat (1 + pending) = unat pending + 1" using le L by (simp add: unat_word_ariths)
    have "unat (live_count (fv_pods v)) = ?L" using L by (simp add: live_count_def unat_of_nat)
    with True one have "unat (fv_warm_floor v) \<le> ?L - (unat pending + 1)"
      by (simp add: word_le_nat_alt unat_saturating_sub)
    with le have "unat pending + 1 + unat (fv_warm_floor v) \<le> ?L" by linarith
    moreover have "justified v (Terminate (ps_id p))" using True mem by (auto simp: justified_def)
    moreover have "scale_down v p st = (acts @ [Terminate (ps_id p)], pending + 1)"
      using True by (auto simp: scale_down_def st)
    ultimately show ?thesis using ok one True by (auto simp: down_ok_def st terminations_snoc add.commute)
  next
    case False
    then have "scale_down v p st = st \<or>
       (\<exists>a. scale_down v p st = (acts @ [a], pending) \<and> justified v a \<and> (\<forall>pid. a \<noteq> Terminate pid))"
      using mem by (auto simp: scale_down_def st justified_def split: option.splits)
    then show ?thesis
      using ok by (auto simp: down_ok_def st terminations_snoc split: scale_action.splits)
  qed
qed

lemma down_ok_fold:
  assumes "length (fv_pods v) < 2 ^ 32"
  shows "fv_pods v = ps @ qs \<Longrightarrow> down_ok v ps (fold (scale_down v) ps ([], 0))"
proof (induction ps arbitrary: qs rule: rev_induct)
  case Nil
  then show ?case by (simp add: down_ok_def terminations_def)
next
  case (snoc p ps)
  from snoc.IH [of "p # qs"] snoc.prems down_ok_step [OF _ _ assms, of ps _ p qs] show ?case by simp
qed

lemma down_actions_step:
  "set (fst (scale_down v p st)) \<subseteq> set (fst st) \<union>
     (if ps_state p = Ready then {Terminate (ps_id p), StartCooldown (ps_id p), CancelCooldown (ps_id p)} else {})"
  by (auto simp: scale_down_def split: prod.splits option.splits if_splits)

lemma down_actions:
  "a \<in> set (fst (fold (scale_down v) ps st)) \<Longrightarrow>
     a \<in> set (fst st) \<or> (\<exists>p \<in> set ps. ps_state p = Ready \<and> a \<in> {Terminate (ps_id p), StartCooldown (ps_id p), CancelCooldown (ps_id p)})"
proof (induction ps arbitrary: st)
  case (Cons p ps)
  then have "a \<in> set (fst (fold (scale_down v) ps (scale_down v p st)))" by simp
  from Cons.IH [OF this] show ?case using down_actions_step [of v p st] by (cases "ps_state p = Ready") fastforce+
qed simp

text \<open>The shape of a decision: all replacements, one deployment, rule 4, or nothing.\<close>

lemma decide_cases:
  obtains (replace) "decide v = map (Replace \<circ> ps_id) (filter (stale (fv_now v)) (fv_pods v))" "decide v \<noteq> []"
  | (deploy) n where "decide v = [Deploy n]" "\<not> any_booting (fv_pods v)"
      "n = fv_warm_floor v - live_count (fv_pods v) \<and> live_count (fv_pods v) < fv_warm_floor v \<or> n = 1 \<or>
       n = div_ceil (ucast (fv_queue_len v)) (largest_cap (fv_pods v)) \<and> fv_queue_len v > 0"
  | (down) "decide v = fst (fold (scale_down v) (fv_pods v) ([], 0))" "decide v \<noteq> []"
  | (none) "decide v = [NoAction]"
proof -
  obtain acts k where f: "fold (scale_down v) (fv_pods v) ([], 0) = (acts, k)" by fastforce
  let ?r = "map (Replace \<circ> ps_id) (filter (stale (fv_now v)) (fv_pods v))"
  let ?B = "live_count (fv_pods v) < fv_warm_floor v \<and> \<not> any_booting (fv_pods v)"
  let ?C = "fst (ready_capacity (fv_pods v)) > 0 \<and> f32_ge (fill_ratio (fv_pods v)) (fv_scale_up_fill v) \<and> \<not> any_booting (fv_pods v)"
  let ?D = "fv_queue_len v > 0 \<and> \<not> any_booting (fv_pods v)"
  have eq: "decide v =
     (if ?r \<noteq> [] then ?r else if ?B then [Deploy (fv_warm_floor v - live_count (fv_pods v))]
      else if ?C then [Deploy 1] else if ?D then [Deploy (div_ceil (ucast (fv_queue_len v)) (largest_cap (fv_pods v)))]
      else if acts = [] then [NoAction] else acts)"
    unfolding decide_def Let_def f by (cases acts) auto
  consider "?r \<noteq> []" | "?r = []" "?B" | "?r = []" "\<not> ?B" "?C" | "?r = []" "\<not> ?B" "\<not> ?C" "?D"
    | "?r = []" "\<not> ?B" "\<not> ?C" "\<not> ?D" by argo
  then show thesis
  proof cases
    case 1
    with eq replace show thesis by simp
  next
    case 2
    with eq deploy show thesis by simp
  next
    case 3
    have "decide v = [Deploy 1]" by (simp only: eq 3(1) if_not_P [OF 3(2)] if_P [OF 3(3)] simp_thms if_False)
    with 3 deploy show thesis by blast
  next
    case 4
    have "decide v = [Deploy (div_ceil (ucast (fv_queue_len v)) (largest_cap (fv_pods v)))]"
      by (simp only: eq 4(1) if_not_P [OF 4(2)] if_not_P [OF 4(3)] if_P [OF 4(4)] simp_thms if_False)
    with 4 deploy show thesis by blast
  next
    case 5
    have "decide v = (if acts = [] then [NoAction] else acts)"
      by (simp only: eq 5(1) if_not_P [OF 5(2)] if_not_P [OF 5(3)] if_not_P [OF 5(4)] simp_thms if_False)
    with f down none show thesis by (cases "acts = []") auto
  qed
qed

lemma largest_cap_pos: "largest_cap pods \<noteq> 0"
proof -
  have "1 \<le> largest_cap pods" by (simp add: largest_cap_def)
  then show ?thesis by auto
qed

lemma div_ceil_pos: "a \<noteq> 0 \<Longrightarrow> b \<noteq> 0 \<Longrightarrow> div_ceil a b \<noteq> (0 :: u32)"
proof -
  assume nz: "a \<noteq> 0" "b \<noteq> 0"
  show ?thesis
  proof (cases "a mod b = 0")
    case True
    then have "a div b * b = a" using div_mult_mod_eq [of a b] by simp
    with nz True show ?thesis by (auto simp: div_ceil_def)
  next
    case False
    have "b \<noteq> 1" using False by auto
    then have "unat b \<noteq> unat (1 :: u32)" "unat b \<noteq> unat (0 :: u32)" using nz by (metis word_unat_eq_iff)+
    then have "2 \<le> unat b" by simp
    then have "unat a div unat b < 2 ^ 32 - 1"
      using unat_bound [of a] div_le_mono2 [of 2 "unat b" "unat a"] by simp
    then have "unat (a div b + 1) \<noteq> 0" by (simp add: unat_word_ariths unat_div)
    with False show ?thesis by (auto simp: div_ceil_def)
  qed
qed

subsection \<open>Properties of the policy\<close>

lemma live_pods_phases:
  "live_pods pods = length (filter (\<lambda>p. ps_state p = Ready) pods) + length (filter (\<lambda>p. ps_state p = Booting) pods) +
     length (filter (\<lambda>p. ps_state p = Draining) pods)"
proof (induction pods)
  case (Cons p pods)
  then show ?case by (cases "ps_state p") simp_all
qed simp

text \<open>
  C32. What scale-down may terminate: a decision terminates only Ready pods without a session whose
  cooldown has run out, and if it terminates any, the Ready, Booting and Draining pods together are
  at least as many as the terminations and the warm floor. Draining pods count here, although the
  comment of the policy speaks of ready and booting pods only; so the Ready and Booting pods that
  remain reach the floor as far as no pod is Draining.
\<close>

theorem decide_terminates_safely:
  assumes "length (fv_pods v) < 2 ^ 32" and "Terminate pid \<in> set (decide v)"
  shows "length (terminations (decide v)) + unat (fv_warm_floor v) \<le>
      length (filter (\<lambda>p. ps_state p = Ready) (fv_pods v)) + length (filter (\<lambda>p. ps_state p = Booting) (fv_pods v)) +
      length (filter (\<lambda>p. ps_state p = Draining) (fv_pods v)) \<and>
    (\<exists>p \<in> set (fv_pods v). ps_id p = pid \<and> ps_state p = Ready \<and> ps_fill p = 0 \<and>
       (\<exists>t. ps_cooldown_until p = Some t \<and> t \<le> fv_now v))"
proof (cases v rule: decide_cases)
  case down
  have ok: "down_ok v (fv_pods v) (fold (scale_down v) (fv_pods v) ([], 0))"
    using down_ok_fold [OF assms(1), of "fv_pods v" "[]"] by simp
  have "terminations (decide v) \<noteq> []" using assms(2) by (force simp: terminations_def)
  with ok down(1) assms(2) show ?thesis by (fastforce simp: down_ok_def justified_def live_pods_phases)
qed (use assms in auto)

text \<open>
  A Draining pod stands in for a warm one: with a floor of one, a fresh Draining pod and one idle
  Ready pod whose cooldown has run out, the policy terminates the only pod that could take a session.
\<close>

theorem draining_pod_counts_as_warm:
  assumes "fv_pods v = [p, q]" and "fv_warm_floor v = 1" and "fv_queue_len v = 0"
    and "ps_state p = Ready" and "ps_fill p = 0" and "ps_cooldown_until p = Some t" and "t \<le> fv_now v"
    and "ps_state q = Draining" and "\<not> stale (fv_now v) p" and "\<not> stale (fv_now v) q"
    and "\<not> f32_ge (fill_ratio [p, q]) (fv_scale_up_fill v)"
  shows "decide v = [Terminate (ps_id p)]"
  using assms by (simp add: decide_def Let_def any_booting_def live_count_def scale_down_def saturating_sub_def)

text \<open>
  No runaway scale-up: a decision that deploys does nothing else, is never taken while a pod
  is still booting, and asks for a positive number of pods (the queue being shorter than
  4,294,967,296 sessions).
\<close>

theorem decide_deploys_alone:
  assumes "Deploy n \<in> set (decide v)" and "fv_queue_len v < 2 ^ 32"
  shows "decide v = [Deploy n] \<and> \<not> any_booting (fv_pods v) \<and> n \<noteq> 0"
proof (cases v rule: decide_cases)
  case (deploy m)
  with assms(1) have n: "m = n" by simp
  have "ucast (fv_queue_len v) \<noteq> (0 :: u32)" if "fv_queue_len v > 0"
  proof -
    have "unat (fv_queue_len v) < 2 ^ 32" using assms(2) by (simp add: word_less_nat_alt)
    moreover have "unat (fv_queue_len v) \<noteq> 0" using that by (simp add: word_less_nat_alt)
    ultimately have "unat (ucast (fv_queue_len v) :: u32) \<noteq> 0" by (simp add: unsigned_ucast_eq take_bit_nat_eq_self)
    then show ?thesis by auto
  qed
  with deploy n div_ceil_pos [of "ucast (fv_queue_len v)" "largest_cap (fv_pods v)"] largest_cap_pos show ?thesis
    by fastforce
next
  case down
  with assms(1) down_actions [of "Deploy n" v "fv_pods v" "([], 0)"] show ?thesis by simp
qed (use assms in auto)

text \<open>The Ready slots and the taken ones among them, without wrap-around.\<close>

definition ready_cap :: "pod_state list \<Rightarrow> nat" where
  "ready_cap pods = sum_list (map (\<lambda>p. unat (ps_cap p)) (ready_pods pods))"

definition ready_used :: "pod_state list \<Rightarrow> nat" where
  "ready_used pods = sum_list (map (\<lambda>p. unat (ps_fill p)) (ready_pods pods))"

lemma unat_sum_list:
  "sum_list (map (\<lambda>x. unat (f x)) xs) < 2 ^ 32 \<Longrightarrow> unat (sum_list (map f xs) :: u32) = sum_list (map (\<lambda>x. unat (f x)) xs)"
  by (induction xs) (auto simp: unat_word_ariths)

lemma ready_used_le: "set pods \<subseteq> {p. ps_fill p \<le> ps_cap p} \<Longrightarrow> ready_used pods \<le> ready_cap pods"
  unfolding ready_used_def ready_cap_def ready_pods_def by (induction pods) (auto simp: word_le_nat_alt)

lemma fill_ratio_four_fifths:
  assumes "set pods \<subseteq> {p. ps_fill p \<le> ps_cap p}" and "ready_cap pods \<le> 2 ^ 20"
  shows "fst (ready_capacity pods) > 0 \<longleftrightarrow> 0 < ready_cap pods"
    and "0 < ready_cap pods \<Longrightarrow> f32_ge (fill_ratio pods) four_fifths \<longleftrightarrow> 4 * ready_cap pods \<le> 5 * ready_used pods"
proof -
  have used: "ready_used pods \<le> 2 ^ 20" using ready_used_le [OF assms(1)] assms(2) by simp
  obtain c n where rc: "ready_capacity pods = (c, n)" by fastforce
  have c: "unat c = ready_cap pods" and n: "unat n = ready_used pods"
    using rc assms(2) used unat_sum_list [of ps_cap "ready_pods pods"] unat_sum_list [of ps_fill "ready_pods pods"]
    by (simp_all add: ready_capacity_def ready_cap_def ready_used_def)
  show pos: "fst (ready_capacity pods) > 0 \<longleftrightarrow> 0 < ready_cap pods" by (simp add: rc word_less_nat_alt c)
  show "f32_ge (fill_ratio pods) four_fifths \<longleftrightarrow> 4 * ready_cap pods \<le> 5 * ready_used pods" if "0 < ready_cap pods"
  proof -
    have "u32_as_f32 c = Finite (of_nat (ready_cap pods))" "u32_as_f32 n = Finite (of_nat (ready_used pods))"
      using assms(2) used f32_round_exact [of "ready_cap pods"] f32_round_exact [of "ready_used pods"]
      by (simp_all add: u32_as_f32_def c n)
    then have "fill_ratio pods = Finite (f32_round (of_nat (ready_used pods) / of_nat (ready_cap pods)))"
      using that pos by (simp add: fill_ratio_def rc f32_div_def)
    then show ?thesis using ratio_four_fifths [OF that assms(2)] by (simp add: f32_ge_def)
  qed
qed

text \<open>
  The four-fifths rule is exact despite floating point: with the default threshold, at most
  1,048,576 Ready slots, enough live pods, and none of them booting or stale, the policy deploys
  one pod exactly when at least four fifths of the Ready slots are taken, and below that it
  deploys nothing unless sessions are queued.
\<close>

theorem scale_up_at_four_fifths:
  assumes "fv_scale_up_fill v = four_fifths" and "set (fv_pods v) \<subseteq> {p. ps_fill p \<le> ps_cap p}"
    and "ready_cap (fv_pods v) \<le> 2 ^ 20" and "\<not> any_booting (fv_pods v)"
    and "set (fv_pods v) \<inter> {p. stale (fv_now v) p} = {}" and "fv_warm_floor v \<le> live_count (fv_pods v)"
  shows "if 0 < ready_cap (fv_pods v) \<and> 4 * ready_cap (fv_pods v) \<le> 5 * ready_used (fv_pods v)
    then decide v = [Deploy 1]
    else fv_queue_len v = 0 \<longrightarrow> (\<forall>n. Deploy n \<notin> set (decide v))"
proof -
  have fresh: "filter (stale (fv_now v)) (fv_pods v) = []" using assms(5) by (auto simp: filter_empty_conv)
  have floor: "\<not> live_count (fv_pods v) < fv_warm_floor v" using assms(6) by (simp add: not_less)
  note ratio = fill_ratio_four_fifths [OF assms(2,3)]
  show ?thesis
  proof (cases "0 < ready_cap (fv_pods v) \<and> 4 * ready_cap (fv_pods v) \<le> 5 * ready_used (fv_pods v)")
    case True
    with ratio assms(1,4) floor fresh show ?thesis by (simp add: decide_def Let_def)
  next
    case False
    have "Deploy n \<notin> set (decide v)" if "fv_queue_len v = 0" for n
    proof -
      have "decide v = (case fold (scale_down v) (fv_pods v) ([], 0) of ([], _) \<Rightarrow> [NoAction] | (actions, _) \<Rightarrow> actions)"
        using False ratio assms(1,4) floor fresh that by (auto simp: decide_def Let_def)
      moreover obtain acts k where f: "fold (scale_down v) (fv_pods v) ([], 0) = (acts, k)" by fastforce
      ultimately show ?thesis
        using down_actions [of "Deploy n" v "fv_pods v" "([], 0)"] by (cases acts) auto
    qed
    then show ?thesis unfolding if_not_P [OF False] by blast
  qed
qed

subsection \<open>Properties of the loop\<close>

lemma dead_row_idem [simp]: "dead_row (dead_row p) = dead_row p"
  by (simp add: dead_row_def)

lemma dead_row_state [simp]: "ps_state (dead_row p) = Dead"
  by (simp add: dead_row_def)

lemma mark_stale_row:
  assumes "reg_ok reg"
  shows "pr_pods (mark_stale now reg) pid = map_option (\<lambda>p. if stale now p then dead_row p else p) (pr_pods reg pid)"
proof -
  define f where "f = (\<lambda>p. if stale now p then mark_dead (ps_id p) else (\<lambda>r. r))"
  have dist: "distinct (map ps_id (pods_snapshot reg))" and rows: "set (pods_snapshot reg) = ran (pr_pods reg)"
    using snapshot_rows [OF assms] strict_sorted_iff by auto
  have own: "p \<in> set (pods_snapshot reg) \<Longrightarrow> pr_pods reg (ps_id p) = Some p" for p
    using assms rows by (auto simp: reg_ok_def row_ok_def ran_def)
  have "pr_pods (fold f ps r) pid = (if \<exists>p \<in> set ps. ps_id p = pid \<and> stale now p then map_option dead_row (pr_pods r pid) else pr_pods r pid)"
    if "distinct (map ps_id ps)" for ps r
    using that by (induction ps arbitrary: r) (auto simp: f_def mark_dead_def update_row_def split: option.splits)
  note marked = this [OF dist, of reg, folded f_def]
  show ?thesis
  proof (cases "pr_pods reg pid")
    case None
    with marked show ?thesis by (simp add: mark_stale_def f_def)
  next
    case (Some p)
    then have p: "p \<in> set (pods_snapshot reg)" "ps_id p = pid"
      using rows assms by (auto simp: ran_def reg_ok_def row_ok_def)
    have "(\<exists>q \<in> set (pods_snapshot reg). ps_id q = pid \<and> stale now q) \<longleftrightarrow> stale now p"
      using own p Some by (metis option.inject)
    with marked Some show ?thesis by (simp add: mark_stale_def f_def)
  qed
qed

lemma reg_ok_mark_stale: "reg_ok reg \<Longrightarrow> reg_ok (mark_stale now reg)"
proof -
  have "reg_ok r \<Longrightarrow> reg_ok (fold (\<lambda>p. if stale now p then mark_dead (ps_id p) else (\<lambda>r. r)) ps r)" for ps r
    by (induction ps arbitrary: r) (simp_all add: reg_ok_ops)
  then show "reg_ok reg \<Longrightarrow> ?thesis" by (simp add: mark_stale_def)
qed

text \<open>After the marking pass no pod is stale, so the first rule has nothing to do.\<close>

lemma mark_stale_none_stale:
  assumes "reg_ok reg"
  shows "filter (stale now) (pods_snapshot (mark_stale now reg)) = []"
proof -
  have "\<not> stale now p" if "pr_pods (mark_stale now reg) pid = Some p" for pid p
  proof -
    from that obtain q where "p = (if stale now q then dead_row q else q)" by (auto simp: mark_stale_row [OF assms])
    then show ?thesis by (cases "stale now q") (simp_all add: stale_def)
  qed
  then show ?thesis
    using snapshot_rows(1) [OF reg_ok_mark_stale [OF assms], of now] by (auto simp: filter_empty_conv ran_def)
qed

text \<open>
  The loop over any provider that keeps its contract: before and after every action the registry
  knows every pod of the cloud, and no other pods but those of a set \<open>J\<close> that registered themselves.
\<close>

abbreviation registered :: "'p fleet \<Rightarrow> string set" where
  "registered fl \<equiv> dom (pr_pods (fl_registry fl))"

lemma dom_update_row [simp]: "dom (pr_pods (update_row pid f reg)) = dom (pr_pods reg)"
  by (auto simp: update_row_def split: option.splits)

lemma dom_start_cooldown [simp]: "dom (pr_pods (start_cooldown pid now c reg)) = dom (pr_pods reg)"
  by (auto simp: start_cooldown_def split: option.splits)

lemma dom_mark_stale [simp]: "dom (pr_pods (mark_stale now reg)) = dom (pr_pods reg)"
proof -
  have "dom (pr_pods (fold (\<lambda>p. if stale now p then mark_dead (ps_id p) else (\<lambda>r. r)) ps r)) = dom (pr_pods r)" for ps r
    by (induction ps arbitrary: r) (simp_all add: mark_dead_def)
  then show ?thesis by (simp add: mark_stale_def)
qed

definition agrees :: "('p \<Rightarrow> string set) \<Rightarrow> string set \<Rightarrow> 'p fleet \<Rightarrow> bool" where
  "agrees live J fl \<longleftrightarrow> live (fl_cloud fl) \<subseteq> registered fl \<and> registered fl \<subseteq> live (fl_cloud fl) \<union> J"

lemma agrees_decisions [simp]: "agrees live J (fl\<lparr>fl_last_scale_decisions := ds\<rparr>) \<longleftrightarrow> agrees live J fl"
  by (simp add: agrees_def)

context pod_provider
begin

lemma deploy_one_agrees:
  "agrees live J fl \<Longrightarrow> agrees live J (fst (deploy_one P cfg fresh fl))"
  by (auto simp: agrees_def deploy_one_def register_def Let_def split: prod.splits sum.splits dest!: deploy_ok deploy_err)

lemma terminate_one_agrees:
  "agrees live J fl \<Longrightarrow> agrees live J (fst (terminate_one P pid fl))"
  by (auto simp: agrees_def terminate_one_def remove_pod_def is_ok_def split: prod.splits sum.splits dest!: terminate_ok terminate_err)

lemma exec_action_agrees:
  assumes "agrees live J fl"
  shows "agrees live J (fst (exec_action P cfg fresh now a (fl, ds)))"
proof (cases a)
  case (Deploy n)
  have "agrees live J (((\<lambda>fl. fst (deploy_one P cfg fresh fl)) ^^ k) fl)" for k
    by (induction k) (simp_all add: assms deploy_one_agrees)
  with Deploy show ?thesis by simp
next
  case (Terminate pid)
  with terminate_one_agrees [OF assms, of pid] show ?thesis by (auto split: prod.splits bool.splits)
next
  case (Replace pid)
  with deploy_one_agrees [OF terminate_one_agrees [OF assms, of pid], of cfg fresh] show ?thesis
    by (auto split: prod.splits option.splits)
qed (use assms in \<open>simp_all add: agrees_def\<close>)

lemma exec_actions_agree:
  "agrees live J fl \<Longrightarrow> agrees live J (fst (fold (exec_action P cfg fresh now) as (fl, ds)))"
proof (induction "as" arbitrary: fl ds)
  case (Cons a "as")
  obtain fl1 ds1 where "exec_action P cfg fresh now a (fl, ds) = (fl1, ds1)" by fastforce
  with exec_action_agrees [OF Cons.prems, of cfg fresh now a ds] Cons.IH [of fl1 ds1] show ?case by simp
qed simp

lemma tick_agrees:
  assumes "agrees live J fl"
  shows "agrees live J (scaler_tick P cfg fresh now fl)"
proof -
  let ?fl = "fl\<lparr>fl_registry := mark_stale now (fl_registry fl)\<rparr>"
  have "agrees live J ?fl" using assms by (simp add: agrees_def)
  from exec_actions_agree [OF this, of cfg fresh now "decide (view_of cfg now ?fl)" "[]"] show ?thesis
    by (auto simp: scaler_tick_def Let_def split: prod.splits)
qed

end

text \<open>
  What happens to the fleet between and at the ticks. A pod registers itself when it boots, under
  the id it was configured with (\<open>register_pod\<close> of \<open>api_internal.rs\<close>, which raises a capacity of 0 to 1).
\<close>

datatype fleet_event =
    Tick instant
  | PodRegister instant string string u32 "json option"
  | PodReady instant string
  | PodPing instant string u32
  | SessionAssigned string
  | SessionReleased string
  | PodDrained string
  | QueueNow session_queue

fun fleet_step :: "'p provider \<Rightarrow> scaler_cfg \<Rightarrow> (nat \<Rightarrow> string \<times> instant) \<Rightarrow> fleet_event \<Rightarrow> 'p fleet \<Rightarrow> 'p fleet" where
  "fleet_step P cfg fresh (Tick now) fl = scaler_tick P cfg fresh now fl"
| "fleet_step P cfg fresh (PodRegister now pid addr cap versions) fl =
     fl\<lparr>fl_registry := register now pid addr (max cap 1) versions (fl_registry fl)\<rparr>"
| "fleet_step P cfg fresh (PodReady now pid) fl = fl\<lparr>fl_registry := ready now pid (fl_registry fl)\<rparr>"
| "fleet_step P cfg fresh (PodPing now pid n) fl = fl\<lparr>fl_registry := ping now pid n (fl_registry fl)\<rparr>"
| "fleet_step P cfg fresh (SessionAssigned pid) fl = fl\<lparr>fl_registry := assign pid (fl_registry fl)\<rparr>"
| "fleet_step P cfg fresh (SessionReleased pid) fl = fl\<lparr>fl_registry := release pid (fl_registry fl)\<rparr>"
| "fleet_step P cfg fresh (PodDrained pid) fl = fl\<lparr>fl_registry := drain pid (fl_registry fl)\<rparr>"
| "fleet_step P cfg fresh (QueueNow q) fl = fl\<lparr>fl_queue := q\<rparr>"

definition empty_fleet :: "'p \<Rightarrow> 'p fleet" where
  "empty_fleet cloud =
     \<lparr>fl_registry = new_registry, fl_cloud = cloud, fl_queue = new_queue, fl_last_scale_decisions = [], fl_drawn = 0\<rparr>"

text \<open>The pods that registered themselves in the course of the events.\<close>

definition self_registered :: "fleet_event list \<Rightarrow> string set" where
  "self_registered evs = {pid. \<exists>now addr cap versions. PodRegister now pid addr cap versions \<in> set evs}"

lemma self_registered_Nil [simp]: "self_registered [] = {}"
  by (simp add: self_registered_def)

lemma self_registered_Cons: "self_registered (ev # evs) = self_registered [ev] \<union> self_registered evs"
  by (auto simp: self_registered_def)

lemma self_registered_one [simp]: "self_registered [PodRegister now pid addr cap versions] = {pid}"
  by (auto simp: self_registered_def)

context pod_provider
begin

lemma fleet_step_agrees:
  assumes "agrees live J fl"
  shows "agrees live (J \<union> self_registered [ev]) (fleet_step P cfg fresh ev fl)"
proof (cases ev)
  case (Tick now)
  with tick_agrees [OF assms, of cfg fresh now] show ?thesis by (auto simp: agrees_def)
next
  case (PodRegister now pid addr cap versions)
  with assms show ?thesis by (auto simp: agrees_def register_def Let_def)
qed (use assms in \<open>auto simp: agrees_def ready_def ping_def assign_def release_def drain_def\<close>)

lemma fleet_run_agrees:
  "agrees live J fl \<Longrightarrow> agrees live (J \<union> self_registered evs) (fold (fleet_step P cfg fresh) evs fl)"
proof (induction evs arbitrary: J fl)
  case (Cons ev evs)
  from Cons.IH [OF fleet_step_agrees [OF Cons.prems, of ev cfg fresh]] show ?case
    by (simp add: Un_assoc self_registered_Cons [of ev evs])
qed simp

end

text \<open>
  C33. The autoscaler neither leaks nor loses pods. On any provider that keeps its contract (a
  deployment or termination that succeeds does what it says, one that fails changes nothing: the
  mock provider always, RunPod as long as every answer arrives and is readable), after any sequence
  of ticks, self-registrations, reports and assignments from an empty cloud and registry on, every
  pod that runs in the cloud has a row in the registry, and every row is that of a pod that runs in
  the cloud or of one that registered itself. Without self-registrations under foreign ids the
  registry has a row for exactly the pods that run.
\<close>

theorem scaler_tracks_cloud:
  assumes "pod_provider P live" and "live cloud = {}"
  shows "let fl = fold (fleet_step P cfg fresh) evs (empty_fleet cloud) in
    live (fl_cloud fl) \<subseteq> dom (pr_pods (fl_registry fl)) \<and>
    dom (pr_pods (fl_registry fl)) \<subseteq> live (fl_cloud fl) \<union> self_registered evs \<and>
    (self_registered evs \<subseteq> live (fl_cloud fl) \<longrightarrow> dom (pr_pods (fl_registry fl)) = live (fl_cloud fl))"
proof -
  have "agrees live {} (empty_fleet cloud)" using assms(2) by (simp add: agrees_def empty_fleet_def new_registry_def)
  from pod_provider.fleet_run_agrees [OF assms(1) this, of evs cfg fresh] show ?thesis by (auto simp: agrees_def Let_def)
qed

definition dead_in :: "string \<Rightarrow> string option \<Rightarrow> mock_provider fleet \<Rightarrow> bool" where
  "dead_in pid c fl \<longleftrightarrow> map_option ps_state (pr_pods (fl_registry fl) pid) = Some Dead \<and> mk_live (fl_cloud fl) pid = c"

lemma dead_in_decisions [simp]: "dead_in pid c (fl\<lparr>fl_last_scale_decisions := ds\<rparr>) \<longleftrightarrow> dead_in pid c fl"
  by (simp add: dead_in_def)

lemma deploy_one_dead:
  assumes "dead_in pid c fl" and "\<forall>k. fst (fresh k) \<noteq> pid"
  shows "dead_in pid c (fst (deploy_one mock cfg fresh fl))"
proof -
  obtain i t where f: "fresh (fl_drawn fl) = (i, t)" by fastforce
  with assms(2) have "i \<noteq> pid" by (metis fst_conv)
  with assms(1) f show ?thesis
    by (simp add: deploy_one_def mock_def mock_deploy_def dead_in_def register_def Let_def)
qed

lemma exec_action_dead:
  assumes "dead_in pid c fl" and "\<forall>k. fst (fresh k) \<noteq> pid" and "a \<noteq> Terminate pid" and "\<forall>i. a \<noteq> Replace i"
  shows "dead_in pid c (fst (exec_action mock cfg fresh now a (fl, ds)))"
proof (cases a)
  case (Deploy n)
  have "dead_in pid c (((\<lambda>fl. fst (deploy_one mock cfg fresh fl)) ^^ k) fl)" for k
    by (induction k) (simp_all add: assms(1,2) deploy_one_dead)
  with Deploy show ?thesis by simp
next
  case (StartCooldown i)
  with assms(1) show ?thesis by (auto simp: dead_in_def start_cooldown_def update_row_def split: option.splits)
next
  case (Terminate i)
  with assms show ?thesis
    by (simp add: terminate_one_def mock_def mock_terminate_def dead_in_def remove_pod_def)
qed (use assms in simp_all)

text \<open>
  A dead pod is never replaced and never terminated. The loop marks a pod whose pings have
  stopped as Dead before it decides, the policy replaces only pods that are not yet Dead, and no
  rule acts on a Dead pod: the tick that finds the pod leaves it running in the cloud and dead in
  the registry, and so does every later tick.
\<close>

theorem dead_pod_never_replaced:
  assumes "reg_ok (fl_registry fl)" and "pr_pods (fl_registry fl) pid = Some p"
    and "stale now p \<or> ps_state p = Dead" and "\<forall>k. fst (fresh k) \<noteq> pid"
  shows "map_option ps_state (pr_pods (fl_registry (scaler_tick mock cfg fresh now fl)) pid) = Some Dead \<and>
    mk_live (fl_cloud (scaler_tick mock cfg fresh now fl)) pid = mk_live (fl_cloud fl) pid"
proof -
  let ?fl = "fl\<lparr>fl_registry := mark_stale now (fl_registry fl)\<rparr>"
  let ?v = "view_of cfg now ?fl" and ?c = "mk_live (fl_cloud fl) pid"
  have row: "pr_pods (fl_registry ?fl) pid = Some (if stale now p then dead_row p else p)"
    by (simp add: mark_stale_row [OF assms(1)] assms(2))
  then have start: "dead_in pid ?c ?fl" using assms(3) by (auto simp: dead_in_def)
  have ok: "reg_ok (fl_registry ?fl)" using reg_ok_mark_stale [OF assms(1)] by simp
  have ready: "ps_id q \<noteq> pid" if "q \<in> set (fv_pods ?v)" "ps_state q = Ready" for q
  proof
    assume "ps_id q = pid"
    with that snapshot_rows(1) [OF ok] ok have "pr_pods (fl_registry ?fl) pid = Some q"
      by (auto simp: view_of_def ran_def reg_ok_def row_ok_def)
    with row that(2) assms(3) show False by (auto split: if_splits)
  qed
  have harmless: "a \<noteq> Terminate pid \<and> (\<forall>i. a \<noteq> Replace i)" if "a \<in> set (decide ?v)" for a
  proof (cases ?v rule: decide_cases)
    case replace
    with mark_stale_none_stale [OF assms(1), of now] show ?thesis by (simp add: view_of_def)
  next
    case down
    with that down_actions [of a ?v "fv_pods ?v" "([], 0)"] ready show ?thesis by auto
  qed (use that in auto)
  have "dead_in pid ?c (fst (fold (exec_action mock cfg fresh now) as (fl', ds)))"
    if "dead_in pid ?c fl'" "set as \<subseteq> set (decide ?v)" for "as" fl' ds
    using that
  proof (induction "as" arbitrary: fl' ds)
    case (Cons a "as")
    obtain fl1 ds1 where e: "exec_action mock cfg fresh now a (fl', ds) = (fl1, ds1)" by fastforce
    have "dead_in pid ?c fl1" using exec_action_dead [OF Cons.prems(1) assms(4), of a cfg now ds] harmless [of a] Cons.prems e by simp
    with Cons e show ?case by simp
  qed simp
  from this [OF start subset_refl, of "[]"] have "dead_in pid ?c (scaler_tick mock cfg fresh now fl)"
    by (auto simp: scaler_tick_def Let_def split: prod.splits)
  then show ?thesis by (simp add: dead_in_def)
qed

text \<open>A row that is Booting, in a registry that is in order.\<close>

definition booting :: "string \<Rightarrow> 'p fleet \<Rightarrow> bool" where
  "booting pid fl \<longleftrightarrow> reg_ok (fl_registry fl) \<and> map_option ps_state (pr_pods (fl_registry fl) pid) = Some Booting"

lemma booting_decisions [simp]: "booting pid (fl\<lparr>fl_last_scale_decisions := ds\<rparr>) \<longleftrightarrow> booting pid fl"
  by (simp add: booting_def)

lemma booting_mark_stale: "booting pid fl \<Longrightarrow> booting pid (fl\<lparr>fl_registry := mark_stale now (fl_registry fl)\<rparr>)"
  by (auto simp: booting_def reg_ok_mark_stale mark_stale_row stale_def)

lemma booting_seen:
  assumes "booting pid fl"
  shows "any_booting (fv_pods (view_of cfg now fl))"
    and "q \<in> set (fv_pods (view_of cfg now fl)) \<Longrightarrow> ps_state q = Ready \<Longrightarrow> ps_id q \<noteq> pid"
  using assms snapshot_rows(1) [of "fl_registry fl"]
  by (auto simp: booting_def any_booting_def list_ex_iff view_of_def ran_def reg_ok_def row_ok_def)

text \<open>With such a row a decision that replaces nothing only starts or cancels cooldowns and terminates other pods.\<close>

lemma booting_harmless:
  assumes "booting pid fl" and "filter (stale now) (pods_snapshot (fl_registry fl)) = []"
    and "a \<in> set (decide (view_of cfg now fl))"
  shows "a = NoAction \<or> (\<exists>i. a = StartCooldown i) \<or> (\<exists>i. a = CancelCooldown i) \<or> (\<exists>i. a = Terminate i \<and> i \<noteq> pid)"
proof (cases "view_of cfg now fl" rule: decide_cases)
  case replace
  with assms(2) show ?thesis by (simp add: view_of_def)
next
  case deploy
  with booting_seen(1) [OF assms(1)] show ?thesis by blast
next
  case down
  with assms(3) down_actions [of a "view_of cfg now fl" _ "([], 0)"] booting_seen(2) [OF assms(1)] show ?thesis by fastforce
qed (use assms(3) in auto)

lemma exec_action_booting:
  assumes "booting pid fl"
    and "a = NoAction \<or> (\<exists>i. a = StartCooldown i) \<or> (\<exists>i. a = CancelCooldown i) \<or> (\<exists>i. a = Terminate i \<and> i \<noteq> pid)"
  shows "booting pid (fst (exec_action P cfg fresh now a (fl, ds))) \<and> fl_drawn (fst (exec_action P cfg fresh now a (fl, ds))) = fl_drawn fl"
  using assms(2)
proof (elim disjE exE conjE)
  fix i
  assume "a = StartCooldown i"
  moreover have "reg_ok (fl_registry fl) \<Longrightarrow> reg_ok (start_cooldown i now (sc_pod_cooldown cfg) (fl_registry fl))" by (rule reg_ok_ops)
  moreover have "map_option ps_state (pr_pods (fl_registry fl) pid) = Some Booting \<Longrightarrow>
      pr_pods (start_cooldown i now (sc_pod_cooldown cfg) (fl_registry fl)) pid = pr_pods (fl_registry fl) pid"
    by (auto simp: start_cooldown_def update_row_def split: option.splits)
  ultimately show ?thesis using assms(1) by (simp add: booting_def)
next
  fix i
  assume a: "a = Terminate i" "i \<noteq> pid"
  have "booting pid (fst (terminate_one P i fl)) \<and> fl_drawn (fst (terminate_one P i fl)) = fl_drawn fl"
    using assms(1) a(2) reg_ok_ops(2) [of "fl_registry fl" i]
    by (cases "pv_terminate P i (fl_cloud fl)") (auto simp: booting_def terminate_one_def Let_def, simp add: remove_pod_def)
  with a(1) show ?thesis by (auto split: prod.splits bool.splits)
qed (use assms(1) in simp_all)

lemma tick_booting:
  assumes "booting pid fl"
  shows "booting pid (scaler_tick P cfg fresh now fl) \<and> fl_drawn (scaler_tick P cfg fresh now fl) = fl_drawn fl"
proof -
  let ?fl = "fl\<lparr>fl_registry := mark_stale now (fl_registry fl)\<rparr>"
  have start: "booting pid ?fl" by (rule booting_mark_stale [OF assms])
  have none: "filter (stale now) (pods_snapshot (fl_registry ?fl)) = []"
    using mark_stale_none_stale assms by (simp add: booting_def)
  have "booting pid (fst (fold (exec_action P cfg fresh now) as (fl', ds))) \<and>
      fl_drawn (fst (fold (exec_action P cfg fresh now) as (fl', ds))) = fl_drawn fl'"
    if "booting pid fl'" "set as \<subseteq> set (decide (view_of cfg now ?fl))" for "as" fl' ds
    using that
  proof (induction "as" arbitrary: fl' ds)
    case (Cons a "as")
    obtain fl1 ds1 where e: "exec_action P cfg fresh now a (fl', ds) = (fl1, ds1)" by fastforce
    have a: "a \<in> set (decide (view_of cfg now ?fl))" using Cons.prems(2) by simp
    from exec_action_booting [OF Cons.prems(1) booting_harmless [OF start none a], of P cfg fresh now ds] e Cons.IH [of fl1 ds1] Cons.prems(2)
    show ?case by simp
  qed simp
  from this [OF start subset_refl, of "[]"] show ?thesis
    by (auto simp: scaler_tick_def Let_def split: prod.splits)
qed

lemma fleet_step_booting:
  assumes "booting pid fl" and "\<forall>t. ev \<noteq> PodReady t pid" and "ev \<noteq> PodDrained pid"
  shows "booting pid (fleet_step P cfg fresh ev fl) \<and> fl_drawn (fleet_step P cfg fresh ev fl) = fl_drawn fl"
proof (cases ev)
  case (Tick now)
  with tick_booting [OF assms(1)] show ?thesis by simp
next
  case PodRegister
  with assms(1) show ?thesis by (auto simp: booting_def reg_ok_ops) (auto simp: register_def new_pod_def Let_def)
qed (use assms in \<open>auto simp: booting_def reg_ok_ops, auto simp: ready_def ping_def assign_def release_def drain_def update_row_def
  ping_row_def assign_row_def release_row_def split: option.splits\<close>)

lemma fleet_run_booting:
  assumes "booting pid fl" and "\<forall>ev \<in> set evs. (\<forall>t. ev \<noteq> PodReady t pid) \<and> ev \<noteq> PodDrained pid"
  shows "booting pid (fold (fleet_step P cfg fresh) evs fl) \<and> fl_drawn (fold (fleet_step P cfg fresh) evs fl) = fl_drawn fl"
  using assms
proof (induction evs arbitrary: fl)
  case (Cons ev evs)
  from fleet_step_booting [OF Cons.prems(1), of ev P cfg fresh] Cons show ?case by simp
qed simp

text \<open>
  C37. A pod that never comes up stops the autoscaler for good. As long as a pod stays Booting (it
  does not report ready and is not drained), no tick deploys a pod, whatever the provider, the
  queue, the load and the warm floor: a Booting pod never counts as stale, and a Booting pod holds
  back every rule that deploys.
\<close>

theorem stuck_booting_pod_stops_scaling:
  assumes "reg_ok (fl_registry fl)" and "map_option ps_state (pr_pods (fl_registry fl) pid) = Some Booting"
    and "\<forall>ev \<in> set evs. (\<forall>t. ev \<noteq> PodReady t pid) \<and> ev \<noteq> PodDrained pid"
  shows "fl_drawn (fold (fleet_step P cfg fresh) evs fl) = fl_drawn fl \<and>
    map_option ps_state (pr_pods (fl_registry (fold (fleet_step P cfg fresh) evs fl)) pid) = Some Booting"
proof -
  from assms(1,2) have "booting pid fl" by (simp add: booting_def)
  from fleet_run_booting [OF this assms(3), of P cfg fresh] show ?thesis by (simp add: booting_def)
qed

subsection \<open>Witnesses\<close>

definition pod0 :: "string \<Rightarrow> u32 \<Rightarrow> instant option \<Rightarrow> pod_state" where
  "pod0 pid n cooldown = (ready_row 5 (new_pod 1 pid ''a'' 5 None))\<lparr>ps_fill := n, ps_cooldown_until := cooldown\<rparr>"

definition view0 :: "pod_state list \<Rightarrow> fleet_view" where
  "view0 pods = \<lparr>fv_pods = pods, fv_queue_len = 0, fv_warm_floor = 1, fv_scale_up_fill = four_fifths, fv_cooldown = 300, fv_now = 10\<rparr>"

lemma decide_terminates_safely_witness:
  "let v = view0 [pod0 ''p'' 0 (Some 9), pod0 ''q'' 0 (Some 9)] in
    Terminate ''p'' \<in> set (decide v) \<and> length (terminations (decide v)) + 1 \<le> 2 \<and>
    (\<exists>p \<in> set (fv_pods v). ps_id p = ''p'' \<and> ps_state p = Ready \<and> ps_fill p = 0 \<and>
       (\<exists>t. ps_cooldown_until p = Some t \<and> t \<le> fv_now v))"
proof -
  let ?v = "view0 [pod0 ''p'' 0 (Some 9), pod0 ''q'' 0 (Some 9)]"
  have t: "Terminate ''p'' \<in> set (decide ?v)" by code_simp
  have "length (fv_pods ?v) < 2 ^ 32" by (simp add: view0_def)
  from decide_terminates_safely [OF this t] t show ?thesis
    by (simp add: Let_def) (simp add: view0_def pod0_def ready_row_def new_pod_def)
qed

lemma draining_pod_counts_as_warm_witness:
  "decide (view0 [pod0 ''p'' 0 (Some 9), (pod0 ''q'' 0 None)\<lparr>ps_state := Draining\<rparr>]) = [Terminate ''p'']"
proof -
  have "\<not> stale 10 (pod0 ''p'' 0 (Some 9))" "\<not> stale 10 ((pod0 ''q'' 0 None)\<lparr>ps_state := Draining\<rparr>)"
    "\<not> f32_ge (fill_ratio [pod0 ''p'' 0 (Some 9), (pod0 ''q'' 0 None)\<lparr>ps_state := Draining\<rparr>]) four_fifths"
    by code_simp+
  then show ?thesis
    using draining_pod_counts_as_warm [of "view0 [pod0 ''p'' 0 (Some 9), (pod0 ''q'' 0 None)\<lparr>ps_state := Draining\<rparr>]"
      "pod0 ''p'' 0 (Some 9)" "(pod0 ''q'' 0 None)\<lparr>ps_state := Draining\<rparr>" 9]
    by (simp add: view0_def pod0_def ready_row_def new_pod_def)
qed

lemma decide_deploys_alone_witness: "\<not> any_booting [pod0 ''p'' 4 None]"
proof -
  have "Deploy 1 \<in> set (decide (view0 [pod0 ''p'' 4 None]))" by code_simp
  from decide_deploys_alone [OF this] show ?thesis by (simp add: view0_def)
qed

lemma scale_up_at_four_fifths_witness: "decide (view0 [pod0 ''p'' 4 None]) = [Deploy 1]"
proof -
  have "ready_cap [pod0 ''p'' 4 None] = 5" "ready_used [pod0 ''p'' 4 None] = 4" "\<not> stale 10 (pod0 ''p'' 4 None)"
    "\<not> any_booting [pod0 ''p'' 4 None]" "1 \<le> live_count [pod0 ''p'' 4 None]" "ps_fill (pod0 ''p'' 4 None) \<le> ps_cap (pod0 ''p'' 4 None)"
    by code_simp+
  with scale_up_at_four_fifths [of "view0 [pod0 ''p'' 4 None]"] show ?thesis by (simp add: view0_def)
qed

definition fleet0 :: "mock_provider fleet" where
  "fleet0 = (empty_fleet new_mock)\<lparr>fl_registry := ready 5 ''p'' (register 1 ''p'' ''a'' 5 None new_registry)\<rparr>"

definition cfg0 :: scaler_cfg where
  "cfg0 = \<lparr>sc_pod_max_sessions = 2, sc_scale_up_fill = four_fifths, sc_warm_pool_floor = 1, sc_pod_cooldown = 300\<rparr>"

definition ids0 :: "nat \<Rightarrow> string \<times> instant" where
  "ids0 k = (''n'' @ replicate k (CHR ''x''), 0)"

lemma dead_pod_never_replaced_witness:
  "map_option ps_state (pr_pods (fl_registry (scaler_tick mock cfg0 ids0 16000000000 fleet0)) ''p'') = Some Dead"
proof -
  have "reg_ok (fl_registry fleet0)" by (simp add: fleet0_def reg_ok_ops reg_ok_new)
  moreover have "pr_pods (fl_registry fleet0) ''p'' = Some (pod0 ''p'' 0 None)" "stale 16000000000 (pod0 ''p'' 0 None)"
    by code_simp+
  ultimately show ?thesis
    using dead_pod_never_replaced [of fleet0 "''p''" "pod0 ''p'' 0 None" 16000000000 ids0 cfg0] by (simp add: ids0_def)
qed

text \<open>A tick that deploys, and a pod of another cloud that registers itself.\<close>

lemma scaler_tracks_cloud_witness:
  "let fl = fold (fleet_step mock cfg0 ids0) [Tick 1, PodRegister 2 ''x'' ''a'' 0 None] (empty_fleet new_mock) in
    mk_live (fl_cloud fl) ''n'' = Some ''n'' \<and> dom (mk_live (fl_cloud fl)) \<subseteq> dom (pr_pods (fl_registry fl)) \<and>
    dom (pr_pods (fl_registry fl)) \<subseteq> dom (mk_live (fl_cloud fl)) \<union> {''x''}"
proof -
  let ?evs = "[Tick 1, PodRegister 2 ''x'' ''a'' 0 None]"
  have "mk_live (fl_cloud (fold (fleet_step mock cfg0 ids0) ?evs (empty_fleet new_mock))) ''n'' = Some ''n''" by code_simp
  moreover have "self_registered ?evs = {''x''}" by (auto simp: self_registered_def)
  ultimately show ?thesis
    using scaler_tracks_cloud [OF mk.pod_provider_axioms, of new_mock cfg0 ids0 ?evs]
    by (simp only: Let_def) (simp add: new_mock_def)
qed

text \<open>One pod that never comes up, and a session that waits for hours.\<close>

lemma stuck_booting_pod_stops_scaling_witness:
  "fl_drawn (fold (fleet_step mock cfg0 ids0) [QueueNow (enqueue (waiting ''s'') new_queue), Tick 36000000000000]
      (fleet0\<lparr>fl_registry := register 1 ''q'' ''a'' 5 None new_registry\<rparr>)) = 0"
proof -
  have "reg_ok (register 1 ''q'' ''a'' 5 None new_registry)" by (simp add: reg_ok_ops reg_ok_new)
  moreover have "map_option ps_state (pr_pods (register 1 ''q'' ''a'' 5 None new_registry) ''q'') = Some Booting"
    by (simp add: register_def new_pod_def Let_def)
  ultimately show ?thesis
    using stuck_booting_pod_stops_scaling [of "fleet0\<lparr>fl_registry := register 1 ''q'' ''a'' 5 None new_registry\<rparr>" "''q''"
      "[QueueNow (enqueue (waiting ''s'') new_queue), Tick 36000000000000]" mock cfg0 ids0]
    by (simp add: fleet0_def empty_fleet_def)
qed

end
