(* ===== verification/RateLimit.thy ===== *)
theory RateLimit
  imports Registry OrchErr
begin

text \<open>
  \<open>crates/orchestrator/src/ratelimit.rs\<close>: the fixed-window limiter. The table maps a token id
  and a class to the window that counts its requests; the clock is an argument, as in
  \<open>check_at\<close>. The lemmas reduce a run over the requests of every client to the run of one key,
  and bound what a key gets through in any interval.
\<close>

subsection \<open>State and check\<close>

datatype rate_class = Create | Resume | Signal

definition limit :: "rate_class \<Rightarrow> u64" where
  "limit c = (case c of Create \<Rightarrow> 10 | Resume \<Rightarrow> 30 | Signal \<Rightarrow> 50)"

definition window :: "rate_class \<Rightarrow> int" where
  "window c = (case c of Create \<Rightarrow> 60 | Resume \<Rightarrow> 60 | Signal \<Rightarrow> 1) * 1000000000"

record rl_window =
  w_start :: instant
  w_count :: u64

type_synonym rl_key = "string \<times> rate_class"

type_synonym rate_limiter = "rl_key \<rightharpoonup> rl_window"

definition check_at :: "string \<Rightarrow> rate_class \<Rightarrow> instant \<Rightarrow> rate_limiter \<Rightarrow> rate_limiter \<times> (orch_error + unit)" where
  "check_at tid class now m =
     (let key = (tid, class);
          win = (case m key of None \<Rightarrow> \<lparr>w_start = now, w_count = 0\<rparr> | Some w \<Rightarrow> w);
          win = (if duration_since now (w_start win) \<ge> window class then \<lparr>w_start = now, w_count = 0\<rparr> else win) in
      if w_count win \<ge> limit class then (m(key \<mapsto> win), Inl ORateLimited)
      else (m(key \<mapsto> win\<lparr>w_count := w_count win + 1\<rparr>), Inr ()))"

subsection \<open>One key\<close>

text \<open>The window a request meets, and the times of the requests a key gets through.\<close>

definition roll :: "rate_class \<Rightarrow> instant \<Rightarrow> rl_window option \<Rightarrow> rl_window" where
  "roll c now w =
     (case w of
        None \<Rightarrow> \<lparr>w_start = now, w_count = 0\<rparr>
      | Some w \<Rightarrow> if duration_since now (w_start w) \<ge> window c then \<lparr>w_start = now, w_count = 0\<rparr> else w)"

fun win_accepted :: "rate_class \<Rightarrow> instant list \<Rightarrow> rl_window option \<Rightarrow> instant list" where
  "win_accepted c [] w = []"
| "win_accepted c (t # ts) w =
     (let win = roll c t w in
      if w_count win < limit c then t # win_accepted c ts (Some (win\<lparr>w_count := w_count win + 1\<rparr>))
      else win_accepted c ts (Some win))"

fun accepted :: "(rl_key \<times> instant) list \<Rightarrow> rate_limiter \<Rightarrow> rl_key \<Rightarrow> instant list" where
  "accepted [] m k = []"
| "accepted ((k', t) # rs) m k =
     (case check_at (fst k') (snd k') t m of
        (m', r) \<Rightarrow> (if k' = k \<and> is_ok r then [t] else []) @ accepted rs m' k)"

abbreviation times_of :: "rl_key \<Rightarrow> (rl_key \<times> instant) list \<Rightarrow> instant list" where
  "times_of k rs \<equiv> map snd (filter (\<lambda>r. fst r = k) rs)"

lemma window_pos: "0 < window c"
  by (cases c) (simp_all add: window_def)

lemma roll_None: "roll c t None = \<lparr>w_start = t, w_count = 0\<rparr>"
  by (simp add: roll_def)

lemma check_at_roll:
  "check_at tid c t m =
     (let win = roll c t (m (tid, c)) in
      if w_count win < limit c then (m((tid, c) \<mapsto> win\<lparr>w_count := w_count win + 1\<rparr>), Inr ())
      else (m((tid, c) \<mapsto> win), Inl ORateLimited))"
  using window_pos [of c] by (auto simp: check_at_def roll_def Let_def duration_since_def not_le split: option.splits)

text \<open>Isolation: what a key gets through depends on its own requests alone.\<close>

lemma accepted_key: "accepted rs m k = win_accepted (snd k) (times_of k rs) (m k)"
proof (induction rs arbitrary: m)
  case (Cons r rs)
  obtain tid c t where r: "r = ((tid, c), t)" by (metis surj_pair)
  show ?case
    by (cases "(tid, c) = k") (auto simp: r Cons.IH check_at_roll Let_def is_ok_def)
qed simp

abbreviation within :: "rate_class \<Rightarrow> instant \<Rightarrow> instant list \<Rightarrow> nat" where
  "within c t0 ts \<equiv> length (filter (\<lambda>t. t0 \<le> t \<and> t < t0 + window c) ts)"

lemma win_accepted_subset: "set (win_accepted c ts w) \<subseteq> set ts"
  by (induction c ts w rule: win_accepted.induct) (auto simp: Let_def)

lemma within_late: "\<forall>t \<in> set ts. t0 + window c \<le> t \<Longrightarrow> within c t0 (win_accepted c ts w) = 0"
  using win_accepted_subset [of c ts w] by (fastforce simp: filter_empty_conv)

lemma counted: "w_count w < limit c \<Longrightarrow> unat (w_count w + 1) = Suc (unat (w_count w)) \<and> w_count w + 1 \<le> limit c"
proof -
  assume lt: "w_count w < limit c"
  then have "unat (w_count w) + 1 < 2 ^ 64" using unat_bound [of "limit c"] by (simp add: word_less_nat_alt)
  then have "unat (w_count w + 1) = unat (w_count w) + 1" by (simp add: unat_word_ariths)
  with lt show ?thesis by (simp add: word_le_nat_alt word_less_nat_alt)
qed

text \<open>A window that starts inside an interval no longer than itself is the last one in it.\<close>

lemma accepted_one_window:
  assumes "t0 \<le> w_start w" and "sorted ts" and "\<forall>t \<in> set ts. w_start w \<le> t" and "w_count w \<le> limit c"
  shows "within c t0 (win_accepted c ts (Some w)) \<le> unat (limit c) - unat (w_count w)"
  using assms
proof (induction ts arbitrary: w)
  case (Cons t ts)
  show ?case
  proof (cases "duration_since t (w_start w) \<ge> window c")
    case True
    with Cons.prems window_pos [of c] have "t0 + window c \<le> t" by (simp add: duration_since_def split: if_splits)
    with Cons.prems have "\<forall>x \<in> set (t # ts). t0 + window c \<le> x" by auto
    from within_late [OF this] show ?thesis by simp
  next
    case False
    then have roll: "roll c t (Some w) = w" by (simp add: roll_def)
    show ?thesis
    proof (cases "w_count w < limit c")
      case True
      then have "unat (w_count w) < unat (limit c)" by (simp add: word_less_nat_alt)
      with Cons.IH [of "w\<lparr>w_count := w_count w + 1\<rparr>"] Cons.prems counted [OF True] show ?thesis
        by (simp add: roll True; linarith)
    next
      case False
      with Cons.IH [of w] Cons.prems show ?thesis by (simp add: roll)
    qed
  qed
qed simp

lemma accepted_two_windows:
  assumes "sorted ts" and "\<forall>t \<in> set ts. w_start w \<le> t \<and> t0 \<le> t" and "w_count w \<le> limit c"
  shows "within c t0 (win_accepted c ts (Some w)) \<le> (unat (limit c) - unat (w_count w)) + unat (limit c)"
  using assms
proof (induction ts arbitrary: w)
  case (Cons t ts)
  show ?case
  proof (cases "duration_since t (w_start w) \<ge> window c")
    case True
    let ?w = "\<lparr>w_start = t, w_count = 0\<rparr>"
    have "roll c t (Some w) = ?w" "roll c t (Some ?w) = ?w"
      using True window_pos [of c] by (simp_all add: roll_def duration_since_def)
    then have "win_accepted c (t # ts) (Some w) = win_accepted c (t # ts) (Some ?w)" by simp
    moreover have "within c t0 (win_accepted c (t # ts) (Some ?w)) \<le> unat (limit c)"
      using accepted_one_window [of t0 ?w "t # ts" c] Cons.prems by simp
    ultimately show ?thesis by simp
  next
    case False
    then have roll: "roll c t (Some w) = w" by (simp add: roll_def)
    show ?thesis
    proof (cases "w_count w < limit c")
      case True
      then have "unat (w_count w) < unat (limit c)" by (simp add: word_less_nat_alt)
      with Cons.IH [of "w\<lparr>w_count := w_count w + 1\<rparr>"] Cons.prems counted [OF True] show ?thesis
        by (simp add: roll True; linarith)
    next
      case False
      with Cons.IH [of w] Cons.prems show ?thesis by (simp add: roll)
    qed
  qed
qed simp

definition win_ok :: "rate_class \<Rightarrow> instant list \<Rightarrow> rl_window option \<Rightarrow> bool" where
  "win_ok c ts w \<longleftrightarrow> (\<forall>x. w = Some x \<longrightarrow> w_count x \<le> limit c \<and> (\<forall>t \<in> set ts. w_start x \<le> t))"

lemma accepted_any_interval:
  assumes "sorted ts" and "win_ok c ts w"
  shows "within c t0 (win_accepted c ts w) \<le> 2 * unat (limit c)"
  using assms
proof (induction ts arbitrary: w)
  case (Cons t ts)
  define win where "win = roll c t w"
  have win: "w_count win \<le> limit c" "w_start win \<le> t" "\<forall>x \<in> set ts. w_start win \<le> x" "sorted ts"
    using Cons.prems by (auto simp: win_def roll_def win_ok_def split: option.splits intro: order.trans)
  have fix_roll: "roll c t (Some win) = win"
    using window_pos [of c] by (auto simp: win_def roll_def duration_since_def split: option.splits)
  then have same: "win_accepted c (t # ts) w = win_accepted c (t # ts) (Some win)" by (simp add: win_def)
  show ?case
  proof (cases "t0 \<le> t")
    case True
    with win Cons.prems have "\<forall>x \<in> set (t # ts). w_start win \<le> x \<and> t0 \<le> x" by auto
    from accepted_two_windows [OF Cons.prems(1) this win(1)] show ?thesis unfolding same by simp
  next
    case False
    have "win_ok c ts (Some win)" "w_count win < limit c \<Longrightarrow> win_ok c ts (Some (win\<lparr>w_count := w_count win + 1\<rparr>))"
      using win counted [of win c] by (simp_all add: win_ok_def)
    with Cons.IH win(4) False show ?thesis unfolding same by (simp add: fix_roll)
  qed
qed simp

lemma accepted_first_window:
  assumes "\<forall>x \<in> set ts. w_start w \<le> x \<and> x < w_start w + window c" and "w_count w \<le> limit c"
  shows "win_accepted c ts (Some w) = take (unat (limit c) - unat (w_count w)) ts"
  using assms
proof (induction ts arbitrary: w)
  case (Cons t ts)
  then have roll: "roll c t (Some w) = w" by (simp add: roll_def duration_since_def)
  show ?case
  proof (cases "w_count w < limit c")
    case True
    then obtain n where "unat (limit c) - unat (w_count w) = Suc n" "n = unat (limit c) - unat (w_count w + 1)"
      using counted [OF True] by (simp add: word_less_nat_alt Suc_diff_Suc)
    with Cons.IH [of "w\<lparr>w_count := w_count w + 1\<rparr>"] Cons.prems counted [OF True] show ?thesis
      by (simp add: roll True)
  next
    case False
    then have "unat (limit c) - unat (w_count w) = 0" by (simp add: word_less_nat_alt)
    with False Cons show ?thesis by (simp add: roll)
  qed
qed simp

subsection \<open>Properties\<close>

text \<open>
  C34. The budget holds in every interval: however the requests of all clients are mixed, in any
  interval as long as the window of a class a token gets at most twice the limit of that class
  through (a fixed window cannot promise less: an interval can touch two windows).
\<close>

theorem rate_limit_any_interval:
  assumes "sorted (map snd rs)"
  shows "within (snd k) t0 (accepted rs Map.empty k) \<le> 2 * unat (limit (snd k))"
proof -
  have "sorted (times_of k rs)" using assms sorted_filter [of snd rs] by blast
  then show ?thesis by (simp add: accepted_key accepted_any_interval win_ok_def)
qed

text \<open>
  Within the window that a token's first request opens, exactly the first requests up to the
  limit pass (10 creates, 30 resumes, 50 signalling frames), whatever other tokens, or the same
  token in other classes, send in between.
\<close>

theorem rate_limit_exact_budget:
  assumes "times_of k rs = t # ts" and "set ts \<subseteq> {t ..< t + window (snd k)}"
  shows "accepted rs Map.empty k = take (unat (limit (snd k))) (t # ts)"
proof -
  let ?w = "\<lparr>w_start = t, w_count = 0\<rparr>"
  have "roll (snd k) t (Some ?w) = ?w" using window_pos [of "snd k"] by (simp add: roll_def duration_since_def)
  then have "win_accepted (snd k) (t # ts) None = win_accepted (snd k) (t # ts) (Some ?w)" by (simp add: roll_None)
  also have "\<dots> = take (unat (limit (snd k))) (t # ts)"
    using accepted_first_window [of "t # ts" ?w "snd k"] assms(2) window_pos [of "snd k"] by (auto simp: subset_iff)
  finally show ?thesis using assms(1) by (simp add: accepted_key)
qed

subsection \<open>Witnesses\<close>

definition burst0 :: "(rl_key \<times> instant) list" where
  "burst0 = map (\<lambda>n. ((''tok'', Create), int n)) [0..<12] @ [((''other'', Create), 20)]"

lemma rate_limit_any_interval_witness: "within Create 0 (accepted burst0 Map.empty (''tok'', Create)) \<le> 20"
proof -
  have "sorted (map snd burst0)" by code_simp
  from rate_limit_any_interval [OF this, of 0 "(''tok'', Create)"] show ?thesis by (simp add: limit_def)
qed

lemma rate_limit_exact_budget_witness:
  "accepted burst0 Map.empty (''other'', Create) = [20] \<and>
   accepted burst0 Map.empty (''tok'', Create) = [0, 1, 2, 3, 4, 5, 6, 7, 8, 9]"
proof -
  have "times_of (''other'', Create) burst0 = 20 # []" "times_of (''tok'', Create) burst0 = 0 # [1, 2, 3, 4, 5, 6, 7, 8, 9, 10, 11]"
    by code_simp+
  note tok = this
  have ten: "unat (limit Create) = 10" by (simp add: limit_def)
  show ?thesis
    using rate_limit_exact_budget [OF tok(1)] rate_limit_exact_budget [OF tok(2)] by (simp add: ten window_def)
qed

end
