(* ===== verification/ArtifactSpec.thy ===== *)
theory ArtifactSpec
  imports StoreSpec
begin

text \<open>
  The contract of the object store with its artifacts (\<open>put_artifact\<close> of \<open>store.rs\<close>): the
  derived files of a session live beside its log, so that writing one leaves the log as it is.
\<close>

locale artifact_store = object_store L St holds
  for L :: libs and St :: "'s store_ops" and holds :: "'s \<Rightarrow> string \<Rightarrow> bytes list \<Rightarrow> bool" +
  fixes artifact :: "'s \<Rightarrow> string \<Rightarrow> string \<Rightarrow> bytes option"
  assumes put_artifact_spec: "CHR ''/'' \<notin> set name \<Longrightarrow>
    hoare (\<lambda>s. holds s sid ls) (st_put_artifact St sid name b)
      (\<lambda>x s. holds s sid ls \<and> (x = Inr () \<longrightarrow> artifact s sid name = Some b))"

definition s3_artifact :: "('s \<Rightarrow> (string \<times> bytes) list) \<Rightarrow> 's \<Rightarrow> string \<Rightarrow> string \<Rightarrow> bytes option" where
  "s3_artifact objs s sid name = map_of (objs s) (art_key sid name)"

lemma artifact_not_event:
  assumes "CHR ''/'' \<notin> set name"
  shows "\<not> starts_with (art_key sid name) (events_prefix sid)"
proof
  assume "starts_with (art_key sid name) (events_prefix sid)"
  then have "take (length EVENTS_PREFIX + 1) name = EVENTS_PREFIX @ ''/''"
    by (simp add: starts_with_def art_key_def events_prefix_def)
  then have "CHR ''/'' \<in> set (take (length EVENTS_PREFIX + 1) name)" by simp
  with assms show False by (meson in_set_takeD)
qed

interpretation s3a: artifact_store L "s3_store L S" "s3_holds S objs after" "s3_artifact objs"
proof
  fix name sid ls b
  assume name: "CHR ''/'' \<notin> set (name :: string)"
  show "hoare (\<lambda>s. s3_holds S objs after s sid ls) (st_put_artifact (s3_store L S) sid name b)
    (\<lambda>x s. s3_holds S objs after s sid ls \<and> (x = Inr () \<longrightarrow> s3_artifact objs s sid name = Some b))"
  proof (rule hoareI)
    fix s assume "s3_holds S objs after s sid ls"
    then have S: "s3_laws S objs after" and h: "has_log (objs s) sid ls" by (simp_all add: s3_holds_def)
    let ?k = "art_key sid name"
    obtain s' ok where put: "s3_put S ?k b s = (s', ok)" by (cases "s3_put S ?k b s")
    have m: "objs s' = bt_insert ?k b (objs s) \<or> \<not> ok \<and> objs s' = objs s" by (rule s3_put_law [OF S put])
    have "has_log (bt_insert ?k b (objs s)) sid ls"
      by (rule has_log_cong [OF h])
        (use artifact_not_event [OF name, of sid] s3_objs_ok [OF S] in \<open>auto simp: map_of_bt_insert\<close>)
    with m h S s3_objs_ok [OF S, of s] put show "\<exists>s' x. st_put_artifact (s3_store L S) sid name b s = Some (s', x) \<and>
        s3_holds S objs after s' sid ls \<and> (x = Inr () \<longrightarrow> s3_artifact objs s' sid name = Some b)"
      by (auto simp: s3_store_def put_artifact_def put_object_def s3_holds_def s3_artifact_def map_of_bt_insert)
  qed
qed

end
