(* ===== verification/Compact.thy ===== *)
theory Compact
  imports WriterSpec ArtifactSpec Render ChainFsck
begin

text \<open>
  \<open>crates/memoryd/src/compact.rs\<close>: compaction of a session's memory. The summarizer is the
  argument \<open>roll\<close>, with the deterministic one of the code as an instance; serde's decoding of an
  event is the argument \<open>event_of\<close>. The state is the registry of writers and the two services.
  The compaction is split in two, as the code reads: the plan (trigger, range, summary event) and
  the commit (append through the writer, epoch, rendered memory). Metrics are left out.
\<close>

subsection \<open>Summaries\<close>

text \<open>\<open>trim_end\<close>: drops white space of one, two or three bytes from the end.\<close>

function trim_end :: "string \<Rightarrow> string" where
  "trim_end s =
     (if s = [] then []
      else if blank (drop (length s - 1) s) then trim_end (take (length s - 1) s)
      else if 2 \<le> length s \<and> blank (drop (length s - 2) s) then trim_end (take (length s - 2) s)
      else if 3 \<le> length s \<and> blank (drop (length s - 3) s) then trim_end (take (length s - 3) s)
      else s)"
  by pat_completeness auto
termination
  by (relation "measure length") auto

declare trim_end.simps [simp del]

definition mock_roll :: "string option \<Rightarrow> json list \<Rightarrow> memoryd_error + string" where
  "mock_roll prior events =
     Inr (trim_end ((case prior of Some p \<Rightarrow> p @ nl | None \<Rightarrow> []) @
       concat (map (\<lambda>e. case as_str (jidx e ''text'') of Some t \<Rightarrow> ''- '' @ t @ nl | None \<Rightarrow> []) events)))"

definition estimate_tokens :: "string \<Rightarrow> nat" where
  "estimate_tokens t = length (filter (\<lambda>c. \<not> is_continuation c) t) div 4"

definition summary_event_body :: "string \<Rightarrow> string \<Rightarrow> string \<Rightarrow> u64 \<Rightarrow> u64 \<Rightarrow> u64 \<Rightarrow> u64 \<Rightarrow> json" where
  "summary_event_body ts sid sm epoch cov_from cov_to turn_id =
     jobject [(''v'', ju64 1), (''session_id'', JStr sid), (''turn_id'', ju64 turn_id), (''ts'', JStr ts),
       (''role'', JStr ''system''), (''kind'', JStr ''summary''), (''text'', JStr sm),
       (''meta'', jobject [(''interrupted'', JBool False),
          (''covers'', jobject [(''from_turn'', ju64 cov_from), (''to_turn'', ju64 cov_to)]),
          (''epoch'', ju64 epoch)])]"

definition is_summary_value :: "json \<Rightarrow> bool" where
  "is_summary_value v = (jidx v ''kind'' = JStr ''summary'')"

fun prior_cover_rev :: "json list \<Rightarrow> u64 \<times> u64" where
  "prior_cover_rev [] = (0, 0)"
| "prior_cover_rev (v # vs) =
     (if is_summary_value v then
        (case as_object (jidx (jidx v ''meta'') ''covers'') of
           Some c \<Rightarrow> (unwrap_or (Option.bind (map_of c ''from_turn'') as_u64) 1, unwrap_or (Option.bind (map_of c ''to_turn'') as_u64) 0)
         | None \<Rightarrow> prior_cover_rev vs)
      else prior_cover_rev vs)"

definition prior_cover :: "json list \<Rightarrow> u64 \<times> u64" where
  "prior_cover vals = prior_cover_rev (rev vals)"

definition prior_summary_text :: "json list \<Rightarrow> string option" where
  "prior_summary_text vals =
     (case find is_summary_value (rev vals) of Some v \<Rightarrow> as_str (jidx v ''text'') | None \<Rightarrow> None)"

definition compact_range :: "u64 \<Rightarrow> u64 \<Rightarrow> json list \<Rightarrow> json list" where
  "compact_range prior_from upto_turn vals =
     filter (\<lambda>v. let t = unwrap_or (as_u64 (jidx v ''turn_id'')) 0 in t > prior_from \<and> t \<le> upto_turn) vals"

subsection \<open>The compaction\<close>

record compact_config =
  cc_verbatim_tail :: u64
  cc_token_budget :: nat

datatype compacted = NotNeeded | Done u64 nat

type_synonym ('s, 'r) service = "registry \<times> 's \<times> 'r"

definition read_values_of :: "libs \<Rightarrow> 's store_ops \<Rightarrow> string \<Rightarrow> (('s, 'r) service, memoryd_error, json list) proc" where
  "read_values_of L St sid =
     pbind (pmap_err StoreE (on_snd (on_fst (st_read_log St sid)))) (\<lambda>bytes. pret (log_values L bytes))"

definition prior_cover_from_store :: "libs \<Rightarrow> 's store_ops \<Rightarrow> string \<Rightarrow> (('s, 'r) service, memoryd_error, u64 \<times> u64) proc" where
  "prior_cover_from_store L St sid = pbind (read_values_of L St sid) (\<lambda>vals. pret (prior_cover vals))"

definition render_memory_from_store ::
    "libs \<Rightarrow> 's store_ops \<Rightarrow> (json \<Rightarrow> event option) \<Rightarrow> string \<Rightarrow> u64 \<Rightarrow> (('s, 'r) service, memoryd_error, string) proc" where
  "render_memory_from_store L St event_of sid tail =
     pbind (read_values_of L St sid) (\<lambda>vals.
     pbind (pof (map_err ChainE (fsck L vals))) (\<lambda>_.
     case render_memory (List.map_filter event_of vals) (unat tail) of
       None \<Rightarrow> (\<lambda>_. None)
     | Some md \<Rightarrow> pret md))"

text \<open>Whether neither trigger fires: few live turns, and a memory blob within the budget.\<close>

definition compact_enough ::
    "libs \<Rightarrow> 's store_ops \<Rightarrow> (json \<Rightarrow> event option) \<Rightarrow> compact_config \<Rightarrow> string \<Rightarrow> u64 \<Rightarrow> (('s, 'r) service, memoryd_error, bool) proc" where
  "compact_enough L St event_of cfg sid live_turns =
     (if live_turns \<le> cc_verbatim_tail cfg * 2
      then pbind (render_memory_from_store L St event_of sid (cc_verbatim_tail cfg)) (\<lambda>mem.
             pret (estimate_tokens mem \<le> cc_token_budget cfg))
      else pret False)"

definition compact_build ::
    "libs \<Rightarrow> 's store_ops \<Rightarrow> (string option \<Rightarrow> json list \<Rightarrow> memoryd_error + string) \<Rightarrow>
     compact_config \<Rightarrow> string \<Rightarrow> string \<Rightarrow> session_snapshot \<Rightarrow> u64 \<Rightarrow> (('s, 'r) service, memoryd_error, json \<times> u64) proc" where
  "compact_build L St roll cfg stamp sid idx prior_from =
     pbind (read_values_of L St sid) (\<lambda>vals.
     let last_turn = unwrap_or (sn_last_turn_id idx) 0;
         upto_turn = saturating_sub last_turn (cc_verbatim_tail cfg) in
     pbind (pof (roll (prior_summary_text vals) (compact_range prior_from upto_turn vals))) (\<lambda>new_summary.
     let epoch = unwrap_or (sn_epoch idx) 0 + 1 in
     pret (summary_event_body stamp sid new_summary epoch (prior_from + 1) upto_turn last_turn, epoch)))"

definition compact_plan ::
    "libs \<Rightarrow> 's store_ops \<Rightarrow> 'r redis \<Rightarrow> (json \<Rightarrow> event option) \<Rightarrow> (string option \<Rightarrow> json list \<Rightarrow> memoryd_error + string) \<Rightarrow>
     compact_config \<Rightarrow> clock \<Rightarrow> string \<Rightarrow> (('s, 'r) service, memoryd_error, (json \<times> u64) option) proc" where
  "compact_plan L St R event_of roll cfg clk sid =
     pmatch (on_snd (on_snd (snapshot R (fst clk) sid))) (\<lambda>snap.
     case snap of
       Inl _ \<Rightarrow> pret None
     | Inr idx \<Rightarrow>
         pbind (prior_cover_from_store L St sid) (\<lambda>prior.
         pbind (compact_enough L St event_of cfg sid (saturating_sub (unwrap_or (sn_last_turn_id idx) 0) (snd prior))) (\<lambda>enough.
         if enough then pret None
         else pbind (compact_build L St roll cfg (snd clk) sid idx (fst prior)) (\<lambda>plan. pret (Some plan)))))"

definition handle_append ::
    "libs \<Rightarrow> 's store_ops \<Rightarrow> 'r redis \<Rightarrow> clock \<Rightarrow> string \<Rightarrow> json \<Rightarrow> (('s, 'r) service, memoryd_error, append_result) proc" where
  "handle_append L St R clk sid body = (\<lambda>w. map_option (\<lambda>(w', res). (w', Inr res)) (registry_append L St R clk sid body w))"

definition compact_commit ::
    "libs \<Rightarrow> 's store_ops \<Rightarrow> 'r redis \<Rightarrow> (json \<Rightarrow> event option) \<Rightarrow> compact_config \<Rightarrow> clock \<Rightarrow> string \<Rightarrow> json \<Rightarrow> u64 \<Rightarrow>
     (('s, 'r) service, memoryd_error, compacted) proc" where
  "compact_commit L St R event_of cfg clk sid body epoch =
     pbind (handle_append L St R clk sid body) (\<lambda>res.
     pbind (case res of
              Committed hash _ \<Rightarrow> pret hash
            | Duplicate hash \<Rightarrow> pret hash
            | Rejected e \<Rightarrow> perr (Invalid (AppendRejected e))
            | Retryable e \<Rightarrow> perr (Invalid (AppendRetryable e))) (\<lambda>hash.
     pbind (pmap_err IndexE (on_snd (on_snd (advance_epoch R (fst clk) sid hash epoch)))) (\<lambda>_.
     pbind (render_memory_from_store L St event_of sid (cc_verbatim_tail cfg)) (\<lambda>mem.
     pbind (pmap_err StoreE (on_snd (on_fst (st_put_artifact St sid ARTIFACT_MEMORY mem)))) (\<lambda>_.
     pret (Done epoch (estimate_tokens mem)))))))"

definition maybe_compact ::
    "libs \<Rightarrow> 's store_ops \<Rightarrow> 'r redis \<Rightarrow> (json \<Rightarrow> event option) \<Rightarrow> (string option \<Rightarrow> json list \<Rightarrow> memoryd_error + string) \<Rightarrow>
     compact_config \<Rightarrow> clock \<Rightarrow> string \<Rightarrow> (('s, 'r) service, memoryd_error, compacted) proc" where
  "maybe_compact L St R event_of roll cfg clk sid =
     pbind (compact_plan L St R event_of roll cfg clk sid) (\<lambda>plan.
     case plan of
       None \<Rightarrow> pret NotNeeded
     | Some (body, epoch) \<Rightarrow> compact_commit L St R event_of cfg clk sid body epoch)"

subsection \<open>What the parts do to the log\<close>

text \<open>The session's log is \<open>evs\<close>, with the registry and the Redis state as given.\<close>

definition at_log ::
    "('s \<Rightarrow> string \<Rightarrow> bytes list \<Rightarrow> bool) \<Rightarrow> libs \<Rightarrow> string \<Rightarrow> json list \<Rightarrow> registry \<Rightarrow> 'r \<Rightarrow> ('s, 'r) service \<Rightarrow> bool" where
  "at_log holds L sid evs reg r w \<longleftrightarrow> (\<exists>s. w = (reg, s, r) \<and> holds s sid (print_log L evs))"

text \<open>
  The renderer slices timestamps and session ids by bytes and panics inside a character. What the
  derived decoder documents of the two (they are transparent strings), and the logs on which no slice
  panics whatever the tail: those whose timestamps and session ids are ASCII.
\<close>

definition decodes_text :: "(json \<Rightarrow> event option) \<Rightarrow> bool" where
  "decodes_text event_of \<longleftrightarrow>
     (\<forall>m e. event_of (JObj m) = Some e \<longrightarrow> map_of m ''ts'' = Some (JStr (ev_ts e)) \<and> map_of m ''session_id'' = Some (JStr (ev_session_id e)))"

definition ascii_log :: "json list \<Rightarrow> bool" where
  "ascii_log evs \<longleftrightarrow> (\<forall>v \<in> set evs. \<forall>x. jget v ''ts'' = Some (JStr x) \<or> jget v ''session_id'' = Some (JStr x) \<longrightarrow> ascii x)"

definition plain_log :: "(json \<Rightarrow> event option) \<Rightarrow> json list \<Rightarrow> bool" where
  "plain_log event_of evs \<longleftrightarrow> (\<forall>v \<in> set evs. \<forall>e. event_of v = Some e \<longrightarrow> ascii (ev_ts e) \<and> ascii (ev_session_id e))"

lemma plain_log_append [simp]: "plain_log event_of (xs @ ys) \<longleftrightarrow> plain_log event_of xs \<and> plain_log event_of ys"
  by (auto simp: plain_log_def)

lemma plain_log_Nil [simp]: "plain_log event_of []"
  by (simp add: plain_log_def)

lemma ascii_log_plain:
  assumes "decodes_text event_of" and "ascii_log evs" and "\<forall>v \<in> set evs. \<exists>m. v = JObj m"
  shows "plain_log event_of evs"
  unfolding plain_log_def
proof (intro ballI allI impI)
  fix v e assume v: "v \<in> set evs" "event_of v = Some e"
  then obtain m where "v = JObj m" using assms(3) by blast
  with v assms(1,2) show "ascii (ev_ts e) \<and> ascii (ev_session_id e)" by (force simp: decodes_text_def ascii_log_def)
qed

lemma valid_log_objects: "valid_log L evs \<Longrightarrow> \<forall>v \<in> set evs. \<exists>m. v = JObj m"
proof (induction evs rule: rev_induct)
  case (snoc e evs)
  then show ?case by (cases e) (auto simp: valid_log_snoc)
qed simp

text \<open>The summary event that a snapshot of the index leads to.\<close>

definition planned :: "index_err + session_snapshot \<Rightarrow> clock \<Rightarrow> string \<Rightarrow> json \<Rightarrow> u64 \<Rightarrow> bool" where
  "planned res clk sid body epoch \<longleftrightarrow>
     (\<exists>idx sm a b. res = Inr idx \<and> epoch = unwrap_or (sn_epoch idx) 0 + 1 \<and>
        body = summary_event_body (snd clk) sid sm epoch a b (unwrap_or (sn_last_turn_id idx) 0))"

lemma planned_epoch: "planned (Inr idx) clk sid body epoch \<Longrightarrow> epoch = unwrap_or (sn_epoch idx) 0 + 1"
  by (auto simp: planned_def)

lemma render_memory_total:
  assumes "plain_log event_of vals"
  obtains md where "render_memory (List.map_filter event_of vals) n = Some md"
proof -
  have "\<forall>e \<in> set (List.map_filter event_of vals). ascii (ev_ts e) \<and> ascii (ev_session_id e)"
    using assms by (auto simp: plain_log_def List.map_filter_def)
  with render_total_ascii [of "List.map_filter event_of vals" n] that show thesis by auto
qed

context object_store
begin

lemma read_values_spec:
  assumes "serde_laws L" and "\<forall>e \<in> set evs. jwf e \<and> no_float e"
  shows "hoare (at_log holds L sid evs reg r) (read_values_of L St sid)
    (\<lambda>x w. at_log holds L sid evs reg r w \<and> (\<forall>vals. x = Inr vals \<longrightarrow> vals = evs))"
proof (rule hoareI)
  fix w assume "at_log holds L sid evs reg r w"
  then obtain s where w: "w = (reg, s, r)" "holds s sid (print_log L evs)" by (auto simp: at_log_def)
  from hoareE [OF read_spec w(2)] obtain s1 x where "st_read_log St sid s = Some (s1, x)" "holds s1 sid (print_log L evs)"
    "case x of Inr out \<Rightarrow> out = log_bytes (print_log L evs) | Inl e \<Rightarrow> True" by blast
  with w log_values_print [OF assms] show "\<exists>w' x. read_values_of L St sid w = Some (w', x) \<and>
      at_log holds L sid evs reg r w' \<and> (\<forall>vals. x = Inr vals \<longrightarrow> vals = evs)"
    by (cases x) (auto simp: read_values_of_def pbind_def pmap_err_def pmatch_def on_snd_def on_fst_def at_log_def)
qed

lemma prior_cover_spec:
  assumes "serde_laws L" and "\<forall>e \<in> set evs. jwf e \<and> no_float e"
  shows "hoare (at_log holds L sid evs reg r) (prior_cover_from_store L St sid)
    (\<lambda>x w. at_log holds L sid evs reg r w \<and> (\<forall>p. x = Inr p \<longrightarrow> p = prior_cover evs))"
  unfolding prior_cover_from_store_def
  by (rule hoare_pbind [OF read_values_spec [OF assms]]) (auto intro!: hoare_pret)

lemma render_memory_spec:
  assumes "serde_laws L" and "\<forall>e \<in> set evs. jwf e \<and> no_float e" and "plain_log event_of evs"
  shows "hoare (at_log holds L sid evs reg r) (render_memory_from_store L St event_of sid tail)
    (\<lambda>x w. at_log holds L sid evs reg r w \<and>
      (\<forall>md. x = Inr md \<longrightarrow> valid_log L evs \<and> render_memory (List.map_filter event_of evs) (unat tail) = Some md))"
  unfolding render_memory_from_store_def
proof (rule hoare_pbind [OF read_values_spec [OF assms(1,2)]])
  fix vals
  let ?Q = "\<lambda>x w. at_log holds L sid evs reg r w \<and>
      (\<forall>md. x = Inr md \<longrightarrow> valid_log L evs \<and> render_memory (List.map_filter event_of evs) (unat tail) = Some md)"
  let ?f = "pbind (pof (map_err ChainE (fsck L vals))) (\<lambda>_. case render_memory (List.map_filter event_of vals) (unat tail) of
       None \<Rightarrow> (\<lambda>_. None) | Some md \<Rightarrow> pret md)"
  obtain md where "render_memory (List.map_filter event_of evs) (unat tail) = Some md" by (rule render_memory_total [OF assms(3)])
  then show "hoare (\<lambda>w. at_log holds L sid evs reg r w \<and> (\<forall>vs. Inr vals = Inr vs \<longrightarrow> vs = evs)) ?f ?Q"
    by (cases "fsck L evs") (auto simp: hoare_def pbind_def map_err_def fsck_Inr)
qed auto

lemma compact_enough_spec:
  assumes "serde_laws L" and "\<forall>e \<in> set evs. jwf e \<and> no_float e" and "plain_log event_of evs"
  shows "hoare (at_log holds L sid evs reg r) (compact_enough L St event_of cfg sid n) (\<lambda>x w. at_log holds L sid evs reg r w)"
  unfolding compact_enough_def
  by (auto intro!: hoare_pret hoare_pbind [OF render_memory_spec [OF assms]])

lemma compact_build_spec:
  assumes "serde_laws L" and "\<forall>e \<in> set evs. jwf e \<and> no_float e"
  shows "hoare (at_log holds L sid evs reg r) (compact_build L St roll cfg stamp sid idx from)
    (\<lambda>x w. at_log holds L sid evs reg r w \<and>
      (\<forall>body epoch. x = Inr (body, epoch) \<longrightarrow>
         epoch = unwrap_or (sn_epoch idx) 0 + 1 \<and>
         (\<exists>sm a b. body = summary_event_body stamp sid sm epoch a b (unwrap_or (sn_last_turn_id idx) 0))))"
  unfolding compact_build_def
proof (rule hoare_pbind [OF read_values_spec [OF assms]], goal_cases)
  case (1 vals)
  show ?case
    by (cases "roll (prior_summary_text vals) (compact_range from (saturating_sub (unwrap_or (sn_last_turn_id idx) 0) (cc_verbatim_tail cfg)) vals)")
      (auto simp: hoare_def pbind_def Let_def)
qed auto

lemma compact_plan_spec:
  assumes "serde_laws L" and "\<forall>e \<in> set evs. jwf e \<and> no_float e" and "plain_log event_of evs"
    and snap: "snapshot R (fst clk) sid r = Some (r1, res)"
  shows "hoare (at_log holds L sid evs reg r) (compact_plan L St R event_of roll cfg clk sid)
    (\<lambda>x w. at_log holds L sid evs reg r1 w \<and>
      (\<forall>body epoch. x = Inr (Some (body, epoch)) \<longrightarrow> planned res clk sid body epoch))"
  (is "hoare ?P _ ?Q")
  unfolding compact_plan_def
proof (rule hoare_pmatch)
  show "hoare ?P (on_snd (on_snd (snapshot R (fst clk) sid))) (\<lambda>x w. x = res \<and> at_log holds L sid evs reg r1 w)"
    using snap by (auto simp: hoare_def at_log_def on_snd_def)
  fix x
  show "hoare (\<lambda>w. x = res \<and> at_log holds L sid evs reg r1 w) (case x of
       Inl _ \<Rightarrow> pret None
     | Inr idx \<Rightarrow>
         pbind (prior_cover_from_store L St sid) (\<lambda>prior.
         pbind (compact_enough L St event_of cfg sid (saturating_sub (unwrap_or (sn_last_turn_id idx) 0) (snd prior))) (\<lambda>enough.
         if enough then pret None
         else pbind (compact_build L St roll cfg (snd clk) sid idx (fst prior)) (\<lambda>plan. pret (Some plan))))) ?Q"
  proof (cases x)
    case (Inr idx)
    have rest: "hoare (at_log holds L sid evs reg r1)
      (if enough then pret None else pbind (compact_build L St roll cfg (snd clk) sid idx (fst prior)) (\<lambda>plan. pret (Some plan)))
      (\<lambda>y w. x = res \<longrightarrow> ?Q y w)" for enough prior
      unfolding Inr
      by (auto intro!: hoare_pret hoare_pbind [OF compact_build_spec [OF assms(1,2)]] simp: planned_def)
    have "hoare (at_log holds L sid evs reg r1) (pbind (prior_cover_from_store L St sid) (\<lambda>prior.
         pbind (compact_enough L St event_of cfg sid (saturating_sub (unwrap_or (sn_last_turn_id idx) 0) (snd prior))) (\<lambda>enough.
         if enough then pret None
         else pbind (compact_build L St roll cfg (snd clk) sid idx (fst prior)) (\<lambda>plan. pret (Some plan)))))
      (\<lambda>y w. x = res \<longrightarrow> ?Q y w)"
      by (rule hoare_pbind [OF prior_cover_spec [OF assms(1,2)] hoare_pbind [OF hoare_conseq [OF compact_enough_spec [OF assms(1-3)]] rest]])
        auto
    then show ?thesis unfolding Inr hoare_def by fastforce
  qed (auto intro: hoare_pret)
qed

lemma handle_append_spec:
  assumes "serde_laws L" and "body_ok body" and "Suc (length evs) < 2 ^ 64" and "reg sid = Some wr"
  shows "hoare (at_log holds L sid evs reg r) (handle_append L St R clk sid body)
    (\<lambda>x w. \<exists>es e reply r' wr'. x = Inr reply \<and> at_log holds L sid (evs @ es) (reg(sid \<mapsto> wr')) r' w \<and>
      seal L body (w_tip wr) = Inr e \<and> (es = [] \<or> es = [e]) \<and> ((\<exists>h t. reply = Committed h t) \<longrightarrow> es = [e]) \<and>
      ((\<exists>h. reply = Duplicate h) \<longrightarrow> es = []))"
proof (rule hoareI)
  fix w assume "at_log holds L sid evs reg r w"
  then obtain s where w: "w = (reg, s, r)" "holds s sid (print_log L evs)" by (auto simp: at_log_def)
  from assms(2) obtain m where m: "body = JObj m" "jwf (JObj m)" "no_float (JObj m)" by (auto simp: body_ok_def)
  from step_spec [OF assms(1) m(2) no_float_obj_float_free [OF m(3)] w(2) assms(3), of R clk wr r] obtain s' r' wr' reply where
    st: "writer_step L St R clk sid body wr (s, r) = Some ((s', r'), wr', reply)"
      "step_post L (holds s' sid) evs body wr wr' reply" unfolding m(1) by blast
  from st(2) obtain e where e: "seal L body (w_tip wr) = Inr e"
    and disj: "reply \<in> {Duplicate h | h. holds s' sid (print_log L evs)} \<or>
      reply \<in> {Committed h t | h t. holds s' sid (print_log L (evs @ [e]))} \<or>
      reply \<in> {Retryable x | x. holds s' sid (print_log L evs) \<or> holds s' sid (print_log L (evs @ [e]))}"
    unfolding step_post_def by (cases reply) auto
  then have p: "\<exists>es. holds s' sid (print_log L (evs @ es)) \<and> (es = [] \<or> es = [e]) \<and> ((\<exists>h t. reply = Committed h t) \<longrightarrow> es = [e]) \<and>
      ((\<exists>h. reply = Duplicate h) \<longrightarrow> es = [])"
    by (auto intro: exI [of _ "[]"] exI [of _ "[e]"])
  have "handle_append L St R clk sid body w = Some ((reg(sid \<mapsto> wr'), s', r'), Inr reply)"
    using st(1) assms(4) w(1) by (simp add: handle_append_def registry_append_def)
  with e p show "\<exists>w' x. handle_append L St R clk sid body w = Some (w', x) \<and> (\<exists>es e reply r' wr'. x = Inr reply \<and>
      at_log holds L sid (evs @ es) (reg(sid \<mapsto> wr')) r' w' \<and>
      seal L body (w_tip wr) = Inr e \<and> (es = [] \<or> es = [e]) \<and> ((\<exists>h t. reply = Committed h t) \<longrightarrow> es = [e]) \<and>
      ((\<exists>h. reply = Duplicate h) \<longrightarrow> es = []))"
    by (auto simp: at_log_def)
qed

end

lemma returns_advance_epoch: "returns (advance_epoch R ts sid h epoch)"
  unfolding advance_epoch_def by blast

lemma hoare_at_log_redis:
  assumes "returns m"
  shows "hoare (at_log holds L sid evs reg r) (on_snd (on_snd m)) (\<lambda>x w. \<exists>r'. at_log holds L sid evs reg r' w)"
  using assms by (fastforce simp: hoare_def at_log_def on_snd_def returns_def)

text \<open>The last two steps of a compaction: render the log as it now is and store the result.\<close>

definition memory_post ::
    "('s \<Rightarrow> string \<Rightarrow> string \<Rightarrow> bytes option) \<Rightarrow> libs \<Rightarrow> (json \<Rightarrow> event option) \<Rightarrow> string \<Rightarrow> json list \<Rightarrow> u64 \<Rightarrow> u64 \<Rightarrow>
     memoryd_error + compacted \<Rightarrow> ('s, 'r) service \<Rightarrow> bool" where
  "memory_post artifact L event_of sid evs tail epoch x w \<longleftrightarrow>
     (case x of
        Inr (Done ep n) \<Rightarrow> ep = epoch \<and> valid_log L evs \<and>
          (\<exists>md. render_memory (List.map_filter event_of evs) (unat tail) = Some md \<and>
             artifact (fst (snd w)) sid ARTIFACT_MEMORY = Some md \<and> n = estimate_tokens md)
      | Inr NotNeeded \<Rightarrow> False
      | Inl e \<Rightarrow> True)"

context artifact_store
begin

lemma put_memory_spec:
  "hoare (at_log holds L sid evs reg r) (pmap_err StoreE (on_snd (on_fst (st_put_artifact St sid ARTIFACT_MEMORY mem))))
    (\<lambda>x w. at_log holds L sid evs reg r w \<and> (x = Inr () \<longrightarrow> artifact (fst (snd w)) sid ARTIFACT_MEMORY = Some mem))"
proof (rule hoareI)
  fix w assume "at_log holds L sid evs reg r w"
  then obtain s where w: "w = (reg, s, r)" "holds s sid (print_log L evs)" by (auto simp: at_log_def)
  have "CHR ''/'' \<notin> set ARTIFACT_MEMORY" by code_simp
  from hoareE [OF put_artifact_spec [OF this] w(2)] obtain s1 x where "st_put_artifact St sid ARTIFACT_MEMORY mem s = Some (s1, x)"
    "holds s1 sid (print_log L evs)" "x = Inr () \<longrightarrow> artifact s1 sid ARTIFACT_MEMORY = Some mem" by blast
  with w show "\<exists>w' x. pmap_err StoreE (on_snd (on_fst (st_put_artifact St sid ARTIFACT_MEMORY mem))) w = Some (w', x) \<and>
      at_log holds L sid evs reg r w' \<and> (x = Inr () \<longrightarrow> artifact (fst (snd w')) sid ARTIFACT_MEMORY = Some mem)"
    by (cases x) (auto simp: pmap_err_def pmatch_def on_snd_def on_fst_def at_log_def)
qed

lemma refresh_memory_spec:
  assumes "serde_laws L" and "\<forall>e \<in> set evs. jwf e \<and> no_float e" and "plain_log event_of evs"
  shows "hoare (at_log holds L sid evs reg r)
    (pbind (pmap_err IndexE (on_snd (on_snd (advance_epoch R ts sid hash epoch)))) (\<lambda>_.
     pbind (render_memory_from_store L St event_of sid tail) (\<lambda>mem.
     pbind (pmap_err StoreE (on_snd (on_fst (st_put_artifact St sid ARTIFACT_MEMORY mem)))) (\<lambda>_.
     pret (Done epoch (estimate_tokens mem))))))
    (\<lambda>x w. (\<exists>r'. at_log holds L sid evs reg r' w) \<and> memory_post artifact L event_of sid evs tail epoch x w)"
  (is "hoare _ (pbind _ (\<lambda>_. ?rest)) ?Q")
proof -
  have put: "hoare (\<lambda>w. at_log holds L sid evs reg r' w \<and> valid_log L evs \<and> render_memory (List.map_filter event_of evs) (unat tail) = Some mem)
      (pbind (pmap_err StoreE (on_snd (on_fst (st_put_artifact St sid ARTIFACT_MEMORY mem)))) (\<lambda>_. pret (Done epoch (estimate_tokens mem)))) ?Q" for r' mem
  proof (cases "valid_log L evs \<and> render_memory (List.map_filter event_of evs) (unat tail) = Some mem")
    case True
    have "hoare (at_log holds L sid evs reg r')
        (pbind (pmap_err StoreE (on_snd (on_fst (st_put_artifact St sid ARTIFACT_MEMORY mem)))) (\<lambda>_. pret (Done epoch (estimate_tokens mem)))) ?Q"
      by (rule hoare_pbind [OF put_memory_spec]) (use True in \<open>auto intro!: hoare_pret simp: memory_post_def\<close>)
    with True show ?thesis by simp
  qed (auto simp: hoare_def)
  have "hoare (at_log holds L sid evs reg r') ?rest ?Q" for r'
    by (rule hoare_pbind [OF render_memory_spec [OF assms] hoare_conseq [OF put]]) (auto simp: memory_post_def)
  then have "hoare (\<lambda>w. \<exists>r'. at_log holds L sid evs reg r' w) ?rest ?Q" unfolding hoare_def by blast
  moreover have "hoare (at_log holds L sid evs reg r) (pmap_err IndexE (on_snd (on_snd (advance_epoch R ts sid hash epoch))))
      (\<lambda>x w. \<exists>r'. at_log holds L sid evs reg r' w)"
    by (rule hoare_pmap_err [OF hoare_at_log_redis [OF returns_advance_epoch]])
  ultimately show ?thesis by (rule_tac hoare_pbind) (auto simp: memory_post_def)
qed

text \<open>The outcome of the commit: nothing or the sealed summary was added, and \<open>Done\<close> speaks of the new log.\<close>

lemma compact_commit_spec:
  assumes "serde_laws L" and "\<forall>e \<in> set evs. jwf e \<and> no_float e" and "plain_log event_of evs"
    and "body_ok body" and "Suc (length evs) < 2 ^ 64" and "reg sid = Some wr"
    and "\<forall>e. seal L body (w_tip wr) = Inr e \<longrightarrow> plain_log event_of [e]"
  shows "hoare (at_log holds L sid evs reg r) (compact_commit L St R event_of cfg clk sid body epoch)
    (\<lambda>x w. \<exists>es e r' wr'. seal L body (w_tip wr) = Inr e \<and> (es = [] \<or> es = [e]) \<and>
      at_log holds L sid (evs @ es) (reg(sid \<mapsto> wr')) r' w \<and>
      memory_post artifact L event_of sid (evs @ es) (cc_verbatim_tail cfg) epoch x w)"
  (is "hoare _ _ ?Q")
  unfolding compact_commit_def
proof (rule hoare_pbind [OF handle_append_spec [where reg = reg and sid = sid, OF assms(1,4-6)]], goal_cases)
  case (1 reply)
  let ?rest = "\<lambda>hash. pbind (pmap_err IndexE (on_snd (on_snd (advance_epoch R (fst clk) sid hash epoch)))) (\<lambda>_.
     pbind (render_memory_from_store L St event_of sid (cc_verbatim_tail cfg)) (\<lambda>mem.
     pbind (pmap_err StoreE (on_snd (on_fst (st_put_artifact St sid ARTIFACT_MEMORY mem)))) (\<lambda>_.
     pret (Done epoch (estimate_tokens mem)))))"
  let ?f = "pbind (case reply of Committed hash _ \<Rightarrow> pret hash | Duplicate hash \<Rightarrow> pret hash
            | Rejected e \<Rightarrow> perr (Invalid (AppendRejected e)) | Retryable e \<Rightarrow> perr (Invalid (AppendRetryable e))) ?rest"
  have one: "hoare (at_log holds L sid (evs @ es) (reg(sid \<mapsto> wr')) r') ?f ?Q"
    if e: "seal L body (w_tip wr) = Inr e" "es = [] \<or> es = [e]" for es e r' wr'
  proof -
    from assms(4) obtain m where m: "body = JObj m" "jwf (JObj m)" "no_float (JObj m)" by (auto simp: body_ok_def)
    then have "\<forall>e \<in> set (evs @ es). jwf e \<and> no_float e" using seal_wf e assms(2) by fastforce
    moreover have "plain_log event_of (evs @ es)" using assms(3,7) e by auto
    ultimately have
      go: "hoare (at_log holds L sid (evs @ es) (reg(sid \<mapsto> wr')) r') (?rest hash) ?Q" for hash
      by (rule hoare_conseq [OF refresh_memory_spec [OF assms(1)]]) (use e in auto)
    have stop: "hoare (at_log holds L sid (evs @ es) (reg(sid \<mapsto> wr')) r') (perr x) ?Q" for x
      by (rule hoare_perr) (use e in \<open>auto simp: memory_post_def\<close>)
    show ?thesis using go stop by (cases reply) (simp_all add: pbind_def hoare_def)
  qed
  show ?case (is "hoare ?P _ _")
  proof (rule hoareI)
    fix w assume "?P w"
    then obtain es e r' wr' where "at_log holds L sid (evs @ es) (reg(sid \<mapsto> wr')) r' w" "seal L body (w_tip wr) = Inr e" "es = [] \<or> es = [e]" by blast
    with one show "\<exists>w' x. ?f w = Some (w', x) \<and> ?Q x w'" unfolding hoare_def by blast
  qed
qed auto

end

lemma summary_body_ok: "body_ok (summary_event_body ts sid sm epoch a b turn)"
  by (simp add: body_ok_def summary_event_body_def jobject_def bt_ok_def)

lemma summary_body_turn: "u64_field (summary_event_body ts sid sm epoch a b turn) ''turn_id'' = Some turn"
  by (simp add: summary_event_body_def jobject_def)

context artifact_store
begin

text \<open>
  A compaction always returns. It leaves the log as it is, or adds the sealed summary, whose
  turn is the last one the index knows.
\<close>

lemma maybe_compact_spec:
  assumes "serde_laws L" and "\<forall>e \<in> set evs. jwf e \<and> no_float e" and "plain_log event_of evs"
    and "Suc (length evs) < 2 ^ 64" and "reg sid = Some wr" and "snapshot R (fst clk) sid r = Some (r1, res)"
    and "\<forall>body epoch e. planned res clk sid body epoch \<longrightarrow> seal L body (w_tip wr) = Inr e \<longrightarrow> plain_log event_of [e]"
  shows "hoare (at_log holds L sid evs reg r) (maybe_compact L St R event_of roll cfg clk sid)
    (\<lambda>x w. \<exists>es r' wr'. at_log holds L sid (evs @ es) (reg(sid \<mapsto> wr')) r' w \<and>
      (es = [] \<or> (\<exists>body epoch e. planned res clk sid body epoch \<and> es = [e] \<and> seal L body (w_tip wr) = Inr e)) \<and>
      (x = Inr NotNeeded \<longrightarrow> es = [] \<and> wr' = wr) \<and>
      (\<forall>ep n. x = Inr (Done ep n) \<longrightarrow> (\<exists>body. planned res clk sid body ep) \<and>
         memory_post artifact L event_of sid (evs @ es) (cc_verbatim_tail cfg) ep x w))"
  (is "hoare _ _ ?Q")
  unfolding maybe_compact_def
proof (rule hoare_pbind [OF compact_plan_spec [OF assms(1-3,6)]], goal_cases)
  case (1 plan)
  have reg: "reg(sid \<mapsto> wr) = reg" using assms(5) by auto
  show ?case
  proof (cases plan)
    case None
    have "?Q (Inr NotNeeded) w" if "at_log holds L sid evs reg r1 w" for w
      using that reg by (intro exI [of _ "[]"] exI [of _ r1] exI [of _ wr]) simp
    with None show ?thesis by (auto intro!: hoare_pret)
  next
    case (Some p)
    obtain body epoch where p: "p = (body, epoch)" by (cases p)
    show ?thesis
    proof (cases "planned res clk sid body epoch")
      case True
      then have "body_ok body" using summary_body_ok by (auto simp: planned_def)
      moreover have "\<forall>e. seal L body (w_tip wr) = Inr e \<longrightarrow> plain_log event_of [e]" using assms(7) True by blast
      ultimately have "hoare (at_log holds L sid evs reg r1) (compact_commit L St R event_of cfg clk sid body epoch)
        (\<lambda>x w. \<exists>es e r' wr'. seal L body (w_tip wr) = Inr e \<and> (es = [] \<or> es = [e]) \<and>
          at_log holds L sid (evs @ es) (reg(sid \<mapsto> wr')) r' w \<and>
          memory_post artifact L event_of sid (evs @ es) (cc_verbatim_tail cfg) epoch x w)"
        using assms(1-5) by (intro compact_commit_spec) auto
      then
      have "hoare (at_log holds L sid evs reg r1) (compact_commit L St R event_of cfg clk sid body epoch) ?Q"
      proof (rule hoare_conseq, goal_cases)
        case (2 x w)
        then obtain es e r' wr' where q: "seal L body (w_tip wr) = Inr e" "es = [] \<or> es = [e]"
          "at_log holds L sid (evs @ es) (reg(sid \<mapsto> wr')) r' w"
          "memory_post artifact L event_of sid (evs @ es) (cc_verbatim_tail cfg) epoch x w" by blast
        then have "x \<noteq> Inr NotNeeded" "ep = epoch" if "x = Inr (Done ep n)" for ep n
          using that by (auto simp: memory_post_def)
        moreover have "x \<noteq> Inr NotNeeded" using q(4) by (auto simp: memory_post_def)
        ultimately show ?case
          using q True by (intro exI [of _ es] exI [of _ r'] exI [of _ wr']) auto
      qed
      with Some p show ?thesis unfolding hoare_def by auto
    next
      case False
      with Some p show ?thesis by (simp add: hoare_def)
    qed
  qed
qed (use assms(5) in \<open>auto intro!: exI [of _ "[]"] exI [of _ wr] simp: fun_upd_idem\<close>)

end

subsection \<open>Properties\<close>

lemma planned_plain:
  assumes "planned (Inr idx) clk sid body epoch" and "seal L body prev = Inr e"
    and "decodes_text event_of" and "ascii sid" and "ascii (snd clk)"
  shows "plain_log event_of [e]"
proof -
  from assms(1) obtain sm a b t where b: "body = summary_event_body (snd clk) sid sm epoch a b t" by (auto simp: planned_def)
  with summary_body_ok [of "snd clk" sid sm epoch a b t] obtain m where m: "body = JObj m" "bt_ok m" by (auto simp: body_ok_def)
  have "map_of m ''ts'' = Some (JStr (snd clk))" "map_of m ''session_id'' = Some (JStr sid)"
    using b m(1) by (auto simp: summary_event_body_def jobject_def)
  with seal_fields(3) [OF assms(2) [unfolded m(1)] m(2)] have
    f: "jget e ''ts'' = Some (JStr (snd clk))" "jget e ''session_id'' = Some (JStr sid)" by auto
  then have "ascii_log [e]" using assms(4,5) by (auto simp: ascii_log_def)
  moreover have "\<forall>v \<in> set [e]. \<exists>m. v = JObj m" using f(1) by (cases e) auto
  ultimately show ?thesis by (rule ascii_log_plain [OF assms(3)])
qed

lemma s3_compact:
  assumes "s3_laws S objs after" and "serde_laws L" and "has_log (objs s) sid (print_log L evs)"
    and "\<forall>e \<in> set evs. jwf e \<and> no_float e" and "valid_log L evs" and "Suc (length evs) < 2 ^ 64"
    and "reg sid = Some wr" and "snapshot R (fst clk) sid r = Some (r1, Inr idx)" and "sn_last_turn_id idx = Some t"
    and "decodes_text event_of" and "ascii_log evs" and "ascii sid" and "ascii (snd clk)"
  obtains reg' s' r' x es where
    "maybe_compact L (s3_store L S) R event_of roll cfg clk sid (reg, s, r) = Some ((reg', s', r'), x)"
    "has_log (objs s') sid (print_log L (evs @ es))"
    "es = [] \<or> (\<exists>m e. es = [e] \<and> bt_ok m \<and> u64_field (JObj m) ''turn_id'' = Some t \<and> seal L (JObj m) (w_tip wr) = Inr e)"
    "case x of
       Inr NotNeeded \<Rightarrow> es = [] \<and> reg' = reg
     | Inr (Done ep n) \<Rightarrow> ep = unwrap_or (sn_epoch idx) 0 + 1 \<and> valid_log L (evs @ es) \<and>
         (\<exists>md. render_memory (List.map_filter event_of (evs @ es)) (unat (cc_verbatim_tail cfg)) = Some md \<and>
            map_of (objs s') (art_key sid ARTIFACT_MEMORY) = Some md \<and> n = estimate_tokens md)
     | Inl e \<Rightarrow> True"
proof -
  have plain: "plain_log event_of evs" using ascii_log_plain assms(10,11) valid_log_objects [OF assms(5)] by blast
  have sealed: "\<forall>body epoch e. planned (Inr idx) clk sid body epoch \<longrightarrow> seal L body (w_tip wr) = Inr e \<longrightarrow> plain_log event_of [e]"
    using planned_plain [OF _ _ assms(10,12,13)] by blast
  have "at_log (s3_holds S objs after) L sid evs reg r (reg, s, r)" using assms(1,3) by (simp add: at_log_def s3_holds_def)
  then obtain w x es r' wr' where
    w: "maybe_compact L (s3_store L S) R event_of roll cfg clk sid (reg, s, r) = Some (w, x)"
      "at_log (s3_holds S objs after) L sid (evs @ es) (reg(sid \<mapsto> wr')) r' w"
    and es: "es = [] \<or> (\<exists>body epoch e. planned (Inr idx) clk sid body epoch \<and> es = [e] \<and> seal L body (w_tip wr) = Inr e)"
    and x: "x = Inr NotNeeded \<longrightarrow> es = [] \<and> wr' = wr"
      "\<forall>ep n. x = Inr (Done ep n) \<longrightarrow> (\<exists>body. planned (Inr idx) clk sid body ep) \<and>
         memory_post (s3_artifact objs) L event_of sid (evs @ es) (cc_verbatim_tail cfg) ep x w"
    by (rule hoareE [OF s3a.maybe_compact_spec [where reg = reg and sid = sid, OF assms(2,4) plain assms(6-8) sealed]]) (elim exE conjE, rule that)
  have m: "\<exists>m. body = JObj m \<and> bt_ok m \<and> u64_field (JObj m) ''turn_id'' = Some t \<and> epoch = unwrap_or (sn_epoch idx) 0 + 1"
    if pl: "planned (Inr idx) clk sid body epoch" for body epoch
  proof -
    from pl assms(9) obtain sm a b where b: "body = summary_event_body (snd clk) sid sm epoch a b t"
      "epoch = unwrap_or (sn_epoch idx) 0 + 1" by (auto simp: planned_def)
    with summary_body_ok [of "snd clk" sid sm epoch a b t] obtain m where "body = JObj m" "bt_ok m" by (auto simp: body_ok_def)
    with b summary_body_turn [of "snd clk" sid sm epoch a b t] show ?thesis by metis
  qed
  from w(2) obtain s' where s': "w = (reg(sid \<mapsto> wr'), s', r')" "has_log (objs s') sid (print_log L (evs @ es))"
    by (auto simp: at_log_def s3_holds_def)
  show thesis
  proof (rule that [OF w(1) [unfolded s'(1)] s'(2)])
    show "es = [] \<or> (\<exists>m e. es = [e] \<and> bt_ok m \<and> u64_field (JObj m) ''turn_id'' = Some t \<and> seal L (JObj m) (w_tip wr) = Inr e)"
      using es m by metis
    show "case x of Inr NotNeeded \<Rightarrow> es = [] \<and> reg(sid \<mapsto> wr') = reg
     | Inr (Done ep n) \<Rightarrow> ep = unwrap_or (sn_epoch idx) 0 + 1 \<and> valid_log L (evs @ es) \<and>
         (\<exists>md. render_memory (List.map_filter event_of (evs @ es)) (unat (cc_verbatim_tail cfg)) = Some md \<and>
            map_of (objs s') (art_key sid ARTIFACT_MEMORY) = Some md \<and> n = estimate_tokens md)
     | Inl e \<Rightarrow> True"
      using x s'(1) assms(7) by (auto dest!: planned_epoch simp: memory_post_def s3_artifact_def fun_upd_idem split: sum.splits compacted.splits)
  qed
qed

text \<open>
  C19. Compaction keeps the log valid. With a live writer whose tip is the tip of a valid log, an
  index that is not behind the log, and ASCII timestamps and session ids in the log (a timestamp
  cut inside a character makes the renderer panic, see \<open>Render.hhmm_panics\<close>),
  \<open>maybe_compact\<close> returns; the log keeps all its events, at most one summary is added, and the new log is valid
  whatever the object store and Redis answered. \<open>NotNeeded\<close> changes nothing; \<open>Done\<close> carries the
  next epoch, and the stored \<open>memory.md\<close> is then the rendering of the log as it is now.
\<close>

theorem compaction_keeps_log_valid:
  assumes "s3_laws S objs after" and "serde_laws L" and "has_log (objs s) sid (print_log L evs)"
    and "\<forall>e \<in> set evs. jwf e \<and> no_float e" and "valid_log L evs" and "Suc (length evs) < 2 ^ 64"
    and "reg sid = Some wr" and "snapshot R (fst clk) sid r = Some (r1, Inr idx)" and "sn_last_turn_id idx = Some t"
    and "decodes_text event_of" and "ascii_log evs" and "ascii sid" and "ascii (snd clk)"
    and "w_tip wr = log_tip evs" and "log_turn evs \<le> t"
  shows "\<exists>reg' s' r' x es.
    maybe_compact L (s3_store L S) R event_of roll cfg clk sid (reg, s, r) = Some ((reg', s', r'), x) \<and>
    has_log (objs s') sid (print_log L (evs @ es)) \<and> length es \<le> 1 \<and> valid_log L (evs @ es) \<and>
    (case x of
       Inr NotNeeded \<Rightarrow> es = [] \<and> reg' = reg
     | Inr (Done ep n) \<Rightarrow> ep = unwrap_or (sn_epoch idx) 0 + 1 \<and>
         (\<exists>md. render_memory (List.map_filter event_of (evs @ es)) (unat (cc_verbatim_tail cfg)) = Some md \<and>
            map_of (objs s') (art_key sid ARTIFACT_MEMORY) = Some md \<and> n = estimate_tokens md)
     | Inl e \<Rightarrow> True)"
proof -
  obtain reg' s' r' x es where c: "maybe_compact L (s3_store L S) R event_of roll cfg clk sid (reg, s, r) = Some ((reg', s', r'), x)"
    "has_log (objs s') sid (print_log L (evs @ es))"
    and es: "es = [] \<or> (\<exists>m e. es = [e] \<and> bt_ok m \<and> u64_field (JObj m) ''turn_id'' = Some t \<and> seal L (JObj m) (w_tip wr) = Inr e)"
    and x: "case x of
       Inr NotNeeded \<Rightarrow> es = [] \<and> reg' = reg
     | Inr (Done ep n) \<Rightarrow> ep = unwrap_or (sn_epoch idx) 0 + 1 \<and> valid_log L (evs @ es) \<and>
         (\<exists>md. render_memory (List.map_filter event_of (evs @ es)) (unat (cc_verbatim_tail cfg)) = Some md \<and>
            map_of (objs s') (art_key sid ARTIFACT_MEMORY) = Some md \<and> n = estimate_tokens md)
     | Inl e \<Rightarrow> True"
    by (rule s3_compact [where reg = reg and sid = sid, OF assms(1-13), of roll cfg])
  have "valid_log L (evs @ es)" using es assms(5,14,15) valid_log_seal by fastforce
  moreover have "length es \<le> 1" using es by auto
  ultimately show ?thesis using c x
    by (intro exI [of _ reg'] exI [of _ s'] exI [of _ r'] exI [of _ x] exI [of _ es]) (auto split: sum.splits compacted.splits)
qed

text \<open>
  Compaction trusts a stale index. When the index is behind the log (an index update
  failed after a line was written), the summary is stamped with the index's last turn: if it is
  committed, the log fails verification with a turn regression at that event, and no compaction
  that added it reports \<open>Done\<close>.
\<close>

theorem compaction_stale_index_breaks_log:
  assumes "s3_laws S objs after" and "serde_laws L" and "has_log (objs s) sid (print_log L evs)"
    and "\<forall>e \<in> set evs. jwf e \<and> no_float e" and "valid_log L evs" and "Suc (length evs) < 2 ^ 64"
    and "reg sid = Some wr" and "snapshot R (fst clk) sid r = Some (r1, Inr idx)" and "sn_last_turn_id idx = Some t"
    and "decodes_text event_of" and "ascii_log evs" and "ascii sid" and "ascii (snd clk)"
    and "w_tip wr = log_tip evs" and "t < log_turn evs"
  shows "\<exists>reg' s' r' x es.
    maybe_compact L (s3_store L S) R event_of roll cfg clk sid (reg, s, r) = Some ((reg', s', r'), x) \<and>
    has_log (objs s') sid (print_log L (evs @ es)) \<and>
    (es = [] \<or> fsck L (evs @ es) = Inl (TurnRegression (of_nat (length evs))) \<and> (\<exists>e. x = Inl e))"
proof -
  obtain reg' s' r' x es where c: "maybe_compact L (s3_store L S) R event_of roll cfg clk sid (reg, s, r) = Some ((reg', s', r'), x)"
    "has_log (objs s') sid (print_log L (evs @ es))"
    and es: "es = [] \<or> (\<exists>m e. es = [e] \<and> bt_ok m \<and> u64_field (JObj m) ''turn_id'' = Some t \<and> seal L (JObj m) (w_tip wr) = Inr e)"
    and x: "case x of
       Inr NotNeeded \<Rightarrow> es = [] \<and> reg' = reg
     | Inr (Done ep n) \<Rightarrow> ep = unwrap_or (sn_epoch idx) 0 + 1 \<and> valid_log L (evs @ es) \<and>
         (\<exists>md. render_memory (List.map_filter event_of (evs @ es)) (unat (cc_verbatim_tail cfg)) = Some md \<and>
            map_of (objs s') (art_key sid ARTIFACT_MEMORY) = Some md \<and> n = estimate_tokens md)
     | Inl e \<Rightarrow> True"
    by (rule s3_compact [where reg = reg and sid = sid, OF assms(1-13), of roll cfg])
  have "fsck L (evs @ es) = Inl (TurnRegression (of_nat (length evs))) \<and> (\<exists>e. x = Inl e)" if ne: "es \<noteq> []"
  proof -
    have f: "fsck L (evs @ es) = Inl (TurnRegression (of_nat (length evs)))"
      using es ne assms(5,14,15) fsck_turn_back by fastforce
    then have "\<not> valid_log L (evs @ es)" using fsck_Inr [of L "evs @ es" "of_nat (length (evs @ es))" "log_tip (evs @ es)"] by simp
    with f x ne show ?thesis by (auto split: sum.splits compacted.splits)
  qed
  with c show ?thesis by blast
qed

text \<open>
  A later compaction rolls the covered turns in again. When the log holds a summary that
  covers the turns \<open>a\<close> to \<open>b\<close> and no later one, the range of the next compaction starts after
  the turn where the last summary began, not after the one where it ended: every event of a turn
  above \<open>a\<close> up to \<open>b\<close> is handed to the summarizer a second time, next to the old summary.
\<close>

theorem recompaction_repeats_covered_turns:
  assumes "vals = xs @ s # ys" and "is_summary_value s" and "\<forall>y \<in> set ys. \<not> is_summary_value y"
    and "jidx (jidx s ''meta'') ''covers'' = jobject [(''from_turn'', ju64 a), (''to_turn'', ju64 b)]" and "b \<le> n"
  shows "prior_cover vals = (a, b) \<and> prior_summary_text vals = as_str (jidx s ''text'') \<and>
    filter (\<lambda>v. let t = unwrap_or (as_u64 (jidx v ''turn_id'')) 0 in a < t \<and> t \<le> b) vals =
    filter (\<lambda>v. unwrap_or (as_u64 (jidx v ''turn_id'')) 0 \<le> b) (compact_range (fst (prior_cover vals)) n vals)"
proof -
  have skip: "prior_cover_rev (zs @ s # ws) = prior_cover_rev (s # ws)" if "\<forall>z \<in> set zs. \<not> is_summary_value z" for zs ws
    using that by (induction zs) auto
  have "as_object (jidx (jidx s ''meta'') ''covers'') = Some [(''from_turn'', ju64 a), (''to_turn'', ju64 b)]"
    unfolding assms(4) by (simp add: jobject_def)
  then have cover: "prior_cover vals = (a, b)"
    using assms(1-3) skip [of "rev ys" "rev xs"] by (simp add: prior_cover_def)
  have "find is_summary_value (zs @ s # ws) = Some s" if "\<forall>z \<in> set zs. \<not> is_summary_value z" for zs ws
    using that assms(2) by (induction zs) auto
  then have "prior_summary_text vals = as_str (jidx s ''text'')"
    using assms(1,3) by (simp add: prior_summary_text_def)
  moreover have "filter (\<lambda>v. let t = unwrap_or (as_u64 (jidx v ''turn_id'')) 0 in a < t \<and> t \<le> b) vals =
    filter (\<lambda>v. unwrap_or (as_u64 (jidx v ''turn_id'')) 0 \<le> b) (compact_range a n vals)"
    unfolding compact_range_def filter_filter
    by (rule filter_cong [OF refl]) (use assms(5) in \<open>auto simp: Let_def\<close>)
  ultimately show ?thesis using cover by simp
qed

subsection \<open>Witnesses\<close>

definition event_of0 :: "json \<Rightarrow> event option" where
  "event_of0 v =
     (case (as_str (jidx v ''ts''), as_str (jidx v ''session_id'')) of
        (Some ts, Some sid) \<Rightarrow>
          Some ((event0 (unwrap_or (as_u64 (jidx v ''turn_id'')) 0)
            (if is_summary_value v then Summary else Utterance) (unwrap_or (as_str (jidx v ''text'')) []))
              \<lparr>ev_ts := ts, ev_session_id := sid\<rparr>)
      | _ \<Rightarrow> None)"

lemma event_of0_text: "decodes_text event_of0"
  unfolding decodes_text_def
proof (intro allI impI)
  fix m e assume "event_of0 (JObj m) = Some e"
  then show "map_of m ''ts'' = Some (JStr (ev_ts e)) \<and> map_of m ''session_id'' = Some (JStr (ev_session_id e))"
    by (auto simp: event_of0_def jidx_def unwrap_or_def split: option.splits elim!: as_str.elims)
qed

lemma sealed0_ascii: "ascii_log [sealed0]"
proof -
  have "jget sealed0 ''ts'' = None" "jget sealed0 ''session_id'' = None" by code_simp+
  then show ?thesis by (simp add: ascii_log_def)
qed

definition redis_at :: "u64 \<Rightarrow> mem" where
  "redis_at turn = fst (the (advance rds 1 ''t'' ''s1'' tip0 turn 1 []))"

definition snap_at :: "u64 \<Rightarrow> session_snapshot" where
  "snap_at turn = projr (snd (the (snapshot rds 1 ''s1'' (redis_at turn))))"

definition snap_state :: "u64 \<Rightarrow> mem" where
  "snap_state turn = fst (the (snapshot rds 1 ''s1'' (redis_at turn)))"

lemma snap_at_facts:
  "snapshot rds (fst (1, ''t'')) ''s1'' (redis_at 1) = Some (snap_state 1, Inr (snap_at 1))" "sn_last_turn_id (snap_at 1) = Some 1"
  "snapshot rds (fst (1, ''t'')) ''s1'' (redis_at 0) = Some (snap_state 0, Inr (snap_at 0))" "sn_last_turn_id (snap_at 0) = Some 0"
  by code_simp+

definition writer0 :: writer where
  "writer0 = fresh_writer (tip0, 1)"

definition cfg0 :: compact_config where
  "cfg0 = \<lparr>cc_verbatim_tail = 0, cc_token_budget = 0\<rparr>"

lemma compact0: "s3_laws mem_s3 bucket_objs (\<lambda>t. t)" "\<forall>e \<in> set [sealed0]. jwf e \<and> no_float e"
  "w_tip writer0 = log_tip [sealed0]" "log_turn [sealed0] = 1"
proof -
  show "log_turn [sealed0] = 1" by code_simp
qed (simp_all add: mem_s3_laws sealed0_facts writer0_def fresh_writer_def)

lemma compaction_keeps_log_valid_witness:
  "\<exists>reg' s' r' x es.
    maybe_compact ref_libs srv rds event_of0 mock_roll cfg0 (1, ''t'') ''s1'' ([''s1'' \<mapsto> writer0], bucket1, redis_at 1) = Some ((reg', s', r'), x) \<and>
    has_log (bucket_objs s') ''s1'' (print_log ref_libs ([sealed0] @ es)) \<and> length es \<le> 1 \<and> valid_log ref_libs ([sealed0] @ es) \<and>
    (case x of
       Inr NotNeeded \<Rightarrow> es = [] \<and> reg' = [''s1'' \<mapsto> writer0]
     | Inr (Done ep n) \<Rightarrow> ep = unwrap_or (sn_epoch (snap_at 1)) 0 + 1 \<and>
         (\<exists>md. render_memory (List.map_filter event_of0 ([sealed0] @ es)) (unat (cc_verbatim_tail cfg0)) = Some md \<and>
            map_of (bucket_objs s') (art_key ''s1'' ARTIFACT_MEMORY) = Some md \<and> n = estimate_tokens md)
     | Inl e \<Rightarrow> True)"
  by (rule compaction_keeps_log_valid [OF compact0(1) ref_serde bucket1_log compact0(2) sealed0_facts(3) _ _ snap_at_facts(1,2)
    event_of0_text sealed0_ascii _ _ compact0(3)]) (simp_all add: compact0(4) ascii_def)

lemma compaction_stale_index_breaks_log_witness:
  "\<exists>reg' s' r' x es.
    maybe_compact ref_libs srv rds event_of0 mock_roll cfg0 (1, ''t'') ''s1'' ([''s1'' \<mapsto> writer0], bucket1, redis_at 0) = Some ((reg', s', r'), x) \<and>
    has_log (bucket_objs s') ''s1'' (print_log ref_libs ([sealed0] @ es)) \<and>
    (es = [] \<or> fsck ref_libs ([sealed0] @ es) = Inl (TurnRegression (of_nat (length [sealed0]))) \<and> (\<exists>e. x = Inl e))"
  by (rule compaction_stale_index_breaks_log [OF compact0(1) ref_serde bucket1_log compact0(2) sealed0_facts(3) _ _ snap_at_facts(3,4)
    event_of0_text sealed0_ascii _ _ compact0(3)]) (simp_all add: compact0(4) ascii_def)

definition summary0 :: json where
  "summary0 = summary_event_body ''t'' ''s1'' ''- b'' 1 1 2 2"

definition turn0 :: "u64 \<Rightarrow> string \<Rightarrow> json" where
  "turn0 t x = jobject [(''turn_id'', ju64 t), (''text'', JStr x)]"

lemma recompaction_repeats_covered_turns_witness:
  "prior_cover [turn0 2 ''b'', summary0, turn0 3 ''c''] = (1, 2) \<and>
   prior_summary_text [turn0 2 ''b'', summary0, turn0 3 ''c''] = as_str (jidx summary0 ''text'') \<and>
   filter (\<lambda>v. let t = unwrap_or (as_u64 (jidx v ''turn_id'')) 0 in 1 < t \<and> t \<le> 2) [turn0 2 ''b'', summary0, turn0 3 ''c''] =
   filter (\<lambda>v. unwrap_or (as_u64 (jidx v ''turn_id'')) 0 \<le> 2) (compact_range (fst (prior_cover [turn0 2 ''b'', summary0, turn0 3 ''c''])) 3 [turn0 2 ''b'', summary0, turn0 3 ''c''])"
proof (rule recompaction_repeats_covered_turns [of _ "[turn0 2 ''b'']" summary0 "[turn0 3 ''c'']"])
  show "is_summary_value summary0" "\<forall>y \<in> set [turn0 3 ''c'']. \<not> is_summary_value y"
    "jidx (jidx summary0 ''meta'') ''covers'' = jobject [(''from_turn'', ju64 1), (''to_turn'', ju64 2)]" by code_simp+
qed simp_all

text \<open>The summary of the second compaction says everything twice.\<close>

lemma recompaction_text:
  "mock_roll (prior_summary_text [turn0 2 ''b'', summary0, turn0 3 ''c''])
     (compact_range (fst (prior_cover [turn0 2 ''b'', summary0, turn0 3 ''c''])) 3 [turn0 2 ''b'', summary0, turn0 3 ''c'']) =
   Inr (''- b'' @ nl @ ''- b'' @ nl @ ''- - b'' @ nl @ ''- c'')"
  by code_simp

end
