(* ===== verification/Maintenance.thy ===== *)
theory Maintenance
  imports WriterSpec Render
begin

text \<open>
  \<open>crates/memoryd/src/rebuild.rs\<close> and \<open>sweep.rs\<close>: the index rebuilt from the logs, the hard
  delete of a session over both services, and the retention sweep. Serde's decoding of an event
  (\<open>event_of\<close>) and chrono's RFC 3339 parser (\<open>parse_time\<close>, an instant in nanoseconds) are
  parameters. \<open>None\<close> is a call that does not return, a panic in the renderer included.
\<close>

subsection \<open>Rebuild\<close>

definition rebuild_session ::
    "libs \<Rightarrow> 's store_ops \<Rightarrow> 'r redis \<Rightarrow> (json \<Rightarrow> event option) \<Rightarrow> clock \<Rightarrow> string \<Rightarrow> ('s \<times> 'r, unit, unit) proc" where
  "rebuild_session L St R event_of clk sid =
     pmatch (on_fst (st_read_log St sid)) (\<lambda>res.
     case res of
       Inl _ \<Rightarrow> pret ()
     | Inr bytes \<Rightarrow>
         (let vals = log_values L bytes in
          if vals = [] then pret ()
          else
            (case fsck L vals of
               Inl _ \<Rightarrow> pret ()
             | Inr (cnt, tip) \<Rightarrow>
                 pmatch (on_fst (st_max_seq St sid)) (\<lambda>m.
                 let seq = (case m of Inr x \<Rightarrow> unwrap_or x 0 | Inl _ \<Rightarrow> 0) in
                 pmatch (on_snd (heal R (fst clk) (snd clk) sid tip (max_turn vals) cnt seq (owner_from_log vals))) (\<lambda>h.
                 case h of
                   Inl _ \<Rightarrow> pret ()
                 | Inr _ \<Rightarrow>
                     (case render_transcript (List.map_filter event_of vals) of
                        None \<Rightarrow> (\<lambda>_. None)
                      | Some md \<Rightarrow> pmatch (on_fst (st_put_artifact St sid ARTIFACT_TRANSCRIPT md)) (\<lambda>_. pret ())))))))"

fun rebuild_sessions ::
    "libs \<Rightarrow> 's store_ops \<Rightarrow> 'r redis \<Rightarrow> (json \<Rightarrow> event option) \<Rightarrow> clock \<Rightarrow> string list \<Rightarrow> ('s \<times> 'r, unit, unit) proc" where
  "rebuild_sessions L St R event_of clk [] = pret ()"
| "rebuild_sessions L St R event_of clk (sid # sids) =
     pbind (rebuild_session L St R event_of clk sid) (\<lambda>_. rebuild_sessions L St R event_of clk sids)"

definition rebuild_index ::
    "libs \<Rightarrow> 's store_ops \<Rightarrow> 'r redis \<Rightarrow> (json \<Rightarrow> event option) \<Rightarrow> clock \<Rightarrow> ('s \<times> 'r, unit, unit) proc" where
  "rebuild_index L St R event_of clk =
     pmatch (on_fst (st_list_sessions St)) (\<lambda>res.
     case res of Inl _ \<Rightarrow> pret () | Inr sids \<Rightarrow> rebuild_sessions L St R event_of clk sids)"

subsection \<open>Delete and sweep\<close>

definition hard_delete ::
    "'s store_ops \<Rightarrow> 'r redis \<Rightarrow> int \<Rightarrow> string \<Rightarrow> string option \<Rightarrow> ('s \<times> 'r, memoryd_error, u64) proc" where
  "hard_delete St R ts sid owner =
     pbind (pmap_err StoreE (on_fst (st_delete_prefix St sid))) (\<lambda>deleted.
     pbind (pmap_err IndexE (on_snd (delete_index R ts sid owner))) (\<lambda>_.
     pret deleted))"

definition idle_since :: "(string \<Rightarrow> int option) \<Rightarrow> int \<Rightarrow> session_snapshot \<Rightarrow> int" where
  "idle_since parse_time now sn = unwrap_or (Option.bind (sn_updated_at sn) parse_time) now"

definition sweep_stale :: "(string \<Rightarrow> int option) \<Rightarrow> int \<Rightarrow> int \<Rightarrow> index_err + session_snapshot \<Rightarrow> bool" where
  "sweep_stale parse_time now cutoff res =
     (case res of Inr sn \<Rightarrow> idle_since parse_time now sn < cutoff | Inl _ \<Rightarrow> False)"

fun sweep_loop ::
    "'s store_ops \<Rightarrow> 'r redis \<Rightarrow> (string \<Rightarrow> int option) \<Rightarrow> int \<Rightarrow> int \<Rightarrow> int \<Rightarrow> string list \<Rightarrow> string list \<Rightarrow>
     ('s \<times> 'r, memoryd_error, string list) proc" where
  "sweep_loop St R parse_time ts now cutoff [] deleted = pret deleted"
| "sweep_loop St R parse_time ts now cutoff (sid # sids) deleted =
     pmatch (on_snd (snapshot R ts sid)) (\<lambda>res.
     if sweep_stale parse_time now cutoff res
     then pbind (hard_delete St R ts sid None) (\<lambda>_. sweep_loop St R parse_time ts now cutoff sids (deleted @ [sid]))
     else sweep_loop St R parse_time ts now cutoff sids deleted)"

definition days :: "int \<Rightarrow> int" where
  "days n = n * 86400 * 1000000000"

definition ttl_sweep ::
    "'s store_ops \<Rightarrow> 'r redis \<Rightarrow> (string \<Rightarrow> int option) \<Rightarrow> int \<Rightarrow> int \<Rightarrow> int \<Rightarrow> ('s \<times> 'r, memoryd_error, string list) proc" where
  "ttl_sweep St R parse_time ts ttl_days now =
     pbind (pmap_err StoreE (on_fst (st_list_sessions St))) (\<lambda>sids.
     sweep_loop St R parse_time ts now (now - days ttl_days) sids [])"

subsection \<open>Hard delete over both services\<close>

lemma hoare_delete_prefix:
  assumes "s3_laws S objs after"
  shows "hoare (\<lambda>s. objs s = m) (st_delete_prefix (s3_store L S) sid)
    (\<lambda>r s. case r of
       Inr d \<Rightarrow> objs s = outside (session_prefix sid) m
     | Inl e \<Rightarrow> outside (session_prefix sid) (objs s) = outside (session_prefix sid) m)"
proof (rule hoareI)
  fix s assume "objs s = m"
  with delete_prefix_spec [OF assms, of sid s] show "\<exists>s' r. st_delete_prefix (s3_store L S) sid s = Some (s', r) \<and>
      (case r of Inr d \<Rightarrow> objs s' = outside (session_prefix sid) m
       | Inl e \<Rightarrow> outside (session_prefix sid) (objs s') = outside (session_prefix sid) m)"
    by (fastforce simp: s3_store_def split: sum.splits)
qed

lemma outside_idem: "outside p (outside p m) = outside p m"
  by (simp add: outside_def)

lemma returns_delete_index: "returns (delete_index R ts sid owner)"
  unfolding delete_index_def by (auto split: option.splits)

lemma hard_delete_run:
  assumes "s3_laws S objs after"
  obtains s1 r1 res where "hard_delete (s3_store L S) R ts sid owner (s, r) = Some ((s1, r1), res)"
    "outside (session_prefix sid) (objs s1) = outside (session_prefix sid) (objs s)"
    "r1 = r \<or> (\<exists>x. delete_index R ts sid owner r = Some (r1, x))"
    "\<And>d. res = Inr d \<Longrightarrow> objs s1 = outside (session_prefix sid) (objs s) \<and> delete_index R ts sid owner r = Some (r1, Inr ())"
proof -
  from hoareE [OF hoare_delete_prefix [OF assms, of "objs s" L sid] refl] obtain s1 x where
    d: "st_delete_prefix (s3_store L S) sid s = Some (s1, x)"
      "case x of Inr d \<Rightarrow> objs s1 = outside (session_prefix sid) (objs s)
        | Inl e \<Rightarrow> outside (session_prefix sid) (objs s1) = outside (session_prefix sid) (objs s)" .
  from returns_delete_index obtain r1 y where i: "delete_index R ts sid owner r = Some (r1, y)" by (rule returnsE)
  show thesis
  proof (cases x)
    case (Inl e)
    with d show thesis by (intro that [of s1 r "Inl (StoreE e)"]) (auto simp: hard_delete_def pbind_def pmap_err_def pmatch_def on_fst_def)
  next
    case (Inr n)
    show thesis
    proof (cases y)
      case (Inl e)
      with d i Inr show thesis
        by (intro that [of s1 r1 "Inl (IndexE e)"])
          (auto simp: hard_delete_def pbind_def pmap_err_def pmatch_def on_fst_def on_snd_def outside_idem)
    next
      case (Inr u)
      with d i \<open>x = Inr n\<close> show thesis
        by (intro that [of s1 r1 "Inr n"])
          (auto simp: hard_delete_def pbind_def pmap_err_def pmatch_def on_fst_def on_snd_def outside_idem)
    qed
  qed
qed

subsection \<open>Rebuild on a lost index\<close>

abbreviation heal_fields :: "string \<Rightarrow> string \<Rightarrow> u64 \<Rightarrow> u64 \<Rightarrow> u64 \<Rightarrow> string option \<Rightarrow> (string \<times> string) list" where
  "heal_fields stamp tip last_turn cnt seq owner \<equiv>
     [(''tip_hash'', tip), (''last_turn_id'', show_u64 last_turn), (''event_count'', show_u64 cnt), (''seq'', show_u64 seq),
      (''updated_at'', stamp)] @ (case owner of Some ow \<Rightarrow> [(''owner'', ow), (''created_at'', stamp)] | None \<Rightarrow> [])"

text \<open>Whether or not healing reports success, the row it leaves is the row it was to write, or none.\<close>

definition row_in :: "rdb \<Rightarrow> string \<Rightarrow> (string \<times> string) list \<Rightarrow> bool" where
  "row_in d k fs \<longleftrightarrow> keyspace d k \<in> {None, Some (RHash (map_of (rev fs)))} \<and> deadline d k = None"

lemma row_in_purge: "row_in d k fs \<Longrightarrow> row_in (purge ts d) k fs"
  by (simp add: row_in_def purge_def)

lemma map_add_self: "m ++ m = m"
  by (simp add: map_add_def fun_eq_iff split: option.split)

lemma row_in_sem:
  assumes "row_in d k fs" and "redis_sem ts cmd d = Some d'" and "cmd = HSet k fs \<or> (\<exists>k' m. cmd = ZAdd k' m ts \<and> k' \<noteq> k)"
  shows "row_in d' k fs"
  using assms by (auto simp: row_in_def hash_at_def put_key_def map_add_self split: option.splits rval.splits)

lemma icmd_row:
  assumes "redis_laws R db" and "row_in (db r) k fs" and "icmd R ts cmd r = Some (r', x)"
    and "cmd = HSet k fs \<or> (\<exists>k' m. cmd = ZAdd k' m ts \<and> k' \<noteq> k)"
  shows "row_in (db r') k fs"
proof -
  have "db r' = purge ts (db r) \<or> redis_sem ts cmd (purge ts (db r)) = Some (db r')"
    using hoareD [OF hoare_icmd [OF assms(1)] refl assms(3)] by (auto split: sum.splits)
  with row_in_purge [OF assms(2)] row_in_sem [OF _ _ assms(4)] show ?thesis by metis
qed

lemma heal_row:
  assumes "redis_laws R db" and "row_in (db r) (session_key sid) (heal_fields stamp tip t c q owner)"
    and "heal R ts stamp sid tip t c q owner r = Some (r', x)"
  shows "row_in (db r') (session_key sid) (heal_fields stamp tip t c q owner)"
proof -
  let ?fs = "heal_fields stamp tip t c q owner" and ?k = "session_key sid"
  obtain r1 y where c1: "icmd R ts (HSet ?k ?fs) r = Some (r1, y)" using returns_icmd by (rule returnsE)
  have row1: "row_in (db r1) ?k ?fs" using icmd_row [OF assms(1,2) c1] by simp
  show ?thesis
  proof (cases "is_ok y \<and> owner \<noteq> None")
    case False
    with assms(3) c1 row1 show ?thesis by (cases y; cases owner) (auto simp: heal_def Let_def pbind_def)
  next
    case True
    then obtain ow rep where ow: "owner = Some ow" "y = Inr rep" by (cases y) auto
    obtain r2 z where c2: "icmd R ts (ZAdd (owner_sessions_key ow) sid ts) r1 = Some (r2, z)" using returns_icmd by (rule returnsE)
    have "row_in (db r2) ?k ?fs" using icmd_row [OF assms(1) row1 c2] owner_not_session by blast
    moreover have "r' = r2" using assms(3) c1 c2 ow
      by (auto simp: heal_def Let_def pbind_def icmd_as_def split: sum.splits option.splits)
    ultimately show ?thesis by simp
  qed
qed

lemma rebuild_session_row:
  assumes "serde_laws L" and "redis_laws R db" and "s3_holds S objs after s sid (print_log L evs)" and "valid_log L evs"
    and "\<forall>e \<in> set evs. jwf e \<and> no_float e"
    and "keyspace (db r) (session_key sid) = None" and "deadline (db r) (session_key sid) = None"
    and "rebuild_session L (s3_store L S) R event_of clk sid (s, r) = Some ((s', r'), u)"
  shows "\<exists>seq. row_in (db r') (session_key sid)
    (heal_fields (snd clk) (log_tip evs) (max_turn evs) (of_nat (length evs)) seq (owner_from_log evs))"
proof -
  let ?St = "s3_store L S" and ?row = "\<lambda>r q. row_in (db r) (session_key sid)
    (heal_fields (snd clk) (log_tip evs) (max_turn evs) (of_nat (length evs)) q (owner_from_log evs))"
  have none: "?row r q" for q using assms(6,7) by (simp add: row_in_def)
  obtain s1 x where rd: "on_fst (st_read_log ?St sid) (s, r) = Some ((s1, r), x)" "s3_holds S objs after s1 sid (print_log L evs)"
    "case x of Inr out \<Rightarrow> out = log_bytes (print_log L evs) | Inl e \<Rightarrow> True" by (rule s3c.read_on_fst [OF assms(3)])
  show ?thesis
  proof (cases x)
    case (Inl e)
    with assms(8) rd(1) have "r' = r" by (auto simp: rebuild_session_def pmatch_def)
    with none show ?thesis by blast
  next
    case (Inr out)
    with rd(3) log_values_print [OF assms(1,5)] have vals: "log_values L out = evs" by simp
    have fs: "fsck L evs = Inr (of_nat (length evs), log_tip evs)" using assms(4) by (simp add: fsck_Inr)
    obtain s2 y where mx: "on_fst (st_max_seq ?St sid) (s1, r) = Some ((s2, r), y)" by (rule s3c.max_seq_on_fst [OF rd(2)])
    let ?q = "case y of Inr x \<Rightarrow> unwrap_or x 0 | Inl _ \<Rightarrow> 0"
    obtain r3 z where hl: "heal R (fst clk) (snd clk) sid (log_tip evs) (max_turn evs) (of_nat (length evs)) ?q (owner_from_log evs) r = Some (r3, z)"
      using returns_heal by (rule returnsE)
    have "r' = r \<or> r' = r3"
      using assms(8) rd(1) Inr vals fs mx hl
      by (cases z) (auto simp: rebuild_session_def pmatch_def on_snd_def on_fst_def split: if_splits option.splits prod.splits)
    with none heal_row [OF assms(2) none hl] show ?thesis by metis
  qed
qed

subsection \<open>The sweep and sessions in use\<close>

definition kept :: "string \<Rightarrow> (string \<times> bytes) list \<Rightarrow> (string \<times> bytes) list" where
  "kept sid m = filter (\<lambda>p. starts_with (fst p) (session_prefix sid)) m"

lemma kept_outside:
  assumes "sid_ok a" and "sid_ok b" and "a \<noteq> b"
  shows "kept a m = kept a (outside (session_prefix b) m)"
  unfolding kept_def outside_def filter_filter
  by (rule filter_cong [OF refl]) (use assms session_prefix_unique in blast)

text \<open>What the sweep must not touch: the objects of a session and its row in the index.\<close>

definition spared :: "('s \<Rightarrow> (string \<times> bytes) list) \<Rightarrow> ('r \<Rightarrow> rdb) \<Rightarrow> int \<Rightarrow> string \<Rightarrow>
    (string \<times> bytes) list \<Rightarrow> rval option \<Rightarrow> 's \<times> 'r \<Rightarrow> bool" where
  "spared objs db ts sid m row w \<longleftrightarrow> kept sid (objs (fst w)) = m \<and> keyspace (purge ts (db (snd w))) (session_key sid) = row"

lemma delete_index_other:
  assumes "redis_laws R db" and "delete_index R ts sid' None r = Some (r', x)" and "sid' \<noteq> sid"
  shows "keyspace (purge ts (db r')) (session_key sid) = keyspace (purge ts (db r)) (session_key sid)"
proof -
  from returns_icmd_as obtain r1 y where c: "icmd_as reply_int R ts (Del [session_key sid']) r = Some (r1, y)" by (rule returnsE)
  have "db r1 = purge ts (db r) \<or> db r1 = drop_keys {session_key sid'} (purge ts (db r))"
    using hoareD [OF hoare_icmd_as [OF assms(1)] refl c] by (auto split: sum.splits)
  moreover have "r' = r1" using assms(2) c by (cases y) (auto simp: delete_index_def pbind_def)
  moreover have "session_key sid \<noteq> session_key sid'" using assms(3) by (simp add: session_key_def)
  moreover have "keyspace (purge ts (drop_keys {k'} d)) k = keyspace (purge ts d) k" if "k \<noteq> k'" for k k' d
    using that by (simp add: purge_def drop_keys_def)
  ultimately show ?thesis by (auto)
qed

lemma snapshot_spared:
  assumes "redis_laws R db"
  shows "hoare (spared objs db ts sid m row) (on_snd (snapshot R ts sid'))
    (\<lambda>res w. spared objs db ts sid m row w \<and>
       (sid' = sid \<longrightarrow> (\<forall>sn. res = Inr sn \<longrightarrow> (\<exists>h. row = Some (RHash h) \<and> sn = snapshot_of h))))"
proof (rule hoare_on_snd)
  fix s
  show "hoare (\<lambda>r. spared objs db ts sid m row (s, r)) (snapshot R ts sid')
     (\<lambda>x r. spared objs db ts sid m row (s, r) \<and>
        (sid' = sid \<longrightarrow> (\<forall>sn. x = Inr sn \<longrightarrow> (\<exists>h. row = Some (RHash h) \<and> sn = snapshot_of h))))"
  proof (rule hoareI)
    fix r assume sp: "spared objs db ts sid m row (s, r)"
    from snapshot_spec [OF assms, of ts sid' r] obtain r' res where
      "snapshot R ts sid' r = Some (r', res)" "db r' = purge ts (db r)"
      "case res of
         Inr sn \<Rightarrow> \<exists>h. keyspace (purge ts (db r)) (session_key sid') = Some (RHash h) \<and> sn = snapshot_of h
       | Inl e \<Rightarrow> e = RedisErr \<or> e = Missing sid' \<and> keyspace (purge ts (db r)) (session_key sid') = None" by blast
    with sp show "\<exists>r' x. snapshot R ts sid' r = Some (r', x) \<and> spared objs db ts sid m row (s, r') \<and>
        (sid' = sid \<longrightarrow> (\<forall>sn. x = Inr sn \<longrightarrow> (\<exists>h. row = Some (RHash h) \<and> sn = snapshot_of h)))"
      by (auto simp: spared_def split: sum.splits)
  qed
qed

lemma hard_delete_spared:
  assumes "s3_laws S objs after" and "redis_laws R db" and "sid_ok sid" and "sid_ok sid'" and "sid' \<noteq> sid"
  shows "hoare (spared objs db ts sid m row) (hard_delete (s3_store L S) R ts sid' None) (\<lambda>_. spared objs db ts sid m row)"
proof (rule hoareI)
  fix w assume sp: "spared objs db ts sid m row w"
  obtain s r where w: "w = (s, r)" by fastforce
  obtain s1 r1 res where d: "hard_delete (s3_store L S) R ts sid' None (s, r) = Some ((s1, r1), res)"
    "outside (session_prefix sid') (objs s1) = outside (session_prefix sid') (objs s)"
    "r1 = r \<or> (\<exists>x. delete_index R ts sid' None r = Some (r1, x))"
    by (rule hard_delete_run [OF assms(1)])
  have "kept sid (objs s1) = kept sid (objs s)"
    using d(2) kept_outside [OF assms(3,4)] assms(5) by metis
  moreover have "keyspace (purge ts (db r1)) (session_key sid) = keyspace (purge ts (db r)) (session_key sid)"
    using d(3) delete_index_other [OF assms(2) _ assms(5)] by blast
  ultimately show "\<exists>w' x. hard_delete (s3_store L S) R ts sid' None w = Some (w', x) \<and> spared objs db ts sid m row w'"
    using d(1) sp w by (auto simp: spared_def)
qed

lemma sweep_loop_spared:
  assumes "s3_laws S objs after" and "redis_laws R db" and "sid_ok sid" and "\<forall>x \<in> set sids. sid_ok x"
    and "\<And>h. row = Some (RHash h) \<Longrightarrow> \<not> idle_since parse_time now (snapshot_of h) < cutoff"
  shows "hoare (spared objs db ts sid m row) (sweep_loop (s3_store L S) R parse_time ts now cutoff sids deleted)
    (\<lambda>_. spared objs db ts sid m row)"
  using assms(4)
proof (induction sids arbitrary: deleted)
  case Nil
  show ?case unfolding sweep_loop.simps by (rule hoare_pret)
next
  case (Cons x sids)
  have rest: "hoare (spared objs db ts sid m row) (sweep_loop (s3_store L S) R parse_time ts now cutoff sids d)
      (\<lambda>_. spared objs db ts sid m row)" for d
    using Cons by simp
  show ?case unfolding sweep_loop.simps
  proof (rule hoare_pmatch [OF snapshot_spared [OF assms(2)]])
    fix res
    show "hoare (\<lambda>w. spared objs db ts sid m row w \<and> (x = sid \<longrightarrow> (\<forall>sn. res = Inr sn \<longrightarrow> (\<exists>h. row = Some (RHash h) \<and> sn = snapshot_of h))))
        (if sweep_stale parse_time now cutoff res
         then pbind (hard_delete (s3_store L S) R ts x None) (\<lambda>_. sweep_loop (s3_store L S) R parse_time ts now cutoff sids (deleted @ [x]))
         else sweep_loop (s3_store L S) R parse_time ts now cutoff sids deleted) (\<lambda>_. spared objs db ts sid m row)"
    proof (cases "sweep_stale parse_time now cutoff res")
      case True
      then obtain sn where sn: "res = Inr sn" "idle_since parse_time now sn < cutoff" by (auto simp: sweep_stale_def split: sum.splits)
      show ?thesis
      proof (cases "x = sid")
        case eq: True
        with sn assms(5) show ?thesis by (intro hoareI) auto
      next
        case False
        have "hoare (spared objs db ts sid m row) (hard_delete (s3_store L S) R ts x None) (\<lambda>_. spared objs db ts sid m row)"
          using hard_delete_spared [OF assms(1-3) _ False] Cons.prems by simp
        then have "hoare (spared objs db ts sid m row) (pbind (hard_delete (s3_store L S) R ts x None)
            (\<lambda>_. sweep_loop (s3_store L S) R parse_time ts now cutoff sids (deleted @ [x]))) (\<lambda>_. spared objs db ts sid m row)"
          by (rule hoare_pbind) (use rest in auto)
        with True show ?thesis by (auto elim: hoare_conseq)
      qed
    next
      case False
      have "hoare (\<lambda>w. spared objs db ts sid m row w \<and> (x = sid \<longrightarrow> (\<forall>sn. res = Inr sn \<longrightarrow> (\<exists>h. row = Some (RHash h) \<and> sn = snapshot_of h))))
          (sweep_loop (s3_store L S) R parse_time ts now cutoff sids deleted) (\<lambda>_. spared objs db ts sid m row)"
        by (rule hoare_conseq [OF rest]) auto
      with False show ?thesis by simp
    qed
  qed
qed

lemma hard_delete_spec:
  assumes "s3_laws S objs after" and "redis_laws R db"
  shows "\<exists>s1 r1 res. hard_delete (s3_store L S) R ts sid owner (s, r) = Some ((s1, r1), res) \<and>
    outside (session_prefix sid) (objs s1) = outside (session_prefix sid) (objs s) \<and>
    (is_ok res \<longrightarrow> kept sid (objs s1) = [] \<and>
       snd (the (snapshot R ts' sid r1)) \<in> {Inl RedisErr, Inl (Missing sid)} \<and>
       (\<forall>ow z. owner = Some ow \<and> keyspace (db r1) (owner_sessions_key ow) = Some (RZSet z) \<longrightarrow> z sid = None))"
proof -
  obtain s1 r1 res where d: "hard_delete (s3_store L S) R ts sid owner (s, r) = Some ((s1, r1), res)"
    "outside (session_prefix sid) (objs s1) = outside (session_prefix sid) (objs s)"
    "\<And>n. res = Inr n \<Longrightarrow> objs s1 = outside (session_prefix sid) (objs s) \<and> delete_index R ts sid owner r = Some (r1, Inr ())"
    by (rule hard_delete_run [OF assms(1)]) blast
  have "kept sid (outside (session_prefix sid) m) = []" for m by (simp add: kept_def outside_def filter_empty_conv)
  with d delete_index_spec [OF assms(2), of ts sid owner r r1 "()" ts'] show ?thesis by (cases res) auto
qed

subsection \<open>Properties\<close>

text \<open>
  A hard delete returns, and whatever happens it touches no object of another session. When
  it reports success the session is gone from both services: no object under its prefix is left,
  no later snapshot of it succeeds, and it is gone from the sorted set of the owner that was
  given.
\<close>

theorem hard_delete_forgets_session:
  assumes "s3_laws S objs after" and "redis_laws R db"
  shows "\<exists>s1 r1 res. hard_delete (s3_store L S) R ts sid owner (s, r) = Some ((s1, r1), res) \<and>
    outside (session_prefix sid) (objs s1) = outside (session_prefix sid) (objs s) \<and>
    (is_ok res \<longrightarrow> kept sid (objs s1) = [] \<and>
       snd (the (snapshot R ts' sid r1)) \<in> {Inl RedisErr, Inl (Missing sid)} \<and>
       (\<forall>ow z. owner = Some ow \<and> keyspace (db r1) (owner_sessions_key ow) = Some (RZSet z) \<longrightarrow> z sid = None))"
  by (rule hard_delete_spec [OF assms])

text \<open>
  The retention sweep never touches a session in use: when the index of a session shows
  activity no older than the limit, or has no row for it, the sweep, whatever fails on the way
  and whatever else it deletes, returns with every object of the session in place.
\<close>

theorem ttl_sweep_spares_active:
  assumes "s3_laws S objs after" and "redis_laws R db" and "sid_ok sid"
    and "\<And>h. keyspace (purge ts (db r)) (session_key sid) = Some (RHash h) \<Longrightarrow>
      now - days ttl_days \<le> idle_since parse_time now (snapshot_of h)"
  shows "\<exists>s1 r1 res. ttl_sweep (s3_store L S) R parse_time ts ttl_days now (s, r) = Some ((s1, r1), res) \<and>
    kept sid (objs s1) = kept sid (objs s)"
proof -
  let ?row = "keyspace (purge ts (db r)) (session_key sid)" and ?m = "kept sid (objs s)"
  let ?I = "spared objs db ts sid ?m ?row"
  have list: "hoare (\<lambda>w. ?I w) (pmap_err StoreE (on_fst (st_list_sessions (s3_store L S))))
      (\<lambda>res w. ?I w \<and> (\<forall>sids. res = Inr sids \<longrightarrow> (\<forall>x \<in> set sids. sid_ok x)))"
  proof (intro hoare_pmap_err hoare_on_fst hoareI)
    fix r' s' assume sp: "?I (s', r')"
    from list_sessions_spec [OF assms(1), of s'] obtain s1 x where l: "list_sessions S s' = Some (s1, x)" "objs s1 = objs s'"
      "case x of Inr ss \<Rightarrow> set ss = {sid. \<exists>k \<in> fst ` set (objs s'). starts_with k ''sessions/'' \<and> key_session k = Some sid}
       | Inl e \<Rightarrow> True" by (fastforce split: sum.splits)
    then have "\<forall>sids. x = Inr sids \<longrightarrow> (\<forall>y \<in> set sids. sid_ok y)" using key_session_Some(1) by auto
    with l sp show "\<exists>s1 x. st_list_sessions (s3_store L S) s' = Some (s1, x) \<and> ?I (s1, r') \<and>
        (\<forall>sids. map_err StoreE x = Inr sids \<longrightarrow> (\<forall>y \<in> set sids. sid_ok y))"
      by (auto simp: s3_store_def spared_def map_err_def split: sum.splits)
  qed
  have loop: "hoare (\<lambda>w. ?I w \<and> (\<forall>x \<in> set sids. sid_ok x))
      (sweep_loop (s3_store L S) R parse_time ts now (now - days ttl_days) sids []) (\<lambda>_. ?I)" for sids
  proof (cases "\<forall>x \<in> set sids. sid_ok x")
    case True
    have "\<not> idle_since parse_time now (snapshot_of h) < now - days ttl_days" if "?row = Some (RHash h)" for h
      using assms(4) [OF that] by simp
    from sweep_loop_spared [OF assms(1-3) True this] show ?thesis by (rule hoare_conseq) auto
  qed (auto simp: hoare_def)
  have "hoare ?I (ttl_sweep (s3_store L S) R parse_time ts ttl_days now) (\<lambda>_. ?I)"
    unfolding ttl_sweep_def by (rule hoare_pbind [OF list]) (use loop in auto)
  moreover have "?I (s, r)" by (simp add: spared_def)
  ultimately obtain w x where "ttl_sweep (s3_store L S) R parse_time ts ttl_days now (s, r) = Some (w, x)" "?I w" by (rule hoareE)
  then show ?thesis by (cases w) (auto simp: spared_def)
qed

text \<open>
  C20. The index is rebuilt from the log alone: when Redis has lost the row of a session whose
  log is a valid chain, then after a rebuild any snapshot that succeeds shows the tip, the last
  turn, the event count and the owner of the log, whether or not every call of the rebuild
  succeeded.
\<close>

theorem rebuild_recovers_index:
  assumes "serde_laws L" and "redis_laws R db" and "s3_laws S objs after" and "has_log (objs s) sid (print_log L evs)"
    and "valid_log L evs" and "\<forall>e \<in> set evs. jwf e \<and> no_float e"
    and "keyspace (db r) (session_key sid) = None" and "deadline (db r) (session_key sid) = None"
    and "rebuild_session L (s3_store L S) R event_of clk sid (s, r) = Some ((s', r'), u)"
    and "snapshot R ts sid r' = Some (r2, Inr sn)"
  shows "sn_tip_hash sn = Some (log_tip evs) \<and> sn_last_turn_id sn = Some (max_turn evs) \<and>
    sn_event_count sn = Some (of_nat (length evs)) \<and> sn_owner sn = owner_from_log evs"
proof -
  have "s3_holds S objs after s sid (print_log L evs)" using assms(3,4) by (simp add: s3_holds_def)
  from rebuild_session_row [OF assms(1,2) this assms(5-9)] obtain seq where
    row: "row_in (db r') (session_key sid) (heal_fields (snd clk) (log_tip evs) (max_turn evs) (of_nat (length evs)) seq (owner_from_log evs))" ..
  let ?fs = "heal_fields (snd clk) (log_tip evs) (max_turn evs) (of_nat (length evs)) seq (owner_from_log evs)"
  have "keyspace (purge ts (db r')) (session_key sid) \<noteq> None"
    using snapshot_spec [OF assms(2), of ts sid r'] assms(10) by auto
  with row have "keyspace (db r') (session_key sid) = Some (RHash (map_of (rev ?fs)))" "deadline (db r') (session_key sid) = None"
    by (auto simp: row_in_def purge_def)
  from snapshot_reads [OF assms(2) this assms(10)] have "sn = snapshot_of (map_of (rev ?fs))" .
  then show ?thesis by (cases "owner_from_log evs") (simp_all add: snapshot_of_def)
qed

subsection \<open>Witnesses\<close>

lemma hard_delete_forgets_session_witness:
  "\<exists>s1 r1 res. hard_delete (s3_store ref_libs mem_s3) (mem_redis True) 1 ''s1'' None (bucket1, []) = Some ((s1, r1), res)"
  using hard_delete_forgets_session [OF mem_s3_laws mem_redis_laws, of ref_libs True 1 "''s1''" None bucket1 "[]"] by blast

lemma ttl_sweep_spares_active_witness:
  "\<exists>s1 r1 res. ttl_sweep (s3_store ref_libs mem_s3) (mem_redis True) (\<lambda>_. None) 1 30 5 (bucket1, []) = Some ((s1, r1), res) \<and>
     kept ''s1'' (bucket_objs s1) = kept ''s1'' (bucket_objs bucket1)"
proof (rule ttl_sweep_spares_active [OF mem_s3_laws mem_redis_laws])
  show "sid_ok ''s1''" by (simp add: sid_ok_def)
  show "5 - days 30 \<le> idle_since (\<lambda>_. None) 5 (snapshot_of h)" for h
    by (simp add: days_def idle_since_def unwrap_or_def split: option.splits)
qed

definition rebuilt0 :: "((bucket \<times> mem) \<times> (unit + unit)) option" where
  "rebuilt0 = rebuild_session ref_libs (s3_store ref_libs mem_s3) (mem_redis True) (\<lambda>_. None) (1, ''t'') ''s1'' (bucket1, [])"

lemma rebuilt0_snapshot:
  "\<exists>s r u. rebuilt0 = Some ((s, r), u) \<and> (\<exists>r2 sn. snapshot (mem_redis True) 2 ''s1'' r = Some (r2, Inr sn))"
proof -
  have "case rebuilt0 of Some ((s, r), u) \<Rightarrow> (case snapshot (mem_redis True) 2 ''s1'' r of Some (r2, x) \<Rightarrow> is_ok x | None \<Rightarrow> False) | None \<Rightarrow> False"
    by code_simp
  moreover have "is_ok x \<Longrightarrow> \<exists>a. x = Inr a" for x :: "index_err + session_snapshot" by (cases x) simp_all
  ultimately show ?thesis by (fastforce split: option.splits prod.splits)
qed

lemma rebuild_recovers_index_witness:
  "\<exists>s r u r2 sn. rebuilt0 = Some ((s, r), u) \<and> snapshot (mem_redis True) 2 ''s1'' r = Some (r2, Inr sn) \<and>
     sn_tip_hash sn = Some tip0"
proof -
  obtain s r u r2 sn where run: "rebuilt0 = Some ((s, r), u)" "snapshot (mem_redis True) 2 ''s1'' r = Some (r2, Inr sn)"
    using rebuilt0_snapshot by blast
  have empty: "keyspace (mem_abs []) (session_key ''s1'') = None" "deadline (mem_abs []) (session_key ''s1'') = None"
    by (simp_all add: mem_abs_def)
  have "\<forall>e \<in> set [sealed0]. jwf e \<and> no_float e" using sealed0_facts by simp
  from rebuild_recovers_index [OF ref_serde mem_redis_laws mem_s3_laws bucket1_log sealed0_facts(3) this empty run(1) [unfolded rebuilt0_def] run(2)]
  show ?thesis using run sealed0_facts(4) by auto
qed

end
