(* ===== verification/MemAuthz.thy ===== *)
theory MemAuthz
  imports Tokens MemError
begin

text \<open>
  \<open>crates/memoryd/src/authz.rs\<close>: who may do what to which session. Tokens and session rows live
  in the same Redis. The lemmas say what a grant proves, and what an unreadable index grants.
\<close>

subsection \<open>The authorizer\<close>

datatype mem_verb = VAppend | VLoad | VDelete | VAdminOnly

definition authz_of_token :: "token_error \<Rightarrow> authz_err" where
  "authz_of_token e = (case e of Authz _ \<Rightarrow> InvalidToken | Upstream \<Rightarrow> AuthzUpstream)"

definition user_decision :: "mem_verb \<Rightarrow> principal \<Rightarrow> index_err + session_snapshot \<Rightarrow> authz_err + principal" where
  "user_decision v p res =
     (case res of
        Inr snap \<Rightarrow>
          (case sn_owner snap of
             None \<Rightarrow> if v = VAppend then Inr p else Inl AuthzNotFound
           | Some rec_owner \<Rightarrow> if rec_owner = p_owner p then Inr p else Inl AuthzNotFound)
      | Inl _ \<Rightarrow> if v = VAppend then Inr p else Inl AuthzNotFound)"

definition mem_allow ::
    "crypto \<Rightarrow> 'r redis \<Rightarrow> string \<Rightarrow> int \<Rightarrow> string \<Rightarrow> string \<Rightarrow> mem_verb \<Rightarrow> ('r, authz_err, principal) proc" where
  "mem_allow C R pepper now token sid v =
     (if token = [] then perr MissingToken
      else pbind (pmap_err authz_of_token (\<lambda>r. Some (verify C R pepper now token r))) (\<lambda>p.
        case p_scope p of
          Admin \<Rightarrow> pret p
        | Pod \<Rightarrow>
            if p_owner p \<noteq> sid then perr AuthzNotFound
            else if v = VAppend \<or> v = VLoad then pret p else perr Forbidden
        | User \<Rightarrow> pmatch (snapshot R now sid) (\<lambda>res. pof (user_decision v p res))))"

definition mem_permissive_allow :: "string \<Rightarrow> string \<Rightarrow> mem_verb \<Rightarrow> authz_err + principal" where
  "mem_permissive_allow token sid v =
     (if token = [] then Inl MissingToken else Inr \<lparr>p_owner = ''dev'', p_scope = User\<rparr>)"

subsection \<open>What a grant proves\<close>

lemma mem_allow_run:
  assumes "token \<noteq> []" and "verify C R pepper now token r = (r1, Inr p)"
  shows "mem_allow C R pepper now token sid v r =
     (case p_scope p of
        Admin \<Rightarrow> Some (r1, Inr p)
      | Pod \<Rightarrow> Some (r1, if p_owner p \<noteq> sid then Inl AuthzNotFound else if v = VAppend \<or> v = VLoad then Inr p else Inl Forbidden)
      | User \<Rightarrow> map_option (\<lambda>(r2, res). (r2, user_decision v p res)) (snapshot R now sid r1))"
  using assms by (auto simp: mem_allow_def pbind_def pmap_err_def pmatch_def split: scope.splits option.splits)

lemma mem_allow_Inr:
  assumes "mem_allow C R pepper now token sid v r = Some (r', Inr p)"
  shows "\<exists>r1. verify C R pepper now token r = (r1, Inr p) \<and>
    (p_scope p = User \<longrightarrow> (\<exists>res. snapshot R now sid r1 = Some (r', res) \<and> user_decision v p res = Inr p)) \<and>
    (p_scope p = Pod \<longrightarrow> p_owner p = sid \<and> (v = VAppend \<or> v = VLoad))"
proof -
  have ne: "token \<noteq> []" using assms by (auto simp: mem_allow_def)
  obtain r1 x where x: "verify C R pepper now token r = (r1, x)" by fastforce
  then obtain q where q: "x = Inr q" using assms ne
    by (cases x) (auto simp: mem_allow_def pbind_def pmap_err_def pmatch_def)
  note run = mem_allow_run [OF ne x [unfolded q], of sid v]
  have "user_decision v q res = Inr p \<Longrightarrow> q = p" for res by (auto simp: user_decision_def split: sum.splits option.splits if_splits)
  with assms run have "q = p" by (auto split: scope.splits if_splits)
  with x q assms run show ?thesis by (intro exI [of _ r1]) (auto split: if_splits)
qed

text \<open>Verifying a token leaves the keyspace as it was, up to keys that have run out.\<close>

lemma with_conn_db:
  assumes "redis_laws R db"
    and "with_conn R (\<lambda>c r0. let (r1, x) = rexec R c now (HGetAll key) r0 in (r1, rbind x reply_pairs)) r = (r', res)"
  shows "purge now (db r') = purge now (db r)"
proof -
  let ?op = "\<lambda>c r0. let (r1, x) = rexec R c now (HGetAll key) r0 in (r1, rbind x reply_pairs)"
  have step: "purge now (db r1) = purge now (db r0)" if "?op c r0 = (r1, x)" for c r0 r1 x
  proof -
    from that obtain y where y: "rexec R c now (HGetAll key) r0 = (r1, y)" by (auto simp: Let_def split: prod.splits)
    have "db r1 = purge now (db r0)"
    proof (cases y)
      case (Inl e)
      with rexec_err [OF assms(1)] y show ?thesis by fastforce
    next
      case (Inr rep)
      with rexec_ok [OF assms(1)] y show ?thesis by fastforce
    qed
    then show ?thesis by (auto simp: purge_def Let_def fun_eq_iff split: option.splits)
  qed
  obtain r1 x where one: "?op Pooled r = (r1, x)" by fastforce
  obtain r2 y where two: "?op Fresh r1 = (r2, y)" by fastforce
  have "r' = r1 \<or> r' = r2"
    using assms(2) two unfolding with_conn_def one
    by (auto simp: Let_def split: prod.splits sum.splits redis_error.splits if_splits)
  with step [OF one] step [OF two] show ?thesis by auto
qed

lemma verify_db:
  assumes "redis_laws R db" and "verify C R pepper now token r = (r', res)"
  shows "purge now (db r') = purge now (db r)"
  using assms(2) with_conn_db [OF assms(1)]
  by (auto simp: verify_def Let_def split: option.splits if_splits prod.splits)

subsection \<open>Properties\<close>

text \<open>
  C5. Tenant isolation: the memory service lets a request pass only with a verified token. A pod
  token passes only on the session it was minted for, and only to append or load. For a user token the
  session's row in the index decides, as this request read it: a row that was read lets the user pass
  when it names that user as the owner, or names nobody and the request is an append, so nobody reads,
  deletes or appends to a session whose row names another owner; without a row, or when Redis failed
  to answer, only an append passes. An admin token passes everywhere.
\<close>

theorem tenant_isolation:
  assumes "redis_laws R db" and "mem_allow C R pepper now token sid v r = Some (r', Inr p)"
  shows "\<exists>r1. verify C R pepper now token r = (r1, Inr p) \<and>
    (case p_scope p of
       Admin \<Rightarrow> True
     | Pod \<Rightarrow> p_owner p = sid \<and> v \<in> {VAppend, VLoad}
     | User \<Rightarrow>
         (case snapshot R now sid r1 of
            Some (_, Inr snap) \<Rightarrow>
              (\<exists>h. keyspace (purge now (db r)) (session_key sid) = Some (RHash h) \<and>
                 (h ''owner'' = Some (p_owner p) \<or> h ''owner'' = None \<and> v = VAppend))
          | Some (_, Inl e) \<Rightarrow>
              v = VAppend \<and> (e = RedisErr \<or> keyspace (purge now (db r)) (session_key sid) = None)
          | None \<Rightarrow> False))"
proof -
  from mem_allow_Inr [OF assms(2)] obtain r1 where v: "verify C R pepper now token r = (r1, Inr p)"
    "p_scope p = User \<longrightarrow> (\<exists>res. snapshot R now sid r1 = Some (r', res) \<and> user_decision v p res = Inr p)"
    "p_scope p = Pod \<longrightarrow> p_owner p = sid \<and> (v = VAppend \<or> v = VLoad)" by blast
  have db: "purge now (db r1) = purge now (db r)" by (rule verify_db [OF assms(1) v(1)])
  show ?thesis
  proof (cases "p_scope p = User")
    case True
    with v(2) obtain res where res: "snapshot R now sid r1 = Some (r', res)" "user_decision v p res = Inr p" by blast
    from snapshot_spec [OF assms(1), of now sid r1] res(1) have
      "case res of
         Inr sn \<Rightarrow> \<exists>h. keyspace (purge now (db r)) (session_key sid) = Some (RHash h) \<and> sn = snapshot_of h
       | Inl e \<Rightarrow> e = RedisErr \<or> e = Missing sid \<and> keyspace (purge now (db r)) (session_key sid) = None"
      unfolding db by auto
    with v(1) res True show ?thesis
      by (auto simp: user_decision_def snapshot_of_def split: sum.splits option.splits if_splits)
  next
    case False
    with v show ?thesis by (intro exI [of _ r1]) (auto split: scope.splits)
  qed
qed

text \<open>
  An unreadable index grants writing: a verified user token may append to any session, a
  foreign one included, whenever the read of the session's row fails, for the code treats every
  failure of that read as a session that does not exist yet.
\<close>

theorem unreadable_index_grants_append:
  assumes "token \<noteq> []" and "verify C R pepper now token r = (r1, Inr p)" and "p_scope p = User"
    and "snapshot R now sid r1 = Some (r2, Inl RedisErr)"
  shows "mem_allow C R pepper now token sid VAppend r = Some (r2, Inr p)"
  using mem_allow_run [OF assms(1,2)] assms(3,4) by (simp add: user_decision_def)

subsection \<open>Witnesses\<close>

text \<open>Alice's token and her session in one server, and the same server when it cannot answer EXISTS.\<close>

definition alice_db :: mem where
  "alice_db = fst (the (create_session (mem_redis True) 1 ''s1'' ''alice'' ''t0'' (fst minted0)))"

definition alice_load :: "(mem \<times> (authz_err + principal)) option" where
  "alice_load = mem_allow ref_crypto (mem_redis True) ''pp'' 3 token0 ''s1'' VLoad alice_db"

definition alice :: principal where
  "alice = \<lparr>p_owner = ''alice'', p_scope = User\<rparr>"

lemma alice_load_ok: "map_option snd alice_load = Some (Inr alice)"
  by code_simp

lemma tenant_isolation_witness:
  "\<exists>h. keyspace (purge 3 (mem_abs alice_db)) (session_key ''s1'') = Some (RHash h) \<and> h ''owner'' = Some ''alice''"
proof -
  from alice_load_ok obtain r where "mem_allow ref_crypto (mem_redis True) ''pp'' 3 token0 ''s1'' VLoad alice_db = Some (r, Inr alice)"
    by (cases alice_load) (auto simp: alice_load_def prod_eq_iff)
  from tenant_isolation [OF mem_redis_laws this] obtain r1 where
    "case snapshot (mem_redis True) 3 ''s1'' r1 of
       Some (_, Inr snap) \<Rightarrow> \<exists>h. keyspace (purge 3 (mem_abs alice_db)) (session_key ''s1'') = Some (RHash h) \<and> h ''owner'' = Some ''alice''
     | _ \<Rightarrow> False" by (auto simp: alice_def cong: option.case_cong sum.case_cong)
  then show ?thesis by (auto split: option.splits prod.splits sum.splits)
qed

definition flaky :: "mem redis" where
  "flaky = \<lparr>rexec = (\<lambda>c now cmd r. case cmd of Exists k \<Rightarrow> (r, Inl ConnDown) | _ \<Rightarrow> rexec (mem_redis True) c now cmd r),
     rconnect = (\<lambda>_. True)\<rparr>"

definition verified1 :: "mem \<times> (token_error + principal)" where
  "verified1 = verify ref_crypto flaky ''pp'' 3 token0 alice_db"

lemma unreadable_index_grants_append_witness:
  "\<exists>r. mem_allow ref_crypto flaky ''pp'' 3 token0 ''bobs'' VAppend alice_db = Some (r, Inr alice)"
proof -
  have "snd verified1 = Inr alice" by code_simp
  then have v: "verify ref_crypto flaky ''pp'' 3 token0 alice_db = (fst verified1, Inr alice)"
    by (simp add: verified1_def prod_eq_iff)
  have "snapshot flaky 3 ''bobs'' r = Some (r, Inl RedisErr)" for r
    by (simp add: snapshot_def icmd_as_def icmd_def pbind_def flaky_def map_err_def)
  moreover have "token0 \<noteq> []" by code_simp
  ultimately show ?thesis using unreadable_index_grants_append [OF _ v] by (auto simp: alice_def)
qed

end
