(* ===== verification/MemApi.thy ===== *)
theory MemApi
  imports Compact Maintenance MemAuthz
begin

text \<open>
  \<open>crates/memoryd/src/api.rs\<close>: the handlers of the memory service. The state of the service is
  the registry of writers, the object store and Redis; a handler is a procedure on it whose error
  becomes a response by \<open>error_response\<close>. Serde's decoding of an event is a parameter. A header
  map is a function from the lower-case name to the bytes of the value. The text of an error's
  message is the error itself. Log lines are left out; the metrics are in \<open>MemMetrics\<close>.
\<close>

subsection \<open>Requests and responses\<close>

datatype resp_body =
    JsonBody json
  | PlainBody string
  | MarkdownBody bytes
  | ErrorBody string memoryd_error bool
  | NoBody

record response =
  rs_status :: nat
  rs_body :: resp_body

definition visible_ascii :: "char \<Rightarrow> bool" where
  "visible_ascii c = (32 \<le> (of_char c :: nat) \<and> of_char c < (127 :: nat) \<or> of_char c = (9 :: nat))"

definition header_to_str :: "bytes \<Rightarrow> string option" where
  "header_to_str v = (if list_all visible_ascii v then Some v else None)"

definition bearer :: "(string \<rightharpoonup> bytes) \<Rightarrow> string option" where
  "bearer headers =
     Option.bind (Option.bind (headers ''authorization'') header_to_str) (\<lambda>v. strip_prefix v ''Bearer '')"

definition error_class :: "memoryd_error \<Rightarrow> nat \<times> string \<times> bool" where
  "error_class e =
     (case e of
        Invalid _ \<Rightarrow> (400, ''invalid'', False)
      | AuthzE Forbidden \<Rightarrow> (403, ''forbidden'', False)
      | AuthzE AuthzNotFound \<Rightarrow> (404, ''not_found'', False)
      | AuthzE AuthzUpstream \<Rightarrow> (503, ''retryable'', True)
      | AuthzE _ \<Rightarrow> (401, ''unauthorized'', False)
      | IntegrityHold _ \<Rightarrow> (409, ''integrity_hold'', False)
      | SessionNotFound _ \<Rightarrow> (404, ''not_found'', False)
      | StoreE _ \<Rightarrow> (503, ''retryable'', True)
      | IndexE _ \<Rightarrow> (503, ''retryable'', True)
      | ChainE _ \<Rightarrow> (409, ''integrity_hold'', False))"

definition error_response :: "memoryd_error \<Rightarrow> response" where
  "error_response e =
     (let (status, code, again) = error_class e in \<lparr>rs_status = status, rs_body = ErrorBody code e again\<rparr>)"

subsection \<open>The handlers\<close>

record ('s, 'r) api_state =
  as_libs :: libs
  as_store :: "'s store_ops"
  as_redis :: "'r redis"
  as_event_of :: "json \<Rightarrow> event option"
  as_cfg :: compact_config
  as_authz :: "int \<Rightarrow> string \<Rightarrow> string \<Rightarrow> mem_verb \<Rightarrow> ('r, authz_err, principal) proc"

definition ok_json :: "json \<Rightarrow> response" where
  "ok_json j = \<lparr>rs_status = 200, rs_body = JsonBody j\<rparr>"

definition ok_markdown :: "bytes \<Rightarrow> response" where
  "ok_markdown b = \<lparr>rs_status = 200, rs_body = MarkdownBody b\<rparr>"

definition api_allow ::
    "('s, 'r) api_state \<Rightarrow> clock \<Rightarrow> (string \<rightharpoonup> bytes) \<Rightarrow> string \<Rightarrow> mem_verb \<Rightarrow> (('s, 'r) service, memoryd_error, principal) proc" where
  "api_allow st clk headers sid v =
     pmap_err AuthzE (on_snd (on_snd (as_authz st (fst clk) (unwrap_or (bearer headers) []) sid v)))"

text \<open>Binding the owner: an index row of another owner, without one, or unreadable, is written anew.\<close>

definition stamp_owner ::
    "('s, 'r) api_state \<Rightarrow> clock \<Rightarrow> string \<Rightarrow> principal \<Rightarrow> (('s, 'r) service, memoryd_error, unit) proc" where
  "stamp_owner st clk sid p =
     (if p_scope p = Pod then pret ()
      else
        pmatch (on_snd (on_snd (snapshot (as_redis st) (fst clk) sid))) (\<lambda>res.
        let needs_stamp = (case res of Inr s \<Rightarrow> sn_owner s \<noteq> Some (p_owner p) | Inl _ \<Rightarrow> True) in
        if needs_stamp then pmap_err IndexE (on_snd (on_snd (create_session (as_redis st) (fst clk) sid (p_owner p) (snd clk))))
        else pret ()))"

definition append_reply :: "append_result \<Rightarrow> memoryd_error + response" where
  "append_reply res =
     (case res of
        Committed h turn \<Rightarrow> Inr (ok_json (jobject [(''status'', JStr ''committed''), (''hash'', JStr h), (''turn_id'', ju64 turn)]))
      | Duplicate h \<Rightarrow> Inr (ok_json (jobject [(''status'', JStr ''duplicate''), (''hash'', JStr h)]))
      | Rejected e \<Rightarrow> Inl (Invalid (AppendRejected e))
      | Retryable e \<Rightarrow> Inl (Invalid (AppendRetryable e)))"

definition append_event ::
    "('s, 'r) api_state \<Rightarrow> clock \<Rightarrow> string \<Rightarrow> (string \<rightharpoonup> bytes) \<Rightarrow> json \<Rightarrow> (('s, 'r) service, memoryd_error, response) proc" where
  "append_event st clk sid headers body =
     pbind (api_allow st clk headers sid VAppend) (\<lambda>p.
     pbind (stamp_owner st clk sid p) (\<lambda>_.
     pbind (handle_append (as_libs st) (as_store st) (as_redis st) clk sid body) (\<lambda>res.
     pof (append_reply res))))"

definition session_row ::
    "('s, 'r) api_state \<Rightarrow> clock \<Rightarrow> string \<Rightarrow> (('s, 'r) service, memoryd_error, session_snapshot) proc" where
  "session_row st clk sid =
     pmap_err (\<lambda>_. SessionNotFound sid) (on_snd (on_snd (snapshot (as_redis st) (fst clk) sid)))"

definition load_session ::
    "('s, 'r) api_state \<Rightarrow> clock \<Rightarrow> string \<Rightarrow> (string \<rightharpoonup> bytes) \<Rightarrow> (('s, 'r) service, memoryd_error, response) proc" where
  "load_session st clk sid headers =
     pbind (api_allow st clk headers sid VLoad) (\<lambda>_.
     pbind (session_row st clk sid) (\<lambda>snap.
     pbind (read_values_of (as_libs st) (as_store st) sid) (\<lambda>vals.
     pbind (pof (map_err IntegrityHold (fsck (as_libs st) vals))) (\<lambda>(_, tip).
     let memory_url = (case st_sign_get (as_store st) (''sessions/'' @ sid @ ''/'' @ ARTIFACT_MEMORY) 900 of
           Inr u \<Rightarrow> JStr u | Inl _ \<Rightarrow> JNull) in
     pret (ok_json (jobject
       [(''cursor'', jobject [(''tip_hash'', JStr tip), (''last_turn_id'', ju64 (unwrap_or (sn_last_turn_id snap) 0)),
          (''epoch'', ju64 (unwrap_or (sn_epoch snap) 0))]),
        (''memory_url'', memory_url)]))))))"

text \<open>The log rendered on demand; a panic of the renderer does not return.\<close>

definition transcript_on_demand ::
    "('s, 'r) api_state \<Rightarrow> string \<Rightarrow> (('s, 'r) service, memoryd_error, response) proc" where
  "transcript_on_demand st sid =
     pbind (read_values_of (as_libs st) (as_store st) sid) (\<lambda>vals.
     case render_transcript (List.map_filter (as_event_of st) vals) of
       None \<Rightarrow> (\<lambda>_. None)
     | Some md \<Rightarrow> pret (ok_markdown md))"

definition artifact_or_transcript ::
    "('s, 'r) api_state \<Rightarrow> clock \<Rightarrow> string \<Rightarrow> string \<Rightarrow> (string \<rightharpoonup> bytes) \<Rightarrow> (('s, 'r) service, memoryd_error, response) proc" where
  "artifact_or_transcript st clk name sid headers =
     pbind (api_allow st clk headers sid VLoad) (\<lambda>_.
     pbind (session_row st clk sid) (\<lambda>_.
     pmatch (on_snd (on_fst (st_get_artifact (as_store st) sid name))) (\<lambda>res.
     case res of Inr b \<Rightarrow> pret (ok_markdown b) | Inl _ \<Rightarrow> transcript_on_demand st sid)))"

definition get_memory ::
    "('s, 'r) api_state \<Rightarrow> clock \<Rightarrow> string \<Rightarrow> (string \<rightharpoonup> bytes) \<Rightarrow> (('s, 'r) service, memoryd_error, response) proc" where
  "get_memory st clk = artifact_or_transcript st clk ARTIFACT_MEMORY"

definition get_transcript ::
    "('s, 'r) api_state \<Rightarrow> clock \<Rightarrow> string \<Rightarrow> (string \<rightharpoonup> bytes) \<Rightarrow> (('s, 'r) service, memoryd_error, response) proc" where
  "get_transcript st clk = artifact_or_transcript st clk ARTIFACT_TRANSCRIPT"

definition compact_session ::
    "('s, 'r) api_state \<Rightarrow> clock \<Rightarrow> string \<Rightarrow> (string \<rightharpoonup> bytes) \<Rightarrow> (('s, 'r) service, memoryd_error, response) proc" where
  "compact_session st clk sid headers =
     pbind (api_allow st clk headers sid VAppend) (\<lambda>_.
     pbind (maybe_compact (as_libs st) (as_store st) (as_redis st) (as_event_of st) mock_roll (as_cfg st) clk sid) (\<lambda>res.
     pret (ok_json (case res of
        NotNeeded \<Rightarrow> jobject [(''compacted'', JBool False)]
      | Done epoch blob_tokens \<Rightarrow>
          jobject [(''compacted'', JBool True), (''epoch'', ju64 epoch), (''blob_tokens'', ju64 (of_nat blob_tokens))]))))"

definition delete_session ::
    "('s, 'r) api_state \<Rightarrow> clock \<Rightarrow> string \<Rightarrow> (string \<rightharpoonup> bytes) \<Rightarrow> (('s, 'r) service, memoryd_error, response) proc" where
  "delete_session st clk sid headers =
     pbind (api_allow st clk headers sid VDelete) (\<lambda>p.
     pbind (session_row st clk sid) (\<lambda>_.
     pbind (on_snd (hard_delete (as_store st) (as_redis st) (fst clk) sid (Some (p_owner p)))) (\<lambda>_.
     pret \<lparr>rs_status = 204, rs_body = NoBody\<rparr>)))"

definition healthz :: response where
  "healthz = \<lparr>rs_status = 200, rs_body = PlainBody ''ok''\<rparr>"

definition readyz :: "('s, 'r) api_state \<Rightarrow> clock \<Rightarrow> (('s, 'r) service, memoryd_error, response) proc" where
  "readyz st clk =
     pmatch (on_snd (on_snd (index_ping (as_redis st) (fst clk)))) (\<lambda>res.
     pret (case res of
       Inr _ \<Rightarrow> \<lparr>rs_status = 200, rs_body = PlainBody ''ok''\<rparr>
     | Inl e \<Rightarrow> \<lparr>rs_status = 503, rs_body = ErrorBody ''unavailable'' (IndexE e) True\<rparr>))"

subsection \<open>The routes\<close>

datatype route = Events_post json | Load_post | Memory_get | Transcript_get | Compact_post | Session_delete

definition route_handler ::
    "('s, 'r) api_state \<Rightarrow> clock \<Rightarrow> string \<Rightarrow> (string \<rightharpoonup> bytes) \<Rightarrow> route \<Rightarrow> (('s, 'r) service, memoryd_error, response) proc" where
  "route_handler st clk sid headers rt =
     (case rt of
        Events_post body \<Rightarrow> append_event st clk sid headers body
      | Load_post \<Rightarrow> load_session st clk sid headers
      | Memory_get \<Rightarrow> get_memory st clk sid headers
      | Transcript_get \<Rightarrow> get_transcript st clk sid headers
      | Compact_post \<Rightarrow> compact_session st clk sid headers
      | Session_delete \<Rightarrow> delete_session st clk sid headers)"

text \<open>The response of a handler: its own, or the one of its error.\<close>

definition serve ::
    "('s, 'r) api_state \<Rightarrow> clock \<Rightarrow> string \<Rightarrow> (string \<rightharpoonup> bytes) \<Rightarrow> route \<Rightarrow> ('s, 'r) service \<Rightarrow> (('s, 'r) service \<times> response) option" where
  "serve st clk sid headers rt w =
     map_option (\<lambda>(w', res). (w', case res of Inr resp \<Rightarrow> resp | Inl e \<Rightarrow> error_response e))
       (route_handler st clk sid headers rt w)"

subsection \<open>What a request does\<close>

fun route_verb :: "route \<Rightarrow> mem_verb" where
  "route_verb (Events_post body) = VAppend"
| "route_verb Load_post = VLoad"
| "route_verb Memory_get = VLoad"
| "route_verb Transcript_get = VLoad"
| "route_verb Compact_post = VAppend"
| "route_verb Session_delete = VDelete"

definition token_of :: "(string \<rightharpoonup> bytes) \<Rightarrow> string" where
  "token_of headers = unwrap_or (bearer headers) []"

lemma api_allow_run:
  assumes "as_authz st (fst clk) (token_of headers) sid v r = Some (r', res)"
  shows "api_allow st clk headers sid v (reg, s, r) = Some ((reg, s, r'), map_err AuthzE res)"
  using assms by (cases res) (auto simp: api_allow_def token_of_def pmap_err_def pmatch_def on_snd_def map_err_def)

lemma serve_denied:
  assumes "as_authz st (fst clk) (token_of headers) sid (route_verb rt) r = Some (r', Inl e)"
  shows "serve st clk sid headers rt (reg, s, r) = Some ((reg, s, r'), error_response (AuthzE e))"
  using api_allow_run [OF assms, of reg s]
  by (cases rt) (auto simp: serve_def route_handler_def append_event_def load_session_def get_memory_def get_transcript_def
      artifact_or_transcript_def compact_session_def delete_session_def pbind_def map_err_def)

lemma mem_allow_Inl:
  assumes "mem_allow C R pepper now token sid v r = Some (r', Inl e)"
  shows "(e = MissingToken) = (token = [])"
    and "token \<noteq> [] \<Longrightarrow> (e = InvalidToken) = (\<exists>x. snd (verify C R pepper now token r) = Inl (Authz x))"
    and "token \<noteq> [] \<Longrightarrow> (e = AuthzUpstream) = (snd (verify C R pepper now token r) = Inl Upstream)"
  using assms
  by (auto simp: mem_allow_def pbind_def pmap_err_def pmatch_def authz_of_token_def user_decision_def
      split: if_splits prod.splits option.splits sum.splits scope.splits token_error.splits)

lemma snapshot_at_log:
  obtains r' res where "snapshot R ts sid r = Some (r', res)"
    "on_snd (on_snd (snapshot R ts sid)) (reg, s, r) = Some ((reg, s, r'), res)"
  using returnsE [OF returns_snapshot, of R ts sid r] by (metis (no_types, lifting) on_snd_def case_prod_conv option.simps(9))

lemma hoare_redis:
  assumes "returns m"
  shows "hoare (\<lambda>w. \<exists>r. at_log holds L sid evs reg r w) (on_snd (on_snd m)) (\<lambda>x w. \<exists>r. at_log holds L sid evs reg r w)"
  using hoare_at_log_redis [OF assms] unfolding hoare_def by blast

lemma returns_create_session: "returns (create_session R ts sid owner now)"
  unfolding create_session_def by blast

lemma hoare_stamp_owner:
  "hoare (\<lambda>w. \<exists>r. at_log holds L sid evs reg r w) (stamp_owner st clk sid p) (\<lambda>x w. \<exists>r. at_log holds L sid evs reg r w)"
  unfolding stamp_owner_def Let_def
  by (auto intro!: hoare_pret hoare_pmatch [OF hoare_redis [OF returns_snapshot]]
      hoare_pmap_err [OF hoare_redis [OF returns_create_session]])

text \<open>One read of a session's log, and the run of a load that was let through.\<close>

context object_store
begin

lemma read_values_run:
  assumes "serde_laws L" and "\<forall>e \<in> set evs. jwf e \<and> no_float e" and "holds s sid (print_log L evs)"
  obtains s' x where "st_read_log St sid s = Some (s', x)" "holds s' sid (print_log L evs)"
    "read_values_of L St sid (reg, s, r) = Some ((reg, s', r), case x of Inr _ \<Rightarrow> Inr evs | Inl e \<Rightarrow> Inl (StoreE e))"
proof -
  from hoareE [OF read_spec assms(3)] obtain s' x where x: "st_read_log St sid s = Some (s', x)" "holds s' sid (print_log L evs)"
    "case x of Inr out \<Rightarrow> out = log_bytes (print_log L evs) | Inl e \<Rightarrow> True" by blast
  with log_values_print [OF assms(1,2)] show ?thesis
    by (intro that [OF x(1,2)], cases x) (simp_all add: read_values_of_def pbind_def pmap_err_def pmatch_def on_snd_def on_fst_def)
qed

end

subsection \<open>Properties\<close>

text \<open>
  C15. The gate of the memory service: on every route a request that the authorizer denies is
  answered with the error alone, and neither the registry of writers nor the object store has
  changed. The answer is 401 exactly when the token is missing or was found invalid; a failure of
  Redis during the check is never a 401 but a retryable 503.
\<close>

theorem denied_request_changes_nothing:
  assumes "as_authz st = mem_allow C R pepper"
    and "mem_allow C R pepper (fst clk) (token_of headers) sid (route_verb rt) r = Some (r', Inl e)"
  shows "\<exists>resp. serve st clk sid headers rt (reg, s, r) = Some ((reg, s, r'), resp) \<and>
    (\<exists>code again. rs_body resp = ErrorBody code (AuthzE e) again \<and> again = (rs_status resp = 503)) \<and>
    rs_status resp \<in> {401, 403, 404, 503} \<and>
    (rs_status resp = 401 \<longleftrightarrow> token_of headers = [] \<or>
       (\<exists>x. snd (verify C R pepper (fst clk) (token_of headers) r) = Inl (Authz x))) \<and>
    (rs_status resp = 503 \<longleftrightarrow> token_of headers \<noteq> [] \<and> snd (verify C R pepper (fst clk) (token_of headers) r) = Inl Upstream)"
proof -
  have "serve st clk sid headers rt (reg, s, r) = Some ((reg, s, r'), error_response (AuthzE e))"
    by (rule serve_denied) (simp add: assms)
  moreover note mem_allow_Inl [OF assms(2)]
  ultimately show ?thesis
    by (cases "token_of headers = []"; cases e) (auto simp: error_response_def error_class_def)
qed

text \<open>
  C17. A load never vouches for a bad log. A load that is authorized returns and leaves the log and
  the writers as they are. What it answers is decided by its own two reads, of the index row and then
  of the log: 404 when the row could not be read, because there is none or because Redis failed; else
  503, retryable, when the object store failed; else 200 exactly when the log passes verification, with
  a cursor of the log's tip and the row's turn and epoch; else 409 with the code \<open>integrity_hold\<close>.
\<close>

theorem load_returns_verified_tip:
  assumes "s3_laws S objs after" and "serde_laws L" and "has_log (objs s) sid (print_log L evs)"
    and "\<forall>e \<in> set evs. jwf e \<and> no_float e" and "as_libs st = L" and "as_store st = s3_store L S"
    and "as_authz st (fst clk) (token_of headers) sid VLoad r = Some (r1, Inr p)"
  shows "\<exists>s' r' resp row x. serve st clk sid headers Load_post (reg, s, r) = Some ((reg, s', r'), resp) \<and>
    has_log (objs s') sid (print_log L evs) \<and>
    snapshot (as_redis st) (fst clk) sid r1 = Some (r', row) \<and>
    (case row of
       Inl _ \<Rightarrow> rs_status resp = 404 \<and> s' = s
     | Inr snap \<Rightarrow> st_read_log (s3_store L S) sid s = Some (s', x) \<and>
         (case x of
            Inl e \<Rightarrow> rs_status resp = 503 \<and> rs_body resp = ErrorBody ''retryable'' (StoreE e) True
          | Inr _ \<Rightarrow>
              if valid_log L evs
              then rs_status resp = 200 \<and> (\<exists>j c. rs_body resp = JsonBody j \<and> jget j ''cursor'' = Some c \<and>
                jget c ''tip_hash'' = Some (JStr (log_tip evs)) \<and> jget c ''last_turn_id'' = Some (ju64 (unwrap_or (sn_last_turn_id snap) 0)) \<and>
                jget c ''epoch'' = Some (ju64 (unwrap_or (sn_epoch snap) 0)))
              else rs_status resp = 409 \<and> (\<exists>e. rs_body resp = ErrorBody ''integrity_hold'' (IntegrityHold e) False)))"
proof -
  have allow: "api_allow st clk headers sid VLoad (reg, s, r) = Some ((reg, s, r1), Inr p)"
    using api_allow_run [OF assms(7)] by (simp add: map_err_def)
  obtain r' row where snap: "snapshot (as_redis st) (fst clk) sid r1 = Some (r', row)"
    "on_snd (on_snd (snapshot (as_redis st) (fst clk) sid)) (reg, s, r1) = Some ((reg, s, r'), row)" by (rule snapshot_at_log)
  show ?thesis
  proof (cases row)
    case (Inl e)
    with allow snap assms(3) show ?thesis
      by (auto simp: serve_def route_handler_def load_session_def session_row_def pbind_def pmap_err_def pmatch_def error_response_def error_class_def)
  next
    case (Inr sn)
    have "s3_holds S objs after s sid (print_log L evs)" using assms(1,3) by (simp add: s3_holds_def)
    then obtain s' x where rd: "st_read_log (s3_store L S) sid s = Some (s', x)" "s3_holds S objs after s' sid (print_log L evs)"
      "read_values_of L (s3_store L S) sid (reg, s, r') = Some ((reg, s', r'), case x of Inr _ \<Rightarrow> Inr evs | Inl e \<Rightarrow> Inl (StoreE e))"
      by (rule s3c.read_values_run [OF assms(2,4)])
    have log: "has_log (objs s') sid (print_log L evs)" using rd(2) by (simp add: s3_holds_def)
    have row: "session_row st clk sid (reg, s, r1) = Some ((reg, s, r'), Inr sn)"
      using snap(2) Inr by (simp add: session_row_def pmap_err_def pmatch_def)
    show ?thesis
    proof (cases x)
      case x: (Inl e)
      with allow row rd snap(1) Inr log show ?thesis
        by (auto simp: serve_def route_handler_def load_session_def assms(5,6) pbind_def error_response_def error_class_def)
    next
      case x: (Inr out)
      show ?thesis
      proof (cases "valid_log L evs")
        case True
        then have "fsck L evs = Inr (of_nat (length evs), log_tip evs)" by (simp add: fsck_Inr)
        with allow row rd snap(1) Inr log x True show ?thesis
          by (simp add: serve_def route_handler_def load_session_def assms(5,6) pbind_def map_err_def ok_json_def jobject_def)
      next
        case False
        then obtain e where "fsck L evs = Inl e" using fsck_Inr by (cases "fsck L evs") auto
        with allow row rd snap(1) Inr log x False show ?thesis
          by (auto simp: serve_def route_handler_def load_session_def assms(5,6) pbind_def map_err_def error_response_def error_class_def)
      qed
    qed
  qed
qed

text \<open>
  C16. An acknowledged append is in the log. An authorized append on a session with a live writer
  always returns, and the log afterwards is the old one with at most one event added. The answer
  200 \<open>committed\<close> carries the hash of the event that is now the last one, sealed on the writer's
  tip; 200 \<open>duplicate\<close> means nothing was added. A store failure, after which the event may or may
  not be in the log, is answered 400 with \<open>retryable\<close> false.
\<close>

theorem append_acknowledged_durable:
  assumes "s3_laws S objs after" and "serde_laws L" and "has_log (objs s) sid (print_log L evs)"
    and "body_ok body" and "Suc (length evs) < 2 ^ 64" and "reg sid = Some wr"
    and "as_libs st = L" and "as_store st = s3_store L S"
    and "as_authz st (fst clk) (token_of headers) sid VAppend r = Some (r1, Inr p)"
  shows "\<exists>reg' s' r' resp es e h ch. serve st clk sid headers (Events_post body) (reg, s, r) = Some ((reg', s', r'), resp) \<and>
    has_log (objs s') sid (print_log L (evs @ es)) \<and> seal L body (w_tip wr) = Inr e \<and> str_field e ''hash'' = Some h \<and>
    (es = [] \<or> es = [e]) \<and>
    (case rs_body resp of
       JsonBody j \<Rightarrow> rs_status resp = 200 \<and>
         (es = [e] \<and> jidx j ''status'' = JStr ''committed'' \<and> jidx j ''hash'' = JStr h \<or>
          es = [] \<and> jidx j ''status'' = JStr ''duplicate'' \<and> jidx j ''hash'' = JStr ch \<and> compute_content_hash L body = Inr ch)
     | ErrorBody code err again \<Rightarrow>
         rs_status resp = 503 \<and> es = [] \<and> (\<exists>y. err = IndexE y) \<or>
         rs_status resp = 400 \<and> \<not> again \<and> (\<exists>x. retryable x \<and> err = Invalid (AppendRetryable x))
     | _ \<Rightarrow> False)"
proof -
  from assms(4) obtain m where m: "body = JObj m" "jwf (JObj m)" "no_float (JObj m)" by (auto simp: body_ok_def)
  from seal_object [OF assms(2) m(2) no_float_obj_float_free [OF m(3)]] content_hash_object [OF assms(2) m(2) no_float_obj_float_free [OF m(3)]]
  obtain e h ch where e: "seal L body (w_tip wr) = Inr e" "str_field e ''hash'' = Some h" "compute_content_hash L body = Inr ch"
    unfolding m(1) using m(2) by (fastforce simp: bt_simps)
  have "\<exists>r. at_log (s3_holds S objs after) L sid evs reg r (reg, s, r1)" using assms(1,3) by (simp add: at_log_def s3_holds_def)
  from hoareE [OF hoare_stamp_owner this] obtain w2 x where stamp: "stamp_owner st clk sid p (reg, s, r1) = Some (w2, x)"
    and "\<exists>r. at_log (s3_holds S objs after) L sid evs reg r w2" by blast
  then obtain s2 r2 where s2: "w2 = (reg, s2, r2)" "s3_holds S objs after s2 sid (print_log L evs)" by (auto simp: at_log_def)
  have allow: "api_allow st clk headers sid VAppend (reg, s, r) = Some ((reg, s, r1), Inr p)"
    using api_allow_run [OF assms(9)] by (simp add: map_err_def)
  show ?thesis
  proof (cases x)
    case (Inl err)
    with stamp have "\<exists>y. err = IndexE y"
      by (auto simp: stamp_owner_def pmatch_def pmap_err_def Let_def split: if_splits option.splits sum.splits)
    with Inl stamp allow s2 e show ?thesis
      by (auto simp: serve_def route_handler_def append_event_def pbind_def error_response_def error_class_def s3_holds_def)
  next
    case (Inr u)
    from s3c.step_spec [OF assms(2) m(2) no_float_obj_float_free [OF m(3)] s2(2) assms(5), of "as_redis st" clk wr r2]
    obtain s' r' wr' reply where ws: "writer_step L (s3_store L S) (as_redis st) clk sid body wr (s2, r2) = Some ((s', r'), wr', reply)"
      "step_post L (s3_holds S objs after s' sid) evs body wr wr' reply" unfolding m(1) by blast
    have "handle_append L (s3_store L S) (as_redis st) clk sid body w2 = Some ((reg(sid \<mapsto> wr'), s', r'), Inr reply)"
      using ws(1) assms(6) s2(1) by (simp add: handle_append_def registry_append_def)
    with Inr stamp allow have run: "serve st clk sid headers (Events_post body) (reg, s, r) =
        Some ((reg(sid \<mapsto> wr'), s', r'), case append_reply reply of Inr resp \<Rightarrow> resp | Inl er \<Rightarrow> error_response er)"
      by (simp add: serve_def route_handler_def append_event_def pbind_def assms(7,8))
    have fields: "jidx (jobject ((''status'', a) # (''hash'', b) # xs)) ''status'' = a \<and> jidx (jobject ((''status'', a) # (''hash'', b) # xs)) ''hash'' = b"
      if "xs = [] \<or> (\<exists>c. xs = [(''turn_id'', c)])" for a b xs
      using that by (auto simp: jobject_def jidx_def)
    from ws(2) e show ?thesis unfolding run step_post_def
      by (cases reply) (auto simp: append_reply_def ok_json_def error_response_def error_class_def s3_holds_def fields
          intro: exI [of _ "[]"] exI [of _ "[e]"])
  qed
qed

text \<open>
  Deleting a session over the API: an authorized delete returns and touches no object of
  another session; after the answer 204 no object of the session is left in the store and no
  later read of its index row succeeds.
\<close>

theorem delete_session_erases:
  assumes "s3_laws S objs after" and "redis_laws (as_redis st) db" and "as_store st = s3_store L S"
    and "as_authz st (fst clk) (token_of headers) sid VDelete r = Some (r1, Inr p)"
  shows "\<exists>s' r' resp. serve st clk sid headers Session_delete (reg, s, r) = Some ((reg, s', r'), resp) \<and>
    outside (session_prefix sid) (objs s') = outside (session_prefix sid) (objs s) \<and>
    (rs_status resp = 204 \<longrightarrow> kept sid (objs s') = [] \<and>
       snd (the (snapshot (as_redis st) ts' sid r')) \<in> {Inl RedisErr, Inl (Missing sid)}) \<and>
    rs_status resp \<in> {204, 404, 503}"
proof -
  have allow: "api_allow st clk headers sid VDelete (reg, s, r) = Some ((reg, s, r1), Inr p)"
    using api_allow_run [OF assms(4)] by (simp add: map_err_def)
  obtain r2 res where snap: "on_snd (on_snd (snapshot (as_redis st) (fst clk) sid)) (reg, s, r1) = Some ((reg, s, r2), res)"
    by (rule snapshot_at_log)
  show ?thesis
  proof (cases res)
    case (Inl err)
    with snap allow show ?thesis
      by (auto simp: serve_def route_handler_def delete_session_def session_row_def pbind_def pmap_err_def pmatch_def error_response_def error_class_def)
  next
    case (Inr row)
    from hard_delete_spec [OF assms(1,2), of L "fst clk" sid "Some (p_owner p)" s r2 ts'] obtain s1 r3 d where
      d: "hard_delete (s3_store L S) (as_redis st) (fst clk) sid (Some (p_owner p)) (s, r2) = Some ((s1, r3), d)"
        "outside (session_prefix sid) (objs s1) = outside (session_prefix sid) (objs s)"
        "is_ok d \<longrightarrow> kept sid (objs s1) = [] \<and> snd (the (snapshot (as_redis st) ts' sid r3)) \<in> {Inl RedisErr, Inl (Missing sid)}" by blast
    from d(1) have "\<forall>er. d = Inl er \<longrightarrow> (\<exists>y. er = StoreE y) \<or> (\<exists>y. er = IndexE y)"
      by (auto simp: hard_delete_def pbind_def pmap_err_def pmatch_def split: option.splits sum.splits)
    with Inr snap allow d assms(3) show ?thesis
      by (cases d) (auto simp: serve_def route_handler_def delete_session_def session_row_def pbind_def pmap_err_def pmatch_def
          error_response_def error_class_def on_snd_def [of "hard_delete _ _ _ _ _"])
  qed
qed

text \<open>
  C40. An append under another owner takes the session over. When a caller that is not a pod is let
  through on a session whose row names somebody else (an admin token, or a user token while the
  row could not be read), the row is written anew before the event is logged: the owner is now the
  caller, and the turn, the event count and the epoch start again at zero.
\<close>

theorem foreign_append_takes_session:
  assumes "redis_laws (as_redis st) db" and "deadline (db r) (session_key sid) = None" and "p_scope p \<noteq> Pod"
    and "keyspace (db r) (session_key sid) = Some (RHash row)" and "row ''owner'' \<noteq> Some (p_owner p)"
    and "stamp_owner st clk sid p (reg, s, r) = Some ((reg', s', r'), Inr ())"
    and "snapshot (as_redis st) ts' sid r' = Some (r2, Inr new)"
  shows "sn_owner new = Some (p_owner p) \<and> sn_last_turn_id new = Some 0 \<and> sn_event_count new = Some 0 \<and> sn_epoch new = Some 0"
proof -
  let ?R = "as_redis st" and ?k = "session_key sid" and ?ow = "owner_sessions_key (p_owner p)"
  obtain ra res where snap: "snapshot ?R (fst clk) sid r = Some (ra, res)"
    "on_snd (on_snd (snapshot ?R (fst clk) sid)) (reg, s, r) = Some ((reg, s, ra), res)" by (rule snapshot_at_log)
  from snapshot_spec [OF assms(1), of "fst clk" sid r] snap(1) have da: "db ra = purge (fst clk) (db r)" by auto
  have "\<forall>sn. res = Inr sn \<longrightarrow> sn = snapshot_of row"
    using snapshot_reads [OF assms(1,4,2)] snap(1) by blast
  then have "\<forall>sn. res = Inr sn \<longrightarrow> sn_owner sn = row ''owner''" by (auto simp: snapshot_of_def)
  with assms(3,5,6) snap(2) have "create_session ?R (fst clk) sid (p_owner p) (snd clk) ra = Some (r', Inr ())"
    by (cases res) (auto simp: stamp_owner_def pmatch_def pmap_err_def on_snd_def split: option.splits sum.splits)
  then obtain rb a b where c: "icmd ?R (fst clk) (HSet ?k [(''owner'', p_owner p), (''created_at'', snd clk), (''last_turn_id'', ''0''),
      (''event_count'', ''0''), (''epoch'', ''0''), (''updated_at'', snd clk)]) ra = Some (rb, Inr a)"
    "icmd_as reply_int ?R (fst clk) (ZAdd ?ow sid (fst clk)) rb = Some (r', Inr b)"
    by (auto simp: create_session_def pbind_Inr)
  from icmd_hset_Inr [OF assms(1) c(1)] obtain h where
    h: "db rb = put_key ?k (RHash (h ++ map_of (rev [(''owner'', p_owner p), (''created_at'', snd clk), (''last_turn_id'', ''0''),
      (''event_count'', ''0''), (''epoch'', ''0''), (''updated_at'', snd clk)]))) (purge (fst clk) (db ra))"
      "purge (fst clk) (db rb) = db rb" .
  from icmd_as_Inr(1) [OF assms(1) c(2), unfolded h(2)] obtain z where z: "db r' = put_key ?ow (RZSet z) (db rb)" by (auto dest: sym)
  have "keyspace (db r') ?k = keyspace (db rb) ?k" "deadline (db r') ?k = None"
    using z h(1) da assms(2) owner_not_session [of "p_owner p" sid] by (auto simp: deadline_purge_None)
  with h(1) have row': "keyspace (db r') ?k = Some (RHash (h ++ map_of (rev [(''owner'', p_owner p), (''created_at'', snd clk), (''last_turn_id'', ''0''),
      (''event_count'', ''0''), (''epoch'', ''0''), (''updated_at'', snd clk)])))" "deadline (db r') ?k = None" by simp_all
  have "parse_u64 ''0'' = Some 0" by code_simp
  with snapshot_reads [OF assms(1) row' assms(7)] show ?thesis by (simp add: snapshot_of_def map_add_def)
qed

subsection \<open>Witnesses\<close>

text \<open>The service of \<open>dev_state\<close>, with the permissive authorizer, and the one with tokens.\<close>

definition dev_state :: "(bucket, mem) api_state" where
  "dev_state = \<lparr>as_libs = ref_libs, as_store = srv, as_redis = rds, as_event_of = event_of0, as_cfg = cfg0,
     as_authz = (\<lambda>now token sid v. pof (mem_permissive_allow token sid v))\<rparr>"

definition token_state :: "(bucket, mem) api_state" where
  "token_state = dev_state\<lparr>as_authz := mem_allow ref_crypto rds ''pp''\<rparr>"

definition headers0 :: "string \<rightharpoonup> bytes" where
  "headers0 = [''authorization'' \<mapsto> ''Bearer x'']"

lemma token_headers0: "token_of headers0 = ''x''" "token_of Map.empty = []"
  by code_simp+

lemma dev_allow: "as_authz dev_state now (token_of headers0) sid v r = Some (r, Inr \<lparr>p_owner = ''dev'', p_scope = User\<rparr>)"
  by (simp add: dev_state_def token_headers0 mem_permissive_allow_def)

lemma denied_request_changes_nothing_witness:
  "\<exists>resp. serve token_state (1, ''t'') ''s1'' Map.empty Session_delete (Map.empty, bucket1, alice_db) = Some ((Map.empty, bucket1, alice_db), resp) \<and>
    rs_status resp = 401"
proof -
  have a: "as_authz token_state = mem_allow ref_crypto rds ''pp''" by (simp add: token_state_def)
  have d: "mem_allow ref_crypto rds ''pp'' (fst (1, ''t'')) (token_of Map.empty) ''s1'' (route_verb Session_delete) alice_db = Some (alice_db, Inl MissingToken)"
    by (simp add: mem_allow_def token_headers0)
  from denied_request_changes_nothing [OF a d, of Map.empty bucket1] token_headers0(2) show ?thesis by metis
qed

lemma load_returns_verified_tip_witness:
  "\<exists>s' r' resp x. serve dev_state (1, ''t'') ''s1'' headers0 Load_post (Map.empty, bucket1, redis_at 1) = Some ((Map.empty, s', r'), resp) \<and>
    st_read_log srv ''s1'' bucket1 = Some (s', x) \<and> rs_status resp = (if is_ok x then 200 else 503) \<and> valid_log ref_libs [sealed0]"
proof -
  have st: "as_libs dev_state = ref_libs" "as_store dev_state = s3_store ref_libs mem_s3" "as_redis dev_state = rds" by (simp_all add: dev_state_def)
  obtain s' r' resp row x where run: "serve dev_state (1, ''t'') ''s1'' headers0 Load_post (Map.empty, bucket1, redis_at 1) = Some ((Map.empty, s', r'), resp)"
    "snapshot rds (fst (1, ''t'')) ''s1'' (redis_at 1) = Some (r', row)"
    and row: "case row of
       Inl _ \<Rightarrow> rs_status resp = 404 \<and> s' = bucket1
     | Inr snap \<Rightarrow> st_read_log srv ''s1'' bucket1 = Some (s', x) \<and>
         (case x of
            Inl e \<Rightarrow> rs_status resp = 503 \<and> rs_body resp = ErrorBody ''retryable'' (StoreE e) True
          | Inr _ \<Rightarrow>
              if valid_log ref_libs [sealed0]
              then rs_status resp = 200 \<and> (\<exists>j c. rs_body resp = JsonBody j \<and> jget j ''cursor'' = Some c \<and>
                jget c ''tip_hash'' = Some (JStr (log_tip [sealed0])) \<and> jget c ''last_turn_id'' = Some (ju64 (unwrap_or (sn_last_turn_id snap) 0)) \<and>
                jget c ''epoch'' = Some (ju64 (unwrap_or (sn_epoch snap) 0)))
              else rs_status resp = 409 \<and> (\<exists>e. rs_body resp = ErrorBody ''integrity_hold'' (IntegrityHold e) False))"
    using load_returns_verified_tip [where clk = "(1, ''t'')" and r = "redis_at 1" and reg = Map.empty, OF mem_s3_laws ref_serde bucket1_log compact0(2) st(1,2) dev_allow]
    unfolding st(3) by blast
  from run(2) snap_at_facts(1) have "row = Inr (snap_at 1)" by simp
  with row run(1) sealed0_facts(3) show ?thesis by (cases x) auto
qed

lemma append_acknowledged_durable_witness:
  "\<exists>reg' s' r' resp es. serve dev_state (1, ''t'') ''s1'' headers0 (Events_post (JObj body1)) ([''s1'' \<mapsto> writer0], bucket1, redis_at 1) =
      Some ((reg', s', r'), resp) \<and>
    has_log (bucket_objs s') ''s1'' (print_log ref_libs ([sealed0] @ es)) \<and> length es \<le> 1"
proof -
  have "([''s1'' \<mapsto> writer0] :: registry) ''s1'' = Some writer0" by simp
  from append_acknowledged_durable [where reg = "[''s1'' \<mapsto> writer0]" and sid = "''s1''" and wr = writer0, OF mem_s3_laws ref_serde bucket1_log bodies_ok(2) _ this _ _ dev_allow, of "(1, ''t'')" "redis_at 1"]
  show ?thesis by (fastforce simp: dev_state_def)
qed

lemma delete_session_erases_witness:
  "\<exists>s' r' resp. serve dev_state (1, ''t'') ''s1'' headers0 Session_delete (Map.empty, bucket1, redis_at 1) = Some ((Map.empty, s', r'), resp) \<and>
    (rs_status resp = 204 \<longrightarrow> kept ''s1'' (bucket_objs s') = [])"
proof -
  have "redis_laws (as_redis dev_state) mem_abs" by (simp add: dev_state_def mem_redis_laws)
  from delete_session_erases [OF mem_s3_laws this, of ref_libs "(1, ''t'')" headers0 "''s1''"] dev_allow
  show ?thesis by (fastforce simp: dev_state_def)
qed

lemma tenant_alice: "\<exists>h. keyspace (mem_abs alice_db) (session_key ''s1'') = Some (RHash h) \<and> h ''owner'' = Some ''alice''"
proof -
  have "(case map_of alice_db (session_key ''s1'') of Some (MHash fs, dl) \<Rightarrow> map_of fs ''owner'' = Some ''alice'' | _ \<Rightarrow> False)" by code_simp
  then obtain fs dl where "map_of alice_db (session_key ''s1'') = Some (MHash fs, dl)" "map_of fs ''owner'' = Some ''alice''"
    by (auto split: option.splits mval.splits)
  then show ?thesis by (simp add: mem_abs_def mval_abs_def)
qed

definition root :: principal where
  "root = \<lparr>p_owner = ''root'', p_scope = Admin\<rparr>"

definition taken0 :: "((bucket, mem) service \<times> (memoryd_error + unit)) option" where
  "taken0 = stamp_owner token_state (4, ''t4'') ''s1'' root (Map.empty, bucket1, alice_db)"

lemma foreign_append_takes_session_witness:
  "\<exists>r' r2 new. snapshot rds 5 ''s1'' r' = Some (r2, Inr new) \<and> sn_owner new = Some ''root'' \<and> sn_epoch new = Some 0"
proof -
  let ?r = "snd (snd (fst (the taken0)))"
  have t: "(case taken0 of Some ((reg, s, r), Inr u) \<Rightarrow> (case snapshot rds 5 ''s1'' r of Some (r2, Inr new) \<Rightarrow> True | _ \<Rightarrow> False) | _ \<Rightarrow> False)"
    by code_simp
  then obtain reg' s' r' r2 new where run: "stamp_owner token_state (4, ''t4'') ''s1'' root (Map.empty, bucket1, alice_db) = Some ((reg', s', r'), Inr ())"
    and snap: "snapshot rds 5 ''s1'' r' = Some (r2, Inr new)"
    by (auto simp: taken0_def split: option.splits prod.splits sum.splits)
  have R: "as_redis token_state = rds" by (simp add: token_state_def dev_state_def)
  have d: "deadline (mem_abs alice_db) (session_key ''s1'') = None" by code_simp
  obtain row where row: "keyspace (mem_abs alice_db) (session_key ''s1'') = Some (RHash row)" "row ''owner'' = Some ''alice''"
    using tenant_alice by auto
  from foreign_append_takes_session [where st = token_state, unfolded R, OF mem_redis_laws d _ row(1) _ run snap] row(2)
  show ?thesis using snap by (auto simp: root_def)
qed

end
