(* ===== verification/Signal.thy ===== *)
theory Signal
  imports RateLimit Router
begin

text \<open>
  \<open>crates/orchestrator/src/signal.rs\<close> and \<open>signal_route.rs\<close>: the signalling relay between a client
  and its pod. A run of the relay is a function of the events it sees, in the order it sees them:
  frames of the client with the time they arrive, frames of the pod with whether the client could
  be reached, and the end of either side. The texts of errors (\<open>describe\<close>, derived code) and the
  outcome of dialling the pod are arguments, and so is what other tasks do to the shared state while
  the pumps run (\<open>env\<close>). Log lines are left out.
\<close>

subsection \<open>Frames\<close>

datatype ws_message = WText string | WBinary string | WPing | WPong | WClose

definition MAX_FRAME_BYTES :: nat where
  "MAX_FRAME_BYTES = 16 * 1024"

definition MAX_STRIKES :: nat where
  "MAX_STRIKES = 3"

definition arrow :: string where
  "arrow = [CHR 0xE2, CHR 0x86, CHR 0x92]"

fun is_string :: "json \<Rightarrow> bool" where
  "is_string (JStr s) = True"
| "is_string _ = False"

definition validate_client_frame :: "json \<Rightarrow> string + unit" where
  "validate_client_frame v =
     rbind (ok_or (as_str (jidx v ''t'')) ''missing t'') (\<lambda>t.
     if t = ''offer'' then (if is_string (jidx v ''sdp'') then Inr () else Inl ''offer.sdp must be string'')
     else if t = ''ice'' then (if as_object (jidx v ''candidate'') \<noteq> None then Inr () else Inl ''ice.candidate must be object'')
     else if t = ''caption'' then Inl (''caption is server'' @ arrow @ ''client only'')
     else Inl (''unknown message type: '' @ t))"

definition strike_reason :: "string \<Rightarrow> json option \<Rightarrow> string + unit" where
  "strike_reason text v =
     (if length text > MAX_FRAME_BYTES then Inl (''frame exceeds '' @ show_nat MAX_FRAME_BYTES @ '' bytes'')
      else (case v of Some v \<Rightarrow> validate_client_frame v | None \<Rightarrow> Inl ''invalid JSON''))"

definition client_to_pod :: "json \<Rightarrow> string + json option" where
  "client_to_pod v = rbind (validate_client_frame v) (\<lambda>_. Inr (Some v))"

definition state_frame :: "string \<Rightarrow> json" where
  "state_frame st = jobject [(''t'', JStr ''state''), (''v'', JStr st)]"

definition revoke_frame :: "string \<Rightarrow> string \<Rightarrow> json" where
  "revoke_frame session_id connection_id =
     jobject [(''t'', JStr ''revoke''), (''session_id'', JStr session_id), (''connection_id'', JStr connection_id)]"

record turn_config =
  tc_url :: string
  tc_user :: string
  tc_pass :: string

definition turn_frame :: "turn_config option \<Rightarrow> json option" where
  "turn_frame cfg = map_option (\<lambda>c.
     jobject [(''t'', JStr ''turn''),
       (''cfg'', jobject [(''turn_url'', JStr (tc_url c)), (''user'', JStr (tc_user c)), (''pass'', JStr (tc_pass c))])]) cfg"

subsection \<open>The stand-alone read loop\<close>

text \<open>What the loop hands to its sink, message by message, until the stream ends or the strikes are used up.\<close>

definition invalid_frame :: "string \<Rightarrow> json" where
  "invalid_frame e = jobject [(''t'', JStr ''error''), (''code'', JStr ''invalid''), (''message'', JStr e)]"

fun client_read_loop :: "libs \<Rightarrow> nat \<Rightarrow> ws_message list \<Rightarrow> (string + json) list" where
  "client_read_loop L strikes [] = []"
| "client_read_loop L strikes (msg # msgs) =
     (let struck = (if strikes + 1 \<ge> MAX_STRIKES then [] else client_read_loop L (strikes + 1) msgs) in
      case msg of
        WText text \<Rightarrow>
          if length text > MAX_FRAME_BYTES then struck
          else (case from_slice L text of
                  Some v \<Rightarrow>
                    (case client_to_pod v of
                       Inl e \<Rightarrow> if strikes + 1 \<ge> MAX_STRIKES then [] else Inr (invalid_frame e) # struck
                     | Inr _ \<Rightarrow> Inl text # client_read_loop L strikes msgs)
                | None \<Rightarrow> struck)
      | WBinary _ \<Rightarrow> struck
      | _ \<Rightarrow> client_read_loop L strikes msgs)"

subsection \<open>Relay routes\<close>

record relay_route =
  rr_pod_id :: string
  rr_session_id :: string

type_synonym relay = "string \<rightharpoonup> relay_route"

definition relay_bind :: "string \<Rightarrow> string \<Rightarrow> string \<Rightarrow> relay \<Rightarrow> relay" where
  "relay_bind connection_id pod_id session_id rl =
     rl(connection_id \<mapsto> \<lparr>rr_pod_id = pod_id, rr_session_id = session_id\<rparr>)"

definition relay_unbind :: "string \<Rightarrow> relay \<Rightarrow> relay" where
  "relay_unbind connection_id rl = rl(connection_id := None)"

subsection \<open>Authentication of a socket\<close>

definition FIRST_MESSAGE :: string where
  "FIRST_MESSAGE = ''first message must be an auth frame (browser WS cannot send headers)''"

definition parse_auth_frame :: "json \<Rightarrow> string + string" where
  "parse_auth_frame v =
     (if jidx v ''t'' \<noteq> JStr ''auth'' then Inl FIRST_MESSAGE
      else rbind (ok_or (as_str (jidx v ''token'')) ''auth frame missing token'') (\<lambda>token.
        if token = [] then Inl ''auth frame missing token'' else Inr token))"

text \<open>The outcome of \<open>recv\<close>: the end of the stream, a read error with its text, or a message.\<close>

definition first_auth_frame :: "libs \<Rightarrow> (string + ws_message) option \<Rightarrow> string + string" where
  "first_auth_frame L received =
     rbind (ok_or received ''connection closed before auth'') (\<lambda>m.
     rbind (map_err (\<lambda>e. ''auth frame read error: '' @ e) m) (\<lambda>msg.
     case msg of
       WText t \<Rightarrow> rbind (ok_or (from_slice L t) ''first message must be JSON'') parse_auth_frame
     | _ \<Rightarrow> Inl FIRST_MESSAGE))"

subsection \<open>The pumps\<close>

datatype relay_event = FromClient instant ws_message | ClientEnds | FromPod ws_message bool | PodEnds

datatype relay_out = ToPod string | ToClient string | Tell json

definition bad_signal :: "string \<Rightarrow> json" where
  "bad_signal reason = jobject [(''t'', JStr ''error''), (''code'', JStr ''bad_signal''), (''message'', JStr reason), (''retryable'', JBool False)]"

definition rate_limited :: json where
  "rate_limited = jobject [(''t'', JStr ''error''), (''code'', JStr ''rate_limited''),
     (''message'', JStr ''signaling rate limit exceeded''), (''retryable'', JBool True)]"

text \<open>
  One frame of the client: the new strikes and rate table, what is sent, and whether the pump ends.
\<close>

definition client_frame ::
    "libs \<Rightarrow> string \<Rightarrow> instant \<Rightarrow> ws_message \<Rightarrow> nat \<times> rate_limiter \<Rightarrow> (nat \<times> rate_limiter) \<times> relay_out list \<times> bool" where
  "client_frame L key now msg st =
     (case (msg, st) of
        (WText text, (strikes, rl)) \<Rightarrow>
          (case strike_reason text (from_slice L text) of
             Inl reason \<Rightarrow>
               if strikes + 1 \<ge> MAX_STRIKES then ((strikes + 1, rl), [Tell (bad_signal reason)], True)
               else ((strikes + 1, rl), [], False)
           | Inr _ \<Rightarrow>
               (case check_at key Signal now rl of
                  (rl', Inl _) \<Rightarrow> ((strikes, rl'), [Tell rate_limited], True)
                | (rl', Inr _) \<Rightarrow> ((strikes, rl'), [ToPod text], False)))
      | _ \<Rightarrow> (st, [], False))"

fun pod_frame :: "ws_message \<Rightarrow> bool \<Rightarrow> relay_out list \<times> bool" where
  "pod_frame (WText text) ok = (if ok then [ToClient text] else [], \<not> ok)"
| "pod_frame WClose ok = ([], True)"
| "pod_frame _ ok = ([], False)"

text \<open>
  Both pumps on the events in the order they happen, until either ends; the flag says whether one
  has ended when the events are used up.
\<close>

fun relay_run ::
    "libs \<Rightarrow> string \<Rightarrow> nat \<times> rate_limiter \<Rightarrow> relay_event list \<Rightarrow> (nat \<times> rate_limiter) \<times> relay_out list \<times> bool" where
  "relay_run L key st [] = (st, [], False)"
| "relay_run L key st (ev # evs) =
     (let (st', out, stop) = (case ev of
            FromClient now msg \<Rightarrow> client_frame L key now msg st
          | FromPod msg ok \<Rightarrow> (st, pod_frame msg ok)
          | ClientEnds \<Rightarrow> (st, [], True)
          | PodEnds \<Rightarrow> (st, [], True)) in
      if stop then (st', out, True)
      else (let (st'', rest, ended) = relay_run L key st' evs in (st'', out @ rest, ended)))"

subsection \<open>One socket\<close>

datatype dial = Dialed | DialFailed string | DialTimeout

definition pod_ws_url :: "string \<Rightarrow> string \<Rightarrow> string \<Rightarrow> string" where
  "pod_ws_url addr pod_key connection_id =
     (let scheme = (if starts_with addr ''https://'' then ''wss://'' else ''ws://'');
          host = (case strip_prefix addr ''https://'' of
                    Some h \<Rightarrow> h
                  | None \<Rightarrow> (case strip_prefix addr ''http://'' of Some h \<Rightarrow> h | None \<Rightarrow> addr)) in
      scheme @ host @ ''/internal/pods/'' @ pod_key @ ''/signal?connection_id='' @ connection_id)"

record 'r signal_state =
  ss_relay :: relay
  ss_channels :: channels
  ss_registry :: pod_registry
  ss_rates :: rate_limiter
  ss_redis :: 'r

text \<open>A frame pushed to the pod's assign channel, if it is connected.\<close>

definition push_frame :: "string \<Rightarrow> json \<Rightarrow> channels \<Rightarrow> channels" where
  "push_frame pod frame ch = (case ch pod of Some sent \<Rightarrow> ch(pod \<mapsto> sent @ [frame]) | None \<Rightarrow> ch)"

definition tear_down :: "string \<Rightarrow> relay_route \<Rightarrow> 'r signal_state \<Rightarrow> 'r signal_state" where
  "tear_down connection_id route w =
     w\<lparr>ss_channels := push_frame (rr_pod_id route) (revoke_frame (rr_session_id route) connection_id) (ss_channels w),
       ss_relay := relay_unbind connection_id (ss_relay w)\<rparr>"

definition error_frame :: "string \<Rightarrow> string \<Rightarrow> json" where
  "error_frame c message = jobject [(''t'', JStr ''error''), (''code'', JStr c), (''message'', JStr message)]"

definition auth_error_frame :: "string \<Rightarrow> string \<Rightarrow> bool \<Rightarrow> json" where
  "auth_error_frame c message again =
     jobject [(''t'', JStr ''error''), (''code'', JStr c), (''message'', JStr message), (''retryable'', JBool again)]"

text \<open>The token of the socket: the header's, or the first frame's once it is allowed.\<close>

definition socket_token ::
    "libs \<Rightarrow> crypto \<Rightarrow> 'r redis \<Rightarrow> string \<Rightarrow> (orch_error \<Rightarrow> string) \<Rightarrow> int \<Rightarrow> string option \<Rightarrow> (string + ws_message) option \<Rightarrow>
     'r signal_state \<Rightarrow> 'r signal_state \<times> (json + string)" where
  "socket_token L C R pepper describe now header_token received w =
     (case header_token of
        Some t \<Rightarrow> (w, Inr t)
      | None \<Rightarrow>
          (case first_auth_frame L received of
             Inl msg \<Rightarrow> (w, Inl (auth_error_frame ''unauthenticated'' msg False))
           | Inr tok \<Rightarrow>
               (case allow C R pepper now tok VSession (ss_redis w) of
                  (r', Inl e) \<Rightarrow> (w\<lparr>ss_redis := r'\<rparr>, Inl (auth_error_frame (code e) (describe e) (orch_retryable e)))
                | (r', Inr _) \<Rightarrow> (w\<lparr>ss_redis := r'\<rparr>, Inr tok))))"

text \<open>The relay of an authenticated socket, from the look-up of its route to the end of the pumps.\<close>

definition relay_socket ::
    "libs \<Rightarrow> crypto \<Rightarrow> (string \<Rightarrow> dial) \<Rightarrow> ('r signal_state \<Rightarrow> 'r signal_state) \<Rightarrow> relay_event list \<Rightarrow> string \<Rightarrow> string \<Rightarrow>
     'r signal_state \<Rightarrow> 'r signal_state \<times> relay_out list \<times> bool" where
  "relay_socket L C dial_pod env events connection_id token w =
     (let rate_key = unwrap_or (token_id C token) token in
      case ss_relay w connection_id of
        None \<Rightarrow> (w, [Tell (error_frame ''not_found'' ''no assignment for connection'')], True)
      | Some route \<Rightarrow>
          (case get_pod (rr_pod_id route) (ss_registry w) of
             None \<Rightarrow> (tear_down connection_id route w, [Tell (error_frame ''no_capacity'' ''pod gone'')], True)
           | Some pod \<Rightarrow>
               (case dial_pod (pod_ws_url (ps_addr pod) (rr_pod_id route) connection_id) of
                  DialFailed e \<Rightarrow> (tear_down connection_id route w, [Tell (error_frame ''upstream'' e)], True)
                | DialTimeout \<Rightarrow> (tear_down connection_id route w, [Tell (error_frame ''upstream'' ''pod signal dial timed out'')], True)
                | Dialed \<Rightarrow>
                    (let ((strikes, rl), out, ended) = relay_run L rate_key (0, ss_rates w) events;
                         w1 = env (w\<lparr>ss_rates := rl\<rparr>) in
                     (if ended then tear_down connection_id route w1 else w1, Tell (state_frame ''assigning'') # out, ended)))))"

definition handle_signal ::
    "libs \<Rightarrow> crypto \<Rightarrow> 'r redis \<Rightarrow> string \<Rightarrow> (orch_error \<Rightarrow> string) \<Rightarrow> int \<Rightarrow> (string \<Rightarrow> dial) \<Rightarrow> ('r signal_state \<Rightarrow> 'r signal_state) \<Rightarrow> string \<Rightarrow> string option \<Rightarrow>
     (string + ws_message) option \<Rightarrow> relay_event list \<Rightarrow> 'r signal_state \<Rightarrow> 'r signal_state \<times> relay_out list \<times> bool" where
  "handle_signal L C R pepper describe now dial_pod env connection_id header_token received events w =
     (case socket_token L C R pepper describe now header_token received w of
        (w1, Inl frame) \<Rightarrow> (w1, [Tell frame], True)
      | (w1, Inr token) \<Rightarrow> relay_socket L C dial_pod env events connection_id token w1)"

text \<open>The upgrade: a header token is checked before the socket is opened; \<open>Inl\<close> is the body of the refusal.\<close>

definition signal_socket ::
    "libs \<Rightarrow> crypto \<Rightarrow> 'r redis \<Rightarrow> string \<Rightarrow> (orch_error \<Rightarrow> string) \<Rightarrow> int \<Rightarrow> (string \<Rightarrow> dial) \<Rightarrow> ('r signal_state \<Rightarrow> 'r signal_state) \<Rightarrow> string \<Rightarrow> string option \<Rightarrow>
     (string + ws_message) option \<Rightarrow> relay_event list \<Rightarrow> 'r signal_state \<Rightarrow> 'r signal_state \<times> (json + relay_out list \<times> bool)" where
  "signal_socket L C R pepper describe now dial_pod env connection_id header_token received events w =
     (case header_token of
        Some token \<Rightarrow>
          (case allow C R pepper now token VSession (ss_redis w) of
             (r', Inl e) \<Rightarrow>
               (w\<lparr>ss_redis := r'\<rparr>,
                Inl (jobject [(''error'', jobject [(''code'', JStr (code e)), (''message'', JStr (describe e)), (''retryable'', JBool (orch_retryable e))])]))
           | (r', Inr _) \<Rightarrow>
               (let (w', out) = handle_signal L C R pepper describe now dial_pod env connection_id header_token received events (w\<lparr>ss_redis := r'\<rparr>) in
                (w', Inr out)))
      | None \<Rightarrow>
          (let (w', out) = handle_signal L C R pepper describe now dial_pod env connection_id header_token received events w in
           (w', Inr out)))"

subsection \<open>What the relay lets through\<close>

definition clean :: "libs \<Rightarrow> string \<Rightarrow> bool" where
  "clean L text \<longleftrightarrow> is_ok (strike_reason text (from_slice L text))"

definition client_texts :: "relay_event list \<Rightarrow> string list" where
  "client_texts evs = List.map_filter (\<lambda>e. case e of FromClient now (WText t) \<Rightarrow> Some t | _ \<Rightarrow> None) evs"

definition to_pod :: "relay_out list \<Rightarrow> string list" where
  "to_pod out = List.map_filter (\<lambda>x. case x of ToPod t \<Rightarrow> Some t | _ \<Rightarrow> None) out"

lemmas relay_lists = client_texts_def to_pod_def List.map_filter_simps

lemma to_pod_append: "to_pod (xs @ ys) = to_pod xs @ to_pod ys"
  by (simp add: to_pod_def List.map_filter_def)

lemma clean_iff:
  "clean L text \<longleftrightarrow> length text \<le> MAX_FRAME_BYTES \<and> (\<exists>v. from_slice L text = Some v \<and> is_ok (validate_client_frame v))"
  by (auto simp: clean_def strike_reason_def split: option.splits)

lemma client_frame_cases:
  obtains (skip) "\<nexists>t. msg = WText t" "client_frame L key now msg (k, rl) = ((k, rl), [], False)"
  | (strike) t where "msg = WText t" "\<not> clean L t" "Suc k < MAX_STRIKES" "client_frame L key now msg (k, rl) = ((Suc k, rl), [], False)"
  | (out) t reason where "msg = WText t" "\<not> clean L t" "MAX_STRIKES \<le> Suc k"
      "client_frame L key now msg (k, rl) = ((Suc k, rl), [Tell (bad_signal reason)], True)"
  | (limited) t rl' where "msg = WText t" "clean L t" "check_at key Signal now rl = (rl', Inl ORateLimited)"
      "client_frame L key now msg (k, rl) = ((k, rl'), [Tell rate_limited], True)"
  | (pass) t rl' where "msg = WText t" "clean L t" "check_at key Signal now rl = (rl', Inr ())"
      "client_frame L key now msg (k, rl) = ((k, rl'), [ToPod t], False)"
proof (cases msg)
  case (WText t)
  show thesis
  proof (cases "strike_reason t (from_slice L t)")
    case (Inl reason)
    then have "\<not> clean L t" by (simp add: clean_def)
    with WText Inl strike out show thesis by (cases "MAX_STRIKES \<le> Suc k") (auto simp: client_frame_def)
  next
    case (Inr u)
    then have c: "clean L t" by (simp add: clean_def)
    obtain rl' x where x: "check_at key Signal now rl = (rl', x)" by fastforce
    then have "x = Inl ORateLimited \<or> x = Inr ()" by (auto simp: check_at_def Let_def split: if_splits)
    with c x WText Inr limited pass show thesis by (auto simp: client_frame_def)
  qed
qed (use skip in \<open>auto simp: client_frame_def\<close>)

text \<open>
  What a run has done with the client's frames: the texts it took are a prefix of those that came;
  the clean ones went to the pod in order, except the one that met the rate limit; the others were
  counted, and there were at most three.
\<close>

definition relayed ::
    "libs \<Rightarrow> nat \<Rightarrow> relay_event list \<Rightarrow> nat \<Rightarrow> relay_out list \<Rightarrow> bool \<Rightarrow> bool" where
  "relayed L k evs k' out ended \<longleftrightarrow>
     (\<exists>took left. client_texts evs = took @ left \<and>
        (to_pod out = filter (clean L) took \<or>
         ended \<and> Tell rate_limited \<in> set out \<and> (\<exists>t. to_pod out @ [t] = filter (clean L) took)) \<and>
        k' = k + length (filter (\<lambda>t. \<not> clean L t) took) \<and> k' \<le> MAX_STRIKES \<and>
        (k' = MAX_STRIKES \<longrightarrow> ended \<and> (\<exists>reason. Tell (bad_signal reason) \<in> set out)) \<and>
        (\<not> ended \<longrightarrow> left = []))"

lemma relayed_stop: "k < MAX_STRIKES \<Longrightarrow> to_pod out = [] \<Longrightarrow> relayed L k evs k out True"
  unfolding relayed_def by (intro exI [of _ "[]"] exI [of _ "client_texts evs"]) auto

lemma relayed_cons:
  assumes "relayed L k1 evs k' out ended" and "client_texts (ev # evs) = xs @ client_texts evs"
    and "to_pod out0 = filter (clean L) xs" and "k1 = k + length (filter (\<lambda>t. \<not> clean L t) xs)"
  shows "relayed L k (ev # evs) k' (out0 @ out) ended"
proof -
  from assms(1) obtain took left where
    t: "client_texts evs = took @ left"
      "to_pod out = filter (clean L) took \<or> ended \<and> Tell rate_limited \<in> set out \<and> (\<exists>t. to_pod out @ [t] = filter (clean L) took)"
      "k' = k1 + length (filter (\<lambda>t. \<not> clean L t) took)" "k' \<le> MAX_STRIKES"
      "k' = MAX_STRIKES \<longrightarrow> ended \<and> (\<exists>reason. Tell (bad_signal reason) \<in> set out)" "\<not> ended \<longrightarrow> left = []"
    unfolding relayed_def by blast
  show ?thesis unfolding relayed_def
    by (intro exI [of _ "xs @ took"] exI [of _ left]) (use t assms(2-4) in \<open>auto simp: to_pod_append\<close>)
qed

lemma client_text_other: "\<nexists>t. msg = WText t \<Longrightarrow> client_texts (FromClient now msg # evs) = client_texts evs"
  by (cases msg) (auto simp: relay_lists)

lemma relay_run_relayed:
  assumes "k < MAX_STRIKES" and "relay_run L key (k, rl) evs = ((k', rl'), out, ended)"
  shows "relayed L k evs k' out ended"
  using assms
proof (induction evs arbitrary: k rl k' rl' out ended)
  case Nil
  then show ?case unfolding relayed_def by (intro exI [of _ "[]"]) (auto simp: relay_lists)
next
  case (Cons ev evs)
  have go: "relayed L k (ev # evs) k' out ended"
    if "client_texts (ev # evs) = xs @ client_texts evs" "to_pod out0 = filter (clean L) xs"
      "k1 = k + length (filter (\<lambda>t. \<not> clean L t) xs)" "k1 < MAX_STRIKES"
      "relay_run L key (k, rl) (ev # evs) = (let (st'', rest, en) = relay_run L key (k1, rl1) evs in (st'', out0 @ rest, en))"
    for xs out0 k1 rl1
  proof -
    obtain k2 rl2 rest en where r: "relay_run L key (k1, rl1) evs = ((k2, rl2), rest, en)" by (metis prod.collapse)
    with that(5) Cons.prems(2) have "k' = k2" "out = out0 @ rest" "ended = en" by auto
    with relayed_cons [OF Cons.IH [OF that(4) r] that(1-3)] show ?thesis by simp
  qed
  show ?case
  proof (cases ev)
    case (FromClient now msg)
    show ?thesis
    proof (cases rule: client_frame_cases [of msg L key now k rl])
      case skip
      with FromClient Cons.prems(1) show ?thesis by (intro go [of "[]" "[]" k rl]) (auto simp: client_text_other to_pod_def List.map_filter_simps)
    next
      case (strike t)
      with FromClient show ?thesis by (intro go [of "[t]" "[]" "Suc k" rl]) (auto simp: relay_lists)
    next
      case (out t reason)
      with FromClient Cons.prems show ?thesis unfolding relayed_def
        by (intro exI [of _ "[t]"] exI [of _ "client_texts evs"]) (auto simp: relay_lists)
    next
      case (limited t rl1)
      with FromClient Cons.prems show ?thesis unfolding relayed_def
        by (intro exI [of _ "[t]"] exI [of _ "client_texts evs"]) (auto simp: relay_lists)
    next
      case (pass t rl1)
      with FromClient Cons.prems(1) show ?thesis by (intro go [of "[t]" "[ToPod t]" k rl1]) (auto simp: relay_lists)
    qed
  next
    case (FromPod msg ok)
    then have ct: "client_texts (ev # evs) = client_texts evs" by (simp add: relay_lists)
    have tp: "to_pod (fst (pod_frame msg ok)) = []" by (cases "(msg, ok)" rule: pod_frame.cases) (auto simp: relay_lists)
    show ?thesis
    proof (cases "snd (pod_frame msg ok)")
      case True
      with FromPod Cons.prems(2) have "k' = k" "out = fst (pod_frame msg ok)" "ended" by (auto split: prod.splits)
      with relayed_stop [OF Cons.prems(1) tp] show ?thesis by simp
    next
      case False
      with FromPod Cons.prems(1) ct tp show ?thesis
        by (intro go [of "[]" "fst (pod_frame msg ok)" k rl]) (auto split: prod.splits)
    qed
  qed (use Cons.prems relayed_stop [of k "[]"] in \<open>auto simp: relay_lists(2,3)\<close>)
qed

lemma handle_signal_releases:
  assumes "ss_relay w cid = Some route"
    and "handle_signal L C R pepper describe now dial_pod env cid header_token received events w = (w', out, ended)"
  shows "case snd (socket_token L C R pepper describe now header_token received w) of
      Inl frame \<Rightarrow> out = [Tell frame] \<and> ended \<and> ss_relay w' = ss_relay w \<and> ss_channels w' = ss_channels w
    | Inr token \<Rightarrow>
        (header_token = Some token \<or> is_ok (snd (allow C R pepper now token VSession (ss_redis w)))) \<and>
        (\<exists>u. ss_relay u = ss_relay w \<and> ss_channels u = ss_channels w \<and>
           (ended \<longrightarrow> (\<exists>v \<in> {u, env u}. ss_relay w' = (ss_relay v)(cid := None) \<and>
              ss_channels w' = push_frame (rr_pod_id route) (revoke_frame (rr_session_id route) cid) (ss_channels v))) \<and>
           (\<not> ended \<longrightarrow> w' = env u))"
proof -
  obtain w1 res where tok: "socket_token L C R pepper describe now header_token received w = (w1, res)" by fastforce
  have same: "ss_relay w1 = ss_relay w" "ss_channels w1 = ss_channels w"
    using tok by (auto simp: socket_token_def split: option.splits sum.splits prod.splits)
  show ?thesis
  proof (cases res)
    case (Inl frame)
    with assms(2) tok same show ?thesis by (simp add: handle_signal_def)
  next
    case (Inr token)
    then have "header_token = Some token \<or> is_ok (snd (allow C R pepper now token VSession (ss_redis w)))"
      using tok by (auto simp: socket_token_def split: option.splits sum.splits prod.splits)
    moreover have run: "relay_socket L C dial_pod env events cid token w1 = (w', out, ended)"
      using assms(2) tok Inr by (simp add: handle_signal_def)
    obtain u where u: "ss_relay u = ss_relay w" "ss_channels u = ss_channels w"
      "ended \<longrightarrow> (\<exists>v \<in> {u, env u}. w' = tear_down cid route v)" "\<not> ended \<longrightarrow> w' = env u"
    proof (cases "\<exists>pod. get_pod (rr_pod_id route) (ss_registry w1) = Some pod \<and>
        dial_pod (pod_ws_url (ps_addr pod) (rr_pod_id route) cid) = Dialed")
      case True
      then obtain strikes rl where "w' = (if ended then tear_down cid route (env (w1\<lparr>ss_rates := rl\<rparr>)) else env (w1\<lparr>ss_rates := rl\<rparr>))"
        using run assms(1) same by (auto simp: relay_socket_def Let_def split: prod.splits)
      with same show ?thesis by (intro that [of "w1\<lparr>ss_rates := rl\<rparr>"]) auto
    next
      case False
      then have "w' = tear_down cid route w1 \<and> ended"
        using run assms(1) same by (auto simp: relay_socket_def Let_def split: option.splits dial.splits)
      with same show ?thesis by (intro that [of w1]) auto
    qed
    have td: "ss_relay (tear_down cid route v) = (ss_relay v)(cid := None)"
      "ss_channels (tear_down cid route v) = push_frame (rr_pod_id route) (revoke_frame (rr_session_id route) cid) (ss_channels v)" for v
      by (simp_all add: tear_down_def relay_unbind_def)
    have "\<exists>v \<in> {u, env u}. ss_relay w' = (ss_relay v)(cid := None) \<and>
        ss_channels w' = push_frame (rr_pod_id route) (revoke_frame (rr_session_id route) cid) (ss_channels v)" if ended
      proof -
      from u(3) that obtain v where "v \<in> {u, env u}" "w' = tear_down cid route v" by blast
      then show ?thesis by (intro bexI [of _ v] conjI) (simp_all only: td)
    qed
    with u have "\<exists>u. ss_relay u = ss_relay w \<and> ss_channels u = ss_channels w \<and>
           (ended \<longrightarrow> (\<exists>v \<in> {u, env u}. ss_relay w' = (ss_relay v)(cid := None) \<and>
              ss_channels w' = push_frame (rr_pod_id route) (revoke_frame (rr_session_id route) cid) (ss_channels v))) \<and>
           (\<not> ended \<longrightarrow> w' = env u)" by blast
    ultimately show ?thesis unfolding tok Inr snd_conv sum.case by blast
  qed
qed

lemma relay_run_ended:
  "relay_run L key st evs = (st', out, True) \<Longrightarrow> relay_run L key st (evs @ later) = (st', out, True)"
proof (induction evs arbitrary: st st' out)
  case (Cons ev evs)
  obtain st1 out1 stop where ev: "(case ev of FromClient now msg \<Rightarrow> client_frame L key now msg st | FromPod msg ok \<Rightarrow> (st, pod_frame msg ok)
      | ClientEnds \<Rightarrow> (st, [], True) | PodEnds \<Rightarrow> (st, [], True)) = (st1, out1, stop)" by (metis prod_cases3)
  show ?case
  proof (cases stop)
    case True
    with Cons.prems ev show ?thesis by simp
  next
    case False
    obtain st2 out2 ended where run: "relay_run L key st1 evs = (st2, out2, ended)" by (metis prod_cases3)
    with Cons.prems ev False have "st2 = st'" "out = out1 @ out2" "ended" by auto
    with Cons.IH [of st1 st2 out2] run ev False show ?thesis by simp
  qed
qed simp

subsection \<open>Properties\<close>

text \<open>
  C26. The relay is strict. Of the client's text frames a prefix is read; the pod gets exactly the
  ones of that prefix that are within 16 KiB, parse as JSON and pass the schema, in the order they
  came and unchanged, except the last when it met the rate limit, which ends the socket. The third
  frame that fails ends the socket with \<open>bad_signal\<close>, and no more than three are read.
\<close>

theorem relay_forwards_clean_frames:
  assumes "relay_run L key (0, rl) evs = ((strikes, rl'), out, ended)"
  shows "\<exists>took left. client_texts evs = took @ left \<and>
    (to_pod out = filter (clean L) took \<or>
     ended \<and> Tell rate_limited \<in> set out \<and> (\<exists>t. to_pod out @ [t] = filter (clean L) took)) \<and>
    strikes = length (filter (\<lambda>t. \<not> clean L t) took) \<and> strikes \<le> MAX_STRIKES \<and>
    (strikes = MAX_STRIKES \<longrightarrow> ended \<and> (\<exists>reason. Tell (bad_signal reason) \<in> set out)) \<and>
    (\<not> ended \<longrightarrow> left = [])"
  using relay_run_relayed [OF _ assms] by (simp add: relayed_def MAX_STRIKES_def)

text \<open>
  A socket that was let in gives its slot back. A client that does not authenticate gets one
  error frame and changes neither the routes nor what the pods were sent. Otherwise the token was
  allowed, by the header check or by the first frame, and whichever way the socket ends (the pod is
  gone, the dial fails or times out, either side closes, three strikes, the rate limit) the route is
  unbound and the pod is sent exactly one revoke frame for the session and the connection, on top of
  whatever other tasks did meanwhile.
\<close>

theorem signal_releases_slot:
  assumes "ss_relay w cid = Some route"
    and "handle_signal L C R pepper describe now dial_pod env cid header_token received events w = (w', out, ended)"
  shows "case snd (socket_token L C R pepper describe now header_token received w) of
      Inl frame \<Rightarrow> out = [Tell frame] \<and> ended \<and> ss_relay w' = ss_relay w \<and> ss_channels w' = ss_channels w
    | Inr token \<Rightarrow>
        (header_token = Some token \<or> is_ok (snd (allow C R pepper now token VSession (ss_redis w)))) \<and>
        (\<exists>u. ss_relay u = ss_relay w \<and> ss_channels u = ss_channels w \<and>
           (ended \<longrightarrow> (\<exists>v \<in> {u, env u}. ss_relay w' = (ss_relay v)(cid := None) \<and>
              ss_channels w' = push_frame (rr_pod_id route) (revoke_frame (rr_session_id route) cid) (ss_channels v))) \<and>
           (\<not> ended \<longrightarrow> w' = env u))"
  using handle_signal_releases [OF assms] .

text \<open>
  C27. A client cannot keep a socket open by sending rubbish. Once three of the frames it sent are too
  long, not JSON or not of the schema, the socket has ended, and what it did no longer depends on
  anything that comes after, however much there is.
\<close>

theorem relay_ends_at_third_strike:
  assumes "MAX_STRIKES \<le> length (filter (\<lambda>t. \<not> clean L t) (client_texts evs))"
  shows "snd (snd (relay_run L key (0, rl) evs)) \<and> relay_run L key (0, rl) (evs @ later) = relay_run L key (0, rl) evs"
proof -
  obtain k rl' out ended where run: "relay_run L key (0, rl) evs = ((k, rl'), out, ended)" by (metis prod_cases3 surj_pair)
  have rel: "relayed L 0 evs k out ended" by (rule relay_run_relayed [OF _ run]) (simp add: MAX_STRIKES_def)
  have ended
  proof (rule ccontr)
    assume "\<not> ended"
    with rel have "k = length (filter (\<lambda>t. \<not> clean L t) (client_texts evs))" "k \<le> MAX_STRIKES" "k \<noteq> MAX_STRIKES"
      unfolding relayed_def by auto
    with assms show False by simp
  qed
  with run relay_run_ended [of L key "(0, rl)" evs "(k, rl')" out later] show ?thesis by simp
qed

subsection \<open>Witnesses\<close>

definition relay_events0 :: "relay_event list" where
  "relay_events0 = [FromClient 1 (WText ''x''), FromPod (WText ''hi'') True, FromClient 2 (WText ''y''), FromClient 3 (WBinary ''b''), FromClient 4 (WText ''z'')]"

definition relay_out0 :: "(nat \<times> rate_limiter) \<times> relay_out list \<times> bool" where
  "relay_out0 = relay_run ref_libs ''k'' (0, Map.empty) relay_events0"

lemma relay_forwards_clean_frames_witness:
  "\<exists>took left. client_texts relay_events0 = took @ left \<and>
    (to_pod (fst (snd relay_out0)) = filter (clean ref_libs) took \<or>
     snd (snd relay_out0) \<and> Tell rate_limited \<in> set (fst (snd relay_out0)) \<and> (\<exists>t. to_pod (fst (snd relay_out0)) @ [t] = filter (clean ref_libs) took)) \<and>
    fst (fst relay_out0) = length (filter (\<lambda>t. \<not> clean ref_libs t) took) \<and> fst (fst relay_out0) \<le> MAX_STRIKES \<and>
    (fst (fst relay_out0) = MAX_STRIKES \<longrightarrow> snd (snd relay_out0) \<and> (\<exists>reason. Tell (bad_signal reason) \<in> set (fst (snd relay_out0)))) \<and>
    (\<not> snd (snd relay_out0) \<longrightarrow> left = [])"
  by (rule relay_forwards_clean_frames [of _ "''k''" Map.empty _ _ "snd (fst relay_out0)"]) (simp add: relay_out0_def)

lemma relay_out0_ends: "snd relay_out0 = ([ToClient ''hi'', Tell (bad_signal ''invalid JSON'')], True)"
  by code_simp

definition signal0 :: "mem signal_state" where
  "signal0 = \<lparr>ss_relay = relay_bind ''c1'' ''p1'' ''s1'' Map.empty, ss_channels = [''p1'' \<mapsto> []], ss_registry = new_registry,
     ss_rates = Map.empty, ss_redis = []\<rparr>"

lemma signal_releases_slot_witness:
  "\<exists>w' out. handle_signal ref_libs ref_crypto (mem_redis True) ''pp'' (\<lambda>_. []) 1 (\<lambda>_. Dialed) (\<lambda>w. w) ''c1'' (Some ''tok'') None [] signal0 =
      (w', out, True) \<and> ss_relay w' ''c1'' = None \<and> ss_channels w' ''p1'' = Some [revoke_frame ''s1'' ''c1'']"
proof -
  have gone: "get_pod ''p1'' new_registry = None" by (simp add: get_pod_def new_registry_def)
  have bound: "ss_relay signal0 ''c1'' = Some \<lparr>rr_pod_id = ''p1'', rr_session_id = ''s1''\<rparr>" by (simp add: signal0_def relay_bind_def)
  obtain w' out where run: "handle_signal ref_libs ref_crypto (mem_redis True) ''pp'' (\<lambda>_. []) 1 (\<lambda>_. Dialed) (\<lambda>w. w) ''c1'' (Some ''tok'') None [] signal0 =
      (w', out, True)"
    using bound gone by (simp add: handle_signal_def socket_token_def relay_socket_def Let_def) (simp add: signal0_def gone)
  from signal_releases_slot [OF bound run] show ?thesis
    using run by (auto simp: socket_token_def signal0_def push_frame_def)
qed

lemma relay_ends_at_third_strike_witness:
  "relay_run ref_libs ''k'' (0, Map.empty) (relay_events0 @ replicate 100 (FromClient 9 (WText ''x''))) = relay_out0"
proof -
  have "MAX_STRIKES \<le> length (filter (\<lambda>t. \<not> clean ref_libs t) (client_texts relay_events0))" by code_simp
  from relay_ends_at_third_strike [OF this] show ?thesis by (simp add: relay_out0_def)
qed

end
