(* ===== verification/SessionIndex.thy ===== *)
theory SessionIndex
  imports Index "HOL-Library.Multiset"
begin

text \<open>
  \<open>crates/orchestrator/src/session_index.rs\<close>: the sessions of each owner, a map of maps in memory,
  and its warm-up from the rows the memory service keeps in Redis. The maps are the ordered
  association lists of the prelude. A warm-up that fails keeps what it has already entered, so it
  returns the index beside the outcome.
\<close>

subsection \<open>State and operations\<close>

record session_meta =
  sm_session_id :: string
  sm_updated_at :: string
  sm_turns :: u64

type_synonym session_index = "(string \<times> (string \<times> session_meta) list) list"

definition new_index :: session_index where
  "new_index = []"

definition index_upsert :: "string \<Rightarrow> session_meta \<Rightarrow> session_index \<Rightarrow> session_index" where
  "index_upsert owner sm ix =
     bt_insert owner (bt_insert (sm_session_id sm) sm (unwrap_or (map_of ix owner) [])) ix"

definition index_remove :: "string \<Rightarrow> string \<Rightarrow> session_index \<Rightarrow> session_index" where
  "index_remove owner sid ix =
     (case map_of ix owner of Some m \<Rightarrow> bt_insert owner (bt_remove sid m) ix | None \<Rightarrow> ix)"

text \<open>A stable sort, latest first.\<close>

fun insert_latest :: "session_meta \<Rightarrow> session_meta list \<Rightarrow> session_meta list" where
  "insert_latest x [] = [x]"
| "insert_latest x (y # ys) =
     (if sm_updated_at x < sm_updated_at y then y # insert_latest x ys else x # y # ys)"

definition sort_latest :: "session_meta list \<Rightarrow> session_meta list" where
  "sort_latest xs = foldr insert_latest xs []"

definition index_list :: "string \<Rightarrow> session_index \<Rightarrow> session_meta list" where
  "index_list owner ix = sort_latest (map snd (unwrap_or (map_of ix owner) []))"

definition index_get :: "string \<Rightarrow> string \<Rightarrow> session_index \<Rightarrow> session_meta option" where
  "index_get owner sid ix = Option.bind (map_of ix owner) (\<lambda>m. map_of m sid)"

subsection \<open>Warm-up\<close>

definition zkey_owner :: "string \<Rightarrow> string" where
  "zkey_owner zkey = unwrap_or (Option.bind (strip_prefix zkey ''owner:'') (\<lambda>s. strip_suffix s '':sessions'')) []"

definition meta_of_row :: "string \<Rightarrow> string \<Rightarrow> (string \<rightharpoonup> string) \<Rightarrow> session_meta" where
  "meta_of_row stamp sid h =
     \<lparr>sm_session_id = sid, sm_updated_at = unwrap_or (h ''updated_at'') stamp,
      sm_turns = unwrap_or (Option.bind (h ''last_turn_id'') parse_u64) 0\<rparr>"

text \<open>A command on the connection of the warm-up, its reply read at a type.\<close>

definition query :: "(reply \<Rightarrow> redis_error + 'a) \<Rightarrow> 'r redis \<Rightarrow> int \<Rightarrow> redis_cmd \<Rightarrow> 'r \<Rightarrow> 'r \<times> (redis_error + 'a)" where
  "query f R ts cmd r = (let (r1, res) = rexec R Pooled ts cmd r in (r1, rbind res f))"

fun warm_sids ::
    "'r redis \<Rightarrow> int \<Rightarrow> string \<Rightarrow> string \<Rightarrow> string list \<Rightarrow> session_index \<times> nat \<Rightarrow> 'r \<Rightarrow> 'r \<times> (session_index \<times> nat) \<times> bool" where
  "warm_sids R ts stamp owner [] st r = (r, st, True)"
| "warm_sids R ts stamp owner (sid # sids) st r =
     (case query reply_pairs R ts (HGetAll (session_key sid)) r of
        (r1, Inl _) \<Rightarrow> (r1, st, False)
      | (r1, Inr kvs) \<Rightarrow>
          warm_sids R ts stamp owner sids
            (index_upsert owner (meta_of_row stamp sid (map_of (rev kvs))) (fst st), snd st + 1) r1)"

fun warm_owners ::
    "'r redis \<Rightarrow> int \<Rightarrow> string \<Rightarrow> string list \<Rightarrow> session_index \<times> nat \<Rightarrow> 'r \<Rightarrow> 'r \<times> (session_index \<times> nat) \<times> bool" where
  "warm_owners R ts stamp [] st r = (r, st, True)"
| "warm_owners R ts stamp (zkey # zkeys) st r =
     (if zkey_owner zkey = [] then warm_owners R ts stamp zkeys st r
      else
        (case query reply_strs R ts (ZRangeAll zkey) r of
           (r1, Inl _) \<Rightarrow> (r1, st, False)
         | (r1, Inr sids) \<Rightarrow>
             (let (r2, st2, ok) = warm_sids R ts stamp (zkey_owner zkey) sids st r1 in
              if ok then warm_owners R ts stamp zkeys st2 r2 else (r2, st2, False))))"

definition warm_from_redis :: "'r redis \<Rightarrow> int \<Rightarrow> string \<Rightarrow> session_index \<Rightarrow> 'r \<Rightarrow> 'r \<times> session_index \<times> nat option" where
  "warm_from_redis R ts stamp ix r =
     (if \<not> rconnect R r then (r, ix, None)
      else
        (case query reply_strs R ts (Keys ''owner:*:sessions'') r of
           (r1, Inl _) \<Rightarrow> (r1, ix, None)
         | (r1, Inr zkeys) \<Rightarrow>
             (let (r2, (ix2, restored), ok) = warm_owners R ts stamp zkeys (ix, 0) r1 in
              (r2, ix2, if ok then Some restored else None))))"

subsection \<open>Sorting\<close>

lemma mset_insert_latest: "mset (insert_latest x ys) = add_mset x (mset ys)"
  by (induction ys) auto

lemma mset_sort_latest: "mset (sort_latest xs) = mset xs"
  unfolding sort_latest_def by (induction xs) (simp_all add: mset_insert_latest)

lemma insert_latest_sorted:
  "sorted_wrt (\<lambda>a b. sm_updated_at b \<le> sm_updated_at a) ys \<Longrightarrow> sorted_wrt (\<lambda>a b. sm_updated_at b \<le> sm_updated_at a) (insert_latest x ys)"
proof (induction ys)
  case (Cons y ys)
  have "set (insert_latest x ys) = insert x (set ys)"
    using arg_cong [OF mset_insert_latest, of set_mset x ys] by simp
  with Cons show ?case by (auto simp: not_less)
qed simp

lemma sort_latest_sorted: "sorted_wrt (\<lambda>a b. sm_updated_at b \<le> sm_updated_at a) (sort_latest xs)"
  unfolding sort_latest_def by (induction xs) (simp_all add: insert_latest_sorted)

subsection \<open>The contract of the cache\<close>

text \<open>
  What the handlers of the control plane rely on: a row per owner and session, written and removed
  under that owner alone, and a list of exactly the owner's rows, latest first.
\<close>

fun cache_run ::
    "(string \<Rightarrow> session_meta \<Rightarrow> 'x \<Rightarrow> 'x) \<Rightarrow> (string \<Rightarrow> string \<Rightarrow> 'x \<Rightarrow> 'x) \<Rightarrow> (string \<times> (session_meta + string)) list \<Rightarrow> 'x \<Rightarrow> 'x" where
  "cache_run up del [] ix = ix"
| "cache_run up del ((ow, Inl sm) # ops) ix = cache_run up del ops (up ow sm ix)"
| "cache_run up del ((ow, Inr sid) # ops) ix = cache_run up del ops (del ow sid ix)"

locale owner_cache =
  fixes inv :: "'x \<Rightarrow> bool"
    and upsert :: "string \<Rightarrow> session_meta \<Rightarrow> 'x \<Rightarrow> 'x"
    and delete :: "string \<Rightarrow> string \<Rightarrow> 'x \<Rightarrow> 'x"
    and lookup :: "string \<Rightarrow> string \<Rightarrow> 'x \<Rightarrow> session_meta option"
    and rows :: "string \<Rightarrow> 'x \<Rightarrow> session_meta list"
  assumes inv_upsert: "inv ix \<Longrightarrow> inv (upsert ow sm ix)"
    and inv_delete: "inv ix \<Longrightarrow> inv (delete ow sid ix)"
    and lookup_upsert: "inv ix \<Longrightarrow>
      lookup ow' sid (upsert ow sm ix) = (if ow' = ow \<and> sid = sm_session_id sm then Some sm else lookup ow' sid ix)"
    and lookup_delete: "inv ix \<Longrightarrow> lookup ow' sid' (delete ow sid ix) = (if ow' = ow \<and> sid' = sid then None else lookup ow' sid' ix)"
    and lookup_id: "inv ix \<Longrightarrow> lookup ow sid ix = Some sm \<Longrightarrow> sm_session_id sm = sid"
    and rows_set: "inv ix \<Longrightarrow> set (rows ow ix) = {sm. \<exists>sid. lookup ow sid ix = Some sm}"
    and rows_distinct: "inv ix \<Longrightarrow> distinct (rows ow ix)"
    and rows_latest: "sorted_wrt (\<lambda>a b. sm_updated_at b \<le> sm_updated_at a) (rows ow ix)"
begin

lemma run_inv: "inv ix \<Longrightarrow> inv (cache_run upsert delete ops ix)"
  proof (induction ops arbitrary: ix)
  case (Cons op ops)
  then show ?case by (cases op; cases "snd op") (auto simp: inv_upsert inv_delete)
qed simp

text \<open>The operations of other owners change nothing an owner can see.\<close>

lemma run_isolated:
  assumes "inv ix" and "inv ix'" and "\<And>sid. lookup ow sid ix = lookup ow sid ix'"
  shows "lookup ow sid (cache_run upsert delete ops ix) =
    lookup ow sid (cache_run upsert delete (filter (\<lambda>op. fst op = ow) ops) ix')"
  using assms
proof (induction ops arbitrary: ix ix')
  case (Cons op ops)
  obtain ow' x where op: "op = (ow', x)" by (cases op)
  show ?case
  proof (cases x)
    case (Inl sm)
    show ?thesis
    proof (cases "ow' = ow")
      case True
      from Cons.IH [of "upsert ow' sm ix" "upsert ow' sm ix'"] Cons.prems True op Inl show ?thesis
        by (simp add: inv_upsert lookup_upsert)
    next
      case False
      from Cons.IH [of "upsert ow' sm ix" ix'] Cons.prems False op Inl show ?thesis
        by (simp add: inv_upsert lookup_upsert)
    qed
  next
    case (Inr s)
    show ?thesis
    proof (cases "ow' = ow")
      case True
      from Cons.IH [of "delete ow' s ix" "delete ow' s ix'"] Cons.prems True op Inr show ?thesis
        by (simp add: inv_delete lookup_delete)
    next
      case False
      from Cons.IH [of "delete ow' s ix" ix'] Cons.prems False op Inr show ?thesis
        by (simp add: inv_delete lookup_delete)
    qed
  qed
qed simp

lemma rows_mem: "inv ix \<Longrightarrow> sm \<in> set (rows ow ix) \<longleftrightarrow> lookup ow (sm_session_id sm) ix = Some sm"
  by (auto simp: rows_set dest: lookup_id)

end

subsection \<open>The index implements it\<close>

definition index_ok :: "session_index \<Rightarrow> bool" where
  "index_ok ix \<longleftrightarrow> bt_ok ix \<and>
     (\<forall>ow m. map_of ix ow = Some m \<longrightarrow> bt_ok m \<and> (\<forall>sid sm. map_of m sid = Some sm \<longrightarrow> sm_session_id sm = sid))"

abbreviation row_map :: "string \<Rightarrow> session_index \<Rightarrow> (string \<times> session_meta) list" where
  "row_map ow ix \<equiv> unwrap_or (map_of ix ow) []"

lemma row_map_ok:
  assumes "index_ok ix"
  shows "bt_ok (row_map ow ix)" and "map_of (row_map ow ix) sid = Some sm \<Longrightarrow> sm_session_id sm = sid"
  using assms by (cases "map_of ix ow"; auto simp: index_ok_def)+

lemma index_get_row: "index_get ow sid ix = map_of (row_map ow ix) sid"
  by (cases "map_of ix ow") (simp_all add: index_get_def)

lemma index_ok_put:
  assumes "index_ok ix" and "bt_ok m" and "\<And>sid sm. map_of m sid = Some sm \<Longrightarrow> sm_session_id sm = sid"
  shows "index_ok (bt_insert ow m ix)" and "row_map ow' (bt_insert ow m ix) = (if ow' = ow then m else row_map ow' ix)"
  using assms unfolding index_ok_def by (auto simp: bt_simps)

lemma index_upsert_row:
  assumes "index_ok ix"
  shows "index_ok (index_upsert ow sm ix)"
    and "row_map ow' (index_upsert ow sm ix) = (if ow' = ow then bt_insert (sm_session_id sm) sm (row_map ow ix) else row_map ow' ix)"
  unfolding index_upsert_def
  by (rule index_ok_put [OF assms]; use row_map_ok [OF assms, of ow] in \<open>auto simp: bt_simps split: if_splits\<close>)+

lemma index_remove_row:
  assumes "index_ok ix"
  shows "index_ok (index_remove ow sid ix)"
    and "row_map ow' (index_remove ow sid ix) = (if ow' = ow then bt_remove sid (row_map ow ix) else row_map ow' ix)"
proof -
  have put: "index_ok (bt_insert ow (bt_remove sid (row_map ow ix)) ix)"
    "row_map ow' (bt_insert ow (bt_remove sid (row_map ow ix)) ix) = (if ow' = ow then bt_remove sid (row_map ow ix) else row_map ow' ix)"
    by (rule index_ok_put [OF assms]; use row_map_ok [OF assms, of ow] in \<open>auto simp: bt_simps split: if_splits\<close>)+
  show "index_ok (index_remove ow sid ix)"
    "row_map ow' (index_remove ow sid ix) = (if ow' = ow then bt_remove sid (row_map ow ix) else row_map ow' ix)"
    using put assms by (cases "map_of ix ow"; simp add: index_remove_def bt_remove_def)+
qed

lemma set_index_list: "set (index_list ow ix) = snd ` set (row_map ow ix)"
  using arg_cong [OF mset_sort_latest, of set_mset "map snd (row_map ow ix)"] by (simp add: index_list_def)

interpretation oc: owner_cache index_ok index_upsert index_remove index_get index_list
proof
  fix ix ow ow' sid sid' sm
  assume ok: "index_ok ix"
  show "index_ok (index_upsert ow sm ix)" "index_ok (index_remove ow sid ix)"
    using index_upsert_row(1) index_remove_row(1) ok by blast+
  show "index_get ow' sid (index_upsert ow sm ix) = (if ow' = ow \<and> sid = sm_session_id sm then Some sm else index_get ow' sid ix)"
    unfolding index_get_row index_upsert_row(2) [OF ok] using row_map_ok(1) [OF ok] by (simp add: bt_simps)
  show "index_get ow' sid' (index_remove ow sid ix) = (if ow' = ow \<and> sid' = sid then None else index_get ow' sid' ix)"
    unfolding index_get_row index_remove_row(2) [OF ok] by (simp add: bt_simps)
  show "sm_session_id sm = sid" if "index_get ow sid ix = Some sm"
    using that row_map_ok(2) [OF ok] by (simp add: index_get_row)
  have d: "distinct (map fst (row_map ow ix))"
    using row_map_ok(1) [OF ok] by (simp add: bt_ok_def strict_sorted_iff)
  show "set (index_list ow ix) = {sm. \<exists>sid. index_get ow sid ix = Some sm}"
    unfolding set_index_list index_get_row using ran_distinct [OF d] by (auto simp: ran_def)
  have "map sm_session_id (map snd (row_map ow ix)) = map fst (row_map ow ix)"
    using row_map_ok(2) [OF ok, of ow] d by (auto simp: map_of_eq_Some_iff)
  then have "distinct (map snd (row_map ow ix))" using d by (metis distinct_map)
  then show "distinct (index_list ow ix)"
    unfolding index_list_def by (rule mset_eq_imp_distinct_iff [OF mset_sort_latest, THEN iffD2])
next
  show "sorted_wrt (\<lambda>a b. sm_updated_at b \<le> sm_updated_at a) (index_list ow ix)" for ow ix
    unfolding index_list_def by (rule sort_latest_sorted)
qed

subsection \<open>What the warm-up enters\<close>

lemma query_ok:
  assumes "redis_laws R db" and "query f R ts cmd r = (r1, Inr x)"
  shows "redis_sem ts cmd (purge ts (db r)) = Some (db r1)" and "\<exists>rep. redis_reply cmd (purge ts (db r)) rep \<and> f rep = Inr x"
proof -
  obtain r' res where x: "rexec R Pooled ts cmd r = (r', res)" by fastforce
  with assms(2) obtain rep where "res = Inr rep" "r' = r1" "f rep = Inr x" by (cases res) (auto simp: query_def)
  with x rexec_ok [OF assms(1)] show "redis_sem ts cmd (purge ts (db r)) = Some (db r1)"
    "\<exists>rep. redis_reply cmd (purge ts (db r)) rep \<and> f rep = Inr x" by fastforce+
qed

text \<open>The row of a session as the warm-up reads it.\<close>

definition warm_row :: "rdb \<Rightarrow> string \<Rightarrow> string \<Rightarrow> session_meta" where
  "warm_row d stamp sid = meta_of_row stamp sid (unwrap_or (hash_at d (session_key sid)) Map.empty)"

lemma warm_row_id [simp]: "sm_session_id (warm_row d stamp sid) = sid"
  by (simp add: warm_row_def meta_of_row_def)

lemma purge_fix: "purge ts x = d \<Longrightarrow> purge ts d = d"
  by auto

lemma warm_sids_spec:
  assumes "redis_laws R db" and "purge ts (db r) = d" and "index_ok (fst st)"
    and "warm_sids R ts stamp owner sids st r = (r', st', True)"
  shows "index_ok (fst st') \<and> purge ts (db r') = d \<and> snd st' = snd st + length sids \<and>
    index_get ow sid (fst st') = (if ow = owner \<and> sid \<in> set sids then Some (warm_row d stamp sid) else index_get ow sid (fst st))"
  using assms(2-)
proof (induction sids arbitrary: st r)
  case (Cons s sids)
  from Cons.prems(3) obtain r1 kvs where q: "query reply_pairs R ts (HGetAll (session_key s)) r = (r1, Inr kvs)"
    and rest: "warm_sids R ts stamp owner sids (index_upsert owner (meta_of_row stamp s (map_of (rev kvs))) (fst st), snd st + 1) r1 = (r', st', True)"
    by (auto split: prod.splits sum.splits)
  from query_ok [OF assms(1) q] Cons.prems(1) have "db r1 = d" "Some (map_of (rev kvs)) = hash_at d (session_key s)"
    by (auto simp: map_of_rev_distinct_keys)
  then have m: "meta_of_row stamp s (map_of (rev kvs)) = warm_row d stamp s" and d: "purge ts (db r1) = d"
    using Cons.prems(1) by (auto simp: warm_row_def dest: sym)
  have "index_ok (index_upsert owner (warm_row d stamp s) (fst st))" by (rule oc.inv_upsert [OF Cons.prems(2)])
  from Cons.IH [OF d _ rest [unfolded m]] this show ?case
    using oc.lookup_upsert [OF Cons.prems(2)] by auto
qed simp

lemma warm_owners_spec:
  assumes "redis_laws R db" and "purge ts (db r) = d" and "index_ok (fst st)"
    and "warm_owners R ts stamp zkeys st r = (r', st', True)"
  shows "index_ok (fst st') \<and> (\<forall>zkey \<in> set zkeys. zkey_owner zkey \<noteq> [] \<longrightarrow> zset_at d zkey \<noteq> None) \<and>
    index_get ow sid (fst st') =
      (if ow \<noteq> [] \<and> (\<exists>zkey \<in> set zkeys. zkey_owner zkey = ow \<and> sid \<in> dom (the (zset_at d zkey))) then Some (warm_row d stamp sid)
       else index_get ow sid (fst st))"
  using assms(2-)
proof (induction zkeys arbitrary: st r)
  case (Cons z zkeys)
  show ?case
  proof (cases "zkey_owner z = []")
    case True
    with Cons.prems Cons.IH [OF Cons.prems(1,2)] show ?thesis by auto
  next
    case False
    with Cons.prems(3) obtain r1 sids r2 st2 where q: "query reply_strs R ts (ZRangeAll z) r = (r1, Inr sids)"
      and ws: "warm_sids R ts stamp (zkey_owner z) sids st r1 = (r2, st2, True)"
      and rest: "warm_owners R ts stamp zkeys st2 r2 = (r', st', True)"
      by (auto split: prod.splits sum.splits if_splits)
    from query_ok [OF assms(1) q] Cons.prems(1) have db1: "db r1 = d"
      and "map_option dom (zset_at d z) = Some (set sids)" by auto
    then have mem: "zset_at d z \<noteq> None" "set sids = dom (the (zset_at d z))" by fastforce+
    from db1 have d1: "purge ts (db r1) = d" using purge_fix [OF Cons.prems(1)] by simp
    from warm_sids_spec [OF assms(1) d1 Cons.prems(2) ws] have
      w: "index_ok (fst st2)" "purge ts (db r2) = d"
        "\<And>ow sid. index_get ow sid (fst st2) = (if ow = zkey_owner z \<and> sid \<in> set sids then Some (warm_row d stamp sid) else index_get ow sid (fst st))"
      by blast+
    from Cons.IH [OF w(2,1) rest] w(3) mem False show ?thesis by auto
  qed
qed simp

lemma glob_literal: "CHR ''*'' \<notin> set p \<Longrightarrow> glob (p @ ps) s \<longleftrightarrow> (\<exists>t. s = p @ t \<and> glob ps t)"
proof (induction p arbitrary: s)
  case (Cons c p)
  then show ?case by (cases s) auto
qed simp

lemma glob_star: "glob (CHR ''*'' # ps) s \<longleftrightarrow> (\<exists>a b. s = a @ b \<and> glob ps b)"
proof (induction s)
  case (Cons c s)
  have "(\<exists>a b. c # s = a @ b \<and> glob ps b) \<longleftrightarrow> glob ps (c # s) \<or> (\<exists>a b. s = a @ b \<and> glob ps b)"
    by (metis append_Cons append_Nil append_eq_Cons_conv)
  with Cons show ?case by simp
qed simp

lemma glob_owner_keys: "glob ''owner:*:sessions'' k \<longleftrightarrow> (\<exists>ow. k = owner_sessions_key ow)"
proof -
  have "glob (''owner:'' @ CHR ''*'' # '':sessions'') k \<longleftrightarrow> (\<exists>t. k = ''owner:'' @ t \<and> (\<exists>a b. t = a @ b \<and> glob ('':sessions'' @ []) b))"
    by (subst glob_literal) (simp_all add: glob_star)
  also have "\<dots> \<longleftrightarrow> (\<exists>ow. k = owner_sessions_key ow)"
    by (subst glob_literal) (auto simp: owner_sessions_key_def)
  finally show ?thesis by simp
qed

lemma zkey_owner_key [simp]: "zkey_owner (owner_sessions_key ow) = ow"
proof -
  have "strip_prefix (''owner:'' @ (ow @ '':sessions'')) ''owner:'' = Some (ow @ '':sessions'')" by (simp add: strip_prefix_Some)
  then show ?thesis by (simp add: zkey_owner_def owner_sessions_key_def)
qed

lemma owner_key_inj [simp]: "owner_sessions_key a = owner_sessions_key b \<longleftrightarrow> a = b"
  by (metis zkey_owner_key)

subsection \<open>Properties\<close>

text \<open>
  C24. One owner never sees another's sessions: after any sequence of insertions and removals for any
  owners, the list an owner gets has each of its own rows once, latest first, and what is in it is
  determined by the owner's own operations alone.
\<close>

theorem session_list_isolated:
  assumes "index_ok ix"
  shows "let ix' = cache_run index_upsert index_remove ops ix;
             own = cache_run index_upsert index_remove (filter (\<lambda>op. fst op = ow) ops) ix in
    set (index_list ow ix') = set (index_list ow own) \<and> distinct (index_list ow ix') \<and>
    sorted_wrt (\<lambda>a b. sm_updated_at b \<le> sm_updated_at a) (index_list ow ix')"
proof -
  let ?run = "\<lambda>ops. cache_run index_upsert index_remove ops ix"
  have ok: "index_ok (?run ops)" "index_ok (?run (filter (\<lambda>op. fst op = ow) ops))" by (rule oc.run_inv [OF assms])+
  have "index_get ow sid (?run ops) = index_get ow sid (?run (filter (\<lambda>op. fst op = ow) ops))" for sid
    by (rule oc.run_isolated [OF assms assms refl])
  then show ?thesis using ok by (simp add: oc.rows_set oc.rows_distinct oc.rows_latest)
qed

text \<open>
  C25. The warm-up restores the cache from the durable rows: when it reports success on a fresh index,
  an owner has exactly the sessions of the owner's sorted set in Redis, each with the update time and
  turn of its row. A session whose row is gone but whose name is still in the set comes back as well,
  with the current time and no turns.
\<close>

theorem warm_up_restores_owner_rows:
  assumes "redis_laws R db" and "warm_from_redis R ts stamp new_index r = (r', ix, Some n)" and "d = purge ts (db r)" and "ow \<noteq> []"
  shows "index_get ow sid ix =
    (if \<exists>z. keyspace d (owner_sessions_key ow) = Some (RZSet z) \<and> sid \<in> dom z
     then Some (meta_of_row stamp sid (unwrap_or (hash_at d (session_key sid)) Map.empty)) else None)"
proof -
  from assms(2) obtain r1 zkeys r2 k where q: "query reply_strs R ts (Keys ''owner:*:sessions'') r = (r1, Inr zkeys)"
    and w: "warm_owners R ts stamp zkeys (new_index, 0) r1 = (r2, (ix, k), True)"
    by (auto simp: warm_from_redis_def split: prod.splits sum.splits if_splits)
  from query_ok [OF assms(1) q] assms(3) have "db r1 = d"
    and keys: "set zkeys = {k \<in> dom (keyspace d). \<exists>ow. k = owner_sessions_key ow}" by (auto simp: glob_owner_keys)
  then have d1: "purge ts (db r1) = d" using purge_fix [OF assms(3) [symmetric]] by simp
  have "index_ok (fst (new_index, 0))" by (simp add: index_ok_def new_index_def)
  from warm_owners_spec [OF assms(1) d1 this w, of ow sid] have
    get: "index_get ow sid ix = (if \<exists>zkey \<in> set zkeys. zkey_owner zkey = ow \<and> sid \<in> dom (the (zset_at d zkey)) then Some (warm_row d stamp sid) else None)"
    and typed: "owner_sessions_key ow \<in> set zkeys \<longrightarrow> zset_at d (owner_sessions_key ow) \<noteq> None"
    using assms(4) by (auto simp: index_get_def new_index_def)
  have "(\<exists>zkey \<in> set zkeys. zkey_owner zkey = ow \<and> sid \<in> dom (the (zset_at d zkey))) \<longleftrightarrow>
      owner_sessions_key ow \<in> set zkeys \<and> sid \<in> dom (the (zset_at d (owner_sessions_key ow)))"
    using keys by auto
  also have "\<dots> \<longleftrightarrow> (\<exists>z. keyspace d (owner_sessions_key ow) = Some (RZSet z) \<and> sid \<in> dom z)"
    using typed keys by (auto simp: zset_at_def split: option.splits rval.splits)
  finally show ?thesis unfolding get warm_row_def by simp
qed

subsection \<open>Witnesses\<close>

definition meta0 :: "string \<Rightarrow> string \<Rightarrow> session_meta" where
  "meta0 sid t = \<lparr>sm_session_id = sid, sm_updated_at = t, sm_turns = 0\<rparr>"

definition cache_ops0 :: "(string \<times> (session_meta + string)) list" where
  "cache_ops0 = [(''alice'', Inl (meta0 ''s1'' ''1'')), (''bob'', Inl (meta0 ''s2'' ''2'')), (''alice'', Inl (meta0 ''s3'' ''3'')),
     (''bob'', Inr ''s1'')]"

lemma session_list_isolated_witness:
  "set (index_list ''alice'' (cache_run index_upsert index_remove cache_ops0 new_index)) =
   set (index_list ''alice'' (cache_run index_upsert index_remove (filter (\<lambda>op. fst op = ''alice'') cache_ops0) new_index))"
proof -
  have "index_ok new_index" by (simp add: index_ok_def new_index_def)
  from session_list_isolated [OF this, of cache_ops0 "''alice''"] show ?thesis by (simp add: Let_def)
qed

lemma cache_ops0_list: "index_list ''alice'' (cache_run index_upsert index_remove cache_ops0 new_index) = [meta0 ''s3'' ''3'', meta0 ''s1'' ''1'']"
  by code_simp

definition warm_db :: mem where
  "warm_db = fst (the (create_session (mem_redis True) 1 ''s1'' ''alice'' ''t0'' []))"

definition warmed0 :: "mem \<times> session_index \<times> nat option" where
  "warmed0 = warm_from_redis (mem_redis True) 2 ''now'' new_index warm_db"

lemma warm_up_restores_owner_rows_witness:
  "index_get ''alice'' ''s9'' (fst (snd warmed0)) =
    (if \<exists>z. keyspace (purge 2 (mem_abs warm_db)) (owner_sessions_key ''alice'') = Some (RZSet z) \<and> ''s9'' \<in> dom z
     then Some (meta_of_row ''now'' ''s9'' (unwrap_or (hash_at (purge 2 (mem_abs warm_db)) (session_key ''s9'')) Map.empty)) else None)"
proof (rule warm_up_restores_owner_rows [OF mem_redis_laws _ refl])
  have "snd (snd warmed0) = Some 1" by code_simp
  then show "warm_from_redis (mem_redis True) 2 ''now'' new_index warm_db = (fst warmed0, fst (snd warmed0), Some 1)"
    by (simp add: warmed0_def prod_eq_iff)
qed simp

end
