(* ===== verification/PodApi.thy ===== *)
theory PodApi
  imports Router
begin

text \<open>
  \<open>crates/orchestrator/src/api_internal.rs\<close>: the routes of the pods. Registration and health are
  functions on the registry. The assign sockets are tasks that share the map of senders: a state
  machine whose steps are the events one handler reacts to, in any order over all handlers. A
  channel is a number; its sender lives in the map alone, so the receiver of a channel whose number
  has left the map ends once its frames are drained.
\<close>

subsection \<open>Registration and health\<close>

record register_body =
  rb_pod_id :: string
  rb_addr :: string
  rb_cap :: u32
  rb_versions :: "json option"

definition pod_gate :: "crypto \<Rightarrow> 'r redis \<Rightarrow> string \<Rightarrow> int \<Rightarrow> string \<Rightarrow> 'r \<Rightarrow> 'r \<times> (orch_error + principal)" where
  "pod_gate C R pepper now token r = allow C R pepper now token VPod r"

definition register_pod ::
    "crypto \<Rightarrow> 'r redis \<Rightarrow> string \<Rightarrow> int \<Rightarrow> instant \<Rightarrow> string \<Rightarrow> register_body \<Rightarrow> pod_registry \<times> 'r \<Rightarrow>
     (pod_registry \<times> 'r) \<times> (orch_error + nat \<times> json)" where
  "register_pod C R pepper ts now token body w =
     (case pod_gate C R pepper ts token (snd w) of
        (r1, Inl e) \<Rightarrow> ((fst w, r1), Inl e)
      | (r1, Inr _) \<Rightarrow>
          ((register now (rb_pod_id body) (rb_addr body) (max (rb_cap body) 1) (rb_versions body) (fst w), r1),
           Inr (201, jobject [(''registered'', JBool True), (''pod_id'', JStr (rb_pod_id body)),
             (''assign_ws'', JStr (''/internal/pods/'' @ rb_pod_id body @ ''/assign''))])))"

definition pod_health ::
    "crypto \<Rightarrow> 'r redis \<Rightarrow> string \<Rightarrow> int \<Rightarrow> instant \<Rightarrow> string \<Rightarrow> string \<Rightarrow> json \<Rightarrow> pod_registry \<times> 'r \<Rightarrow>
     (pod_registry \<times> 'r) \<times> (orch_error + nat \<times> json)" where
  "pod_health C R pepper ts now token pod_id body w =
     (case pod_gate C R pepper ts token (snd w) of
        (r1, Inl e) \<Rightarrow> ((fst w, r1), Inl e)
      | (r1, Inr _) \<Rightarrow>
          (let fill = ucast (unwrap_or (as_u64 (jidx body ''fill'')) 0);
               reg1 = ping now pod_id fill (fst w);
               reg2 = (if unwrap_or (as_bool (jidx body ''degraded'')) False then drain pod_id reg1 else reg1) in
           ((reg2, r1), Inr (200, jobject [(''ok'', JBool True)]))))"

subsection \<open>The assign sockets\<close>

datatype socket_msg = SText string | SClose | SOther

record assign_state =
  sk_senders :: "string \<rightharpoonup> nat"
  sk_queue :: "nat \<Rightarrow> json list"
  sk_live :: "(string \<times> nat) list"
  sk_next :: nat
  sk_registry :: pod_registry

text \<open>A handler starts: a fresh channel, its sender entered under the pod's id.\<close>

definition socket_open :: "string \<Rightarrow> assign_state \<Rightarrow> assign_state" where
  "socket_open pod st =
     st\<lparr>sk_senders := (sk_senders st)(pod \<mapsto> sk_next st), sk_queue := (sk_queue st)(sk_next st := []),
        sk_live := (pod, sk_next st) # sk_live st, sk_next := Suc (sk_next st)\<rparr>"

text \<open>A handler ends: it takes the pod's entry out of the map.\<close>

definition socket_end :: "string \<times> nat \<Rightarrow> assign_state \<Rightarrow> assign_state" where
  "socket_end h st =
     st\<lparr>sk_senders := (sk_senders st)(fst h := None), sk_live := filter (\<lambda>x. x \<noteq> h) (sk_live st)\<rparr>"

text \<open>A message of the pod: whether it ends the loop, and what it does otherwise.\<close>

definition socket_recv :: "libs \<Rightarrow> instant \<Rightarrow> string \<times> nat \<Rightarrow> socket_msg option \<Rightarrow> assign_state \<Rightarrow> assign_state \<times> json list" where
  "socket_recv L now h msg st =
     (case msg of
        Some (SText text) \<Rightarrow>
          (case from_slice L text of
             Some v \<Rightarrow>
               if jidx v ''t'' = JStr ''ready''
               then (st\<lparr>sk_registry := ready now (fst h) (sk_registry st)\<rparr>, [jobject [(''t'', JStr ''ack''), (''pod_id'', JStr (fst h))]])
               else (st, [])
           | None \<Rightarrow> (st, []))
      | Some SOther \<Rightarrow> (st, [])
      | Some SClose \<Rightarrow> (socket_end h st, [])
      | None \<Rightarrow> (socket_end h st, []))"

text \<open>A frame of the channel, sent to the pod or ending the loop when that fails.\<close>

definition socket_pump :: "string \<times> nat \<Rightarrow> bool \<Rightarrow> assign_state \<Rightarrow> assign_state \<times> json list" where
  "socket_pump h sent st =
     (case sk_queue st (snd h) of
        f # fs \<Rightarrow>
          (let st1 = st\<lparr>sk_queue := (sk_queue st)(snd h := fs)\<rparr> in
           if sent then (st1, [f]) else (socket_end h st1, []))
      | [] \<Rightarrow> (st, []))"

definition socket_push :: "string \<Rightarrow> json \<Rightarrow> assign_state \<Rightarrow> assign_state" where
  "socket_push pod f st =
     (case sk_senders st pod of
        Some n \<Rightarrow> st\<lparr>sk_queue := (sk_queue st)(n := sk_queue st n @ [f])\<rparr>
      | None \<Rightarrow> st)"

text \<open>The receiver of \<open>n\<close> yields nothing more: its sender was dropped and its frames are drained.\<close>

definition channel_closed :: "nat \<Rightarrow> assign_state \<Rightarrow> bool" where
  "channel_closed n st \<longleftrightarrow> n \<notin> ran (sk_senders st) \<and> sk_queue st n = []"

inductive assign_step :: "libs \<Rightarrow> assign_state \<Rightarrow> assign_state \<Rightarrow> bool" for L where
  Open: "assign_step L st (socket_open pod st)"
| Recv: "h \<in> set (sk_live st) \<Longrightarrow> assign_step L st (fst (socket_recv L now h msg st))"
| Pump: "h \<in> set (sk_live st) \<Longrightarrow> sk_queue st (snd h) \<noteq> [] \<Longrightarrow> assign_step L st (fst (socket_pump h sent st))"
| Closed: "h \<in> set (sk_live st) \<Longrightarrow> channel_closed (snd h) st \<Longrightarrow> assign_step L st (socket_end h st)"
| Push: "assign_step L st (socket_push pod f st)"

text \<open>The same, with a socket opened only for a pod that has none: a pod that never overlaps its reconnects.\<close>

inductive single_step :: "libs \<Rightarrow> assign_state \<Rightarrow> assign_state \<Rightarrow> bool" for L where
  Open1: "pod \<notin> fst ` set (sk_live st) \<Longrightarrow> single_step L st (socket_open pod st)"
| Other1: "assign_step L st st' \<Longrightarrow> sk_next st' = sk_next st \<Longrightarrow> single_step L st st'"

definition no_sockets :: "pod_registry \<Rightarrow> assign_state" where
  "no_sockets reg = \<lparr>sk_senders = Map.empty, sk_queue = (\<lambda>_. []), sk_live = [], sk_next = 0, sk_registry = reg\<rparr>"

subsection \<open>One socket per pod\<close>

text \<open>The senders are those of the running handlers.\<close>

definition sockets_ok :: "assign_state \<Rightarrow> bool" where
  "sockets_ok st \<longleftrightarrow> distinct (map fst (sk_live st)) \<and> distinct (map snd (sk_live st)) \<and> sk_senders st = map_of (sk_live st) \<and>
     (\<forall>n \<in> snd ` set (sk_live st). n < sk_next st)"

lemma map_of_filter_entry:
  assumes "distinct (map fst l)" and "h \<in> set l"
  shows "map_of (filter (\<lambda>x. x \<noteq> h) l) = (map_of l)(fst h := None)"
proof
  fix k
  have "map_of (filter (\<lambda>x. x \<noteq> h) l) k = Some v \<longleftrightarrow> ((map_of l)(fst h := None)) k = Some v" for v
    using assms by (auto simp: distinct_map_filter map_of_eq_Some_iff eq_key_imp_eq_value)
      (metis assms(1) eq_key_imp_eq_value prod.collapse)
  then show "map_of (filter (\<lambda>x. x \<noteq> h) l) k = ((map_of l)(fst h := None)) k"
    by (metis option.exhaust option.simps(3))
qed

lemma socket_end_ok:
  assumes "sockets_ok st" and "h \<in> set (sk_live st)"
  shows "sockets_ok (socket_end h st)"
  using assms map_of_filter_entry [of "sk_live st" h] by (auto simp: sockets_ok_def socket_end_def distinct_map_filter)

lemma sockets_ok_frames: "sk_senders st' = sk_senders st \<Longrightarrow> sk_live st' = sk_live st \<Longrightarrow> sk_next st' = sk_next st \<Longrightarrow> sockets_ok st \<Longrightarrow> sockets_ok st'"
  by (simp add: sockets_ok_def)

lemma single_step_ok:
  assumes "single_step L st st'" and "sockets_ok st"
  shows "sockets_ok st'"
  using assms(1)
proof cases
  case (Open1 pod)
  with assms(2) show ?thesis by (fastforce simp: sockets_ok_def socket_open_def)
next
  case Other1
  from Other1(1) show ?thesis
  proof cases
    case (Open pod)
    with Other1(2) show ?thesis by (simp add: socket_open_def)
  next
    case (Recv h now msg)
    with assms(2) socket_end_ok show ?thesis
      by (auto simp: socket_recv_def sockets_ok_def [of "_\<lparr>sk_registry := _\<rparr>"] split: option.splits socket_msg.splits if_splits)
        (auto simp: sockets_ok_def)
  next
    case (Pump h sent)
    have q: "sockets_ok (st\<lparr>sk_queue := q\<rparr>)" for q by (rule sockets_ok_frames [OF _ _ _ assms(2)]) simp_all
    with Pump socket_end_ok [OF q] show ?thesis by (auto simp: socket_pump_def Let_def split: list.splits)
  next
    case (Closed h)
    with assms(2) socket_end_ok show ?thesis by simp
  next
    case (Push pod f)
    with assms(2) show ?thesis by (auto simp: socket_push_def sockets_ok_def split: option.splits)
  qed
qed

lemma single_steps_ok: "(single_step L)\<^sup>*\<^sup>* st st' \<Longrightarrow> sockets_ok st \<Longrightarrow> sockets_ok st'"
  by (induction rule: rtranclp_induct) (auto intro: single_step_ok)

subsection \<open>Properties\<close>

text \<open>
  C28. The router sees exactly the pods that are connected: as long as no pod opens a second socket
  while its first is still served, after any sequence of events a pod has a sender in the map if
  and only if its handler runs, and the sender is the one of that handler.
\<close>

theorem senders_are_live_sockets:
  assumes "(single_step L)\<^sup>*\<^sup>* (no_sockets reg) st"
  shows "sk_senders st pod = Some n \<longleftrightarrow> (pod, n) \<in> set (sk_live st)"
proof -
  have "sockets_ok (no_sockets reg)" by (simp add: sockets_ok_def no_sockets_def)
  then have "sockets_ok st" by (rule single_steps_ok [OF assms])
  then show ?thesis by (auto simp: sockets_ok_def)
qed

text \<open>
  A pod that reconnects before its old socket is gone loses both. Opening the second socket
  replaces the sender of the first, whose handler then finds its channel closed; when it ends it
  takes the entry of the pod out of the map, which is the second socket's. The pod, although
  connected, has no sender, and the second handler in turn finds its channel closed and ends.
\<close>

theorem reconnect_drops_both_sockets:
  assumes "sockets_ok st" and "(pod, n) \<in> set (sk_live st)" and "sk_queue st n = []"
    and "st1 = socket_open pod st" and "st2 = socket_end (pod, n) st1" and "st3 = socket_end (pod, sk_next st) st2"
  shows "assign_step L st st1 \<and> assign_step L st1 st2 \<and>
    (pod, sk_next st) \<in> set (sk_live st2) \<and> sk_senders st2 pod = None \<and>
    assign_step L st2 st3 \<and> pod \<notin> fst ` set (sk_live st3)"
proof -
  let ?m = "sk_next st"
  have d: "distinct (map fst (sk_live st))" "distinct (map snd (sk_live st))" "sk_senders st = map_of (sk_live st)"
    and lt: "\<And>p k. (p, k) \<in> set (sk_live st) \<Longrightarrow> k < ?m" using assms(1) by (auto simp: sockets_ok_def)
  have only: "k = n" if "(pod, k) \<in> set (sk_live st)" for k using d(1) that assms(2) by (rule eq_key_imp_eq_value)
  have alone: "p = pod" if "(p, n) \<in> set (sk_live st)" for p
    using d(2) that assms(2) by (metis distinct_map inj_onD prod.inject snd_conv)
  have "n \<notin> ran ((map_of (sk_live st))(pod \<mapsto> ?m))"
    using lt [OF assms(2)] alone by (auto simp: ran_def dest: map_of_SomeD split: if_splits)
  then have c1: "channel_closed n st1" using assms(3,4) d(3) lt [OF assms(2)] by (simp add: channel_closed_def socket_open_def)
  have l1: "(pod, n) \<in> set (sk_live st1)" "(pod, ?m) \<in> set (sk_live st1)" using assms(2,4) by (simp_all add: socket_open_def)
  have s2: "sk_senders st2 = (map_of (sk_live st))(pod := None)" "(pod, ?m) \<in> set (sk_live st2)"
    using assms(4,5) d(3) l1 lt [OF assms(2)] by (auto simp: socket_end_def socket_open_def)
  have "?m \<notin> ran ((map_of (sk_live st))(pod := None))"
    using lt by (auto simp: ran_def dest: map_of_SomeD split: if_splits)
  then have c2: "channel_closed ?m st2" using s2 assms(4,5) by (simp add: channel_closed_def socket_open_def socket_end_def)
  have "pod \<notin> fst ` set (sk_live st3)"
    using assms(4-6) only by (auto simp: socket_end_def socket_open_def)
  moreover have "assign_step L st st1" unfolding assms(4) by (rule assign_step.Open)
  moreover have "assign_step L st1 st2" unfolding assms(5) by (rule assign_step.Closed) (use l1 c1 in simp_all)
  moreover have "assign_step L st2 st3" unfolding assms(6) by (rule assign_step.Closed) (use s2 c2 in simp_all)
  ultimately show ?thesis using s2 by simp
qed

text \<open>
  A degraded report takes a pod out of rotation, whoever sends it: the gate asks for the pod scope
  alone, so the holder of any pod token, the ones minted for a single session included, can report
  on any pod. After it the router picks the pod no more and the fill it reported, cut to 32 bits, is
  at most the capacity.
\<close>

theorem degraded_report_drains_any_pod:
  assumes "reg_ok reg" and "token \<noteq> []" and "verify C R pepper ts token r = (r1, Inr p)" and "p_scope p = Pod"
    and "as_bool (jidx body ''degraded'') = Some True" and "get_pod pod_id reg = Some row"
  shows "\<exists>reg' row'. pod_health C R pepper ts now token pod_id body (reg, r) = ((reg', r1), Inr (200, jobject [(''ok'', JBool True)])) \<and>
    get_pod pod_id reg' = Some row' \<and> ps_state row' = Draining \<and>
    ps_fill row' = min (ucast (unwrap_or (as_u64 (jidx body ''fill'')) 0)) (ps_cap row) \<and>
    (\<forall>cap ch q. pick reg' cap ch = Some q \<longrightarrow> ps_id q \<noteq> pod_id)"
proof -
  let ?fill = "ucast (unwrap_or (as_u64 (jidx body ''fill'')) 0) :: u32"
  let ?reg = "drain pod_id (ping now pod_id ?fill reg)" and ?row = "drain_row (ping_row now ?fill row)"
  have gate: "pod_gate C R pepper ts token r = (r1, Inr p)"
    using assms(2-4) by (simp add: pod_gate_def allow_def verb_allows_def map_err_def)
  have run: "pod_health C R pepper ts now token pod_id body (reg, r) = ((?reg, r1), Inr (200, jobject [(''ok'', JBool True)]))"
    using gate assms(5) by (simp add: pod_health_def Let_def)
  have row: "get_pod pod_id ?reg = Some ?row"
    using assms(6) by (simp add: get_pod_def drain_def ping_def update_row_def)
  have ok: "reg_ok ?reg" using assms(1) by (simp add: reg_ok_ops)
  have "ps_id q \<noteq> pod_id" if "pick ?reg cap ch = Some q" for cap ch q
  proof
    assume "ps_id q = pod_id"
    from pick_Some(1) [OF ok that] have q: "q \<in> ran (pr_pods ?reg)" "ps_state q = Ready" by (auto simp: eligible_def)
    from q(1) ok \<open>ps_id q = pod_id\<close> have "pr_pods ?reg pod_id = Some q" by (auto simp: ran_def reg_ok_def row_ok_def)
    with row q(2) show False by (simp add: get_pod_def drain_row_def)
  qed
  with run row show ?thesis by (intro exI [of _ ?reg] exI [of _ ?row]) (simp add: drain_row_def ping_row_def)
qed

text \<open>
  A drain does not last: the ready message of the pod's socket sets its state whatever it was, so a
  draining or dead pod that reconnects is assigned sessions again.
\<close>

theorem ready_message_undoes_drain:
  assumes "from_slice L text = Some v" and "jidx v ''t'' = JStr ''ready''" and "get_pod pod (sk_registry st) = Some row"
  shows "\<exists>row'. get_pod pod (sk_registry (fst (socket_recv L now (pod, n) (Some (SText text)) st))) = Some row' \<and>
    ps_state row' = Ready \<and> ps_fill row' = ps_fill row"
  using assms by (simp add: socket_recv_def get_pod_def ready_def update_row_def ready_row_def)

subsection \<open>Witnesses\<close>

lemma senders_are_live_sockets_witness:
  "sk_senders (socket_open ''p1'' (no_sockets new_registry)) ''p1'' = Some 0 \<longleftrightarrow>
   (''p1'', 0) \<in> set (sk_live (socket_open ''p1'' (no_sockets new_registry)))"
proof (rule senders_are_live_sockets [of ref_libs])
  have "single_step ref_libs (no_sockets new_registry) (socket_open ''p1'' (no_sockets new_registry))"
    by (rule single_step.Open1) (simp add: no_sockets_def)
  then show "(single_step ref_libs)\<^sup>*\<^sup>* (no_sockets new_registry) (socket_open ''p1'' (no_sockets new_registry))" by simp
qed

definition socket0 :: assign_state where
  "socket0 = socket_open ''p1'' (no_sockets new_registry)"

lemma reconnect_drops_both_sockets_witness:
  "sk_senders (socket_end (''p1'', 0) (socket_open ''p1'' socket0)) ''p1'' = None \<and>
   (''p1'', 1) \<in> set (sk_live (socket_end (''p1'', 0) (socket_open ''p1'' socket0)))"
proof -
  have "sockets_ok socket0" "(''p1'', 0) \<in> set (sk_live socket0)" "sk_queue socket0 0 = []" "sk_next socket0 = 1"
    by (simp_all add: sockets_ok_def socket0_def socket_open_def no_sockets_def)
  from reconnect_drops_both_sockets [OF this(1-3) refl refl refl, of ref_libs] this(4) show ?thesis by simp
qed

definition pod_minted :: "mem \<times> (token_error + string)" where
  "pod_minted = mint ref_crypto (mem_redis True) ''pp'' 1 raw0 ''s'' ''s1'' Pod 600 []"

definition pod_token :: string where
  "pod_token = projr (snd pod_minted)"

definition pod_principal :: principal where
  "pod_principal = \<lparr>p_owner = ''s1'', p_scope = Pod\<rparr>"

definition registry0 :: pod_registry where
  "registry0 = register 0 ''p1'' ''a'' 2 None new_registry"

definition report0 :: json where
  "report0 = jobject [(''fill'', ju64 1), (''degraded'', JBool True)]"

lemma degraded_report_drains_any_pod_witness:
  "\<exists>reg' row'. fst (fst (pod_health ref_crypto (mem_redis True) ''pp'' 2 5 pod_token ''p1'' report0 (registry0, fst pod_minted))) = reg' \<and>
    get_pod ''p1'' reg' = Some row' \<and> ps_state row' = Draining"
proof -
  have v: "verify ref_crypto (mem_redis True) ''pp'' 2 pod_token (fst pod_minted) =
      (fst (verify ref_crypto (mem_redis True) ''pp'' 2 pod_token (fst pod_minted)), Inr pod_principal)"
    unfolding prod_eq_iff by (simp, code_simp)
  have t: "pod_token \<noteq> []" "as_bool (jidx report0 ''degraded'') = Some True" by code_simp+
  have ok: "reg_ok registry0" by (simp add: registry0_def reg_ok_ops reg_ok_new)
  have row: "get_pod ''p1'' registry0 = Some (new_pod 0 ''p1'' ''a'' 2 None)" by (simp add: registry0_def register_def get_pod_def Let_def)
  from degraded_report_drains_any_pod [OF ok t(1) v _ t(2) row, of 5] show ?thesis by (auto simp: pod_principal_def)
qed

end
