(* ===== verification/OrchApi.thy ===== *)
theory OrchApi
  imports Signal SessionIndex Queue Redact
begin

text \<open>
  \<open>crates/orchestrator/src/api_public.rs\<close> and \<open>api_admin.rs\<close>: the routes of users and operators,
  over the router, the session cache, the queue, the relay and the rate limiter. What the
  environment provides to one request (clocks, a fresh session id, the fresh values of an
  assignment, what other tasks do meanwhile) is an argument. The lines
  written to the audit log are part of the state (\<open>audit.rs\<close>); the metrics are in \<open>Metrics\<close>.
\<close>

subsection \<open>State\<close>

record ('h, 'r) app =
  ap_ctl :: "('h, 'r) control"
  ap_sessions :: session_index
  ap_queue :: session_queue
  ap_relay :: relay
  ap_rates :: rate_limiter
  ap_audit :: "json list"

record ('h, 'r, 'p) app_deps =
  dp_libs :: libs
  dp_net :: "'h http"
  dp_base :: string
  dp_crypto :: crypto
  dp_redis :: "'r redis"
  dp_pepper :: string
  dp_provider :: "'p provider"
  dp_warm_floor :: u32

record tick =
  tk_ts :: int
  tk_now :: instant
  tk_stamp :: string
  tk_uuid :: string
  tk_fresh :: fresh

datatype reply_body = RJson json | RMarkdown string | REmpty

type_synonym api_reply = "nat \<times> reply_body"

subsection \<open>Requests\<close>

definition rate_key :: "crypto \<Rightarrow> string \<Rightarrow> string" where
  "rate_key C token = unwrap_or (token_id C token) token"

definition envelope :: "(orch_error \<Rightarrow> string) \<Rightarrow> orch_error \<Rightarrow> api_reply" where
  "envelope describe e =
     (status e, RJson (jobject [(''error'', jobject [(''code'', JStr (code e)), (''message'', JStr (describe e)),
        (''retryable'', JBool (orch_retryable e))])]))"

text \<open>The check of the token, which reads Redis, and the check of the rate.\<close>

definition gate ::
    "('h, 'r, 'p) app_deps \<Rightarrow> tick \<Rightarrow> string \<Rightarrow> verb \<Rightarrow> ('h, 'r) app \<Rightarrow> ('h, 'r) app \<times> (orch_error + principal)" where
  "gate D tk token v w =
     (case allow (dp_crypto D) (dp_redis D) (dp_pepper D) (tk_ts tk) token v (ct_redis (ap_ctl w)) of
        (r', res) \<Rightarrow> (w\<lparr>ap_ctl := (ap_ctl w)\<lparr>ct_redis := r'\<rparr>\<rparr>, res))"

definition rate_gate ::
    "('h, 'r, 'p) app_deps \<Rightarrow> tick \<Rightarrow> string \<Rightarrow> rate_class \<Rightarrow> ('h, 'r) app \<Rightarrow> ('h, 'r) app \<times> (orch_error + unit)" where
  "rate_gate D tk token class w =
     (case check_at (rate_key (dp_crypto D) token) class (tk_now tk) (ap_rates w) of
        (rl', res) \<Rightarrow> (w\<lparr>ap_rates := rl'\<rparr>, res))"

text \<open>A call of the memory service, its error turned into the control plane's.\<close>

definition memoryd_call ::
    "('h \<Rightarrow> 'h \<times> (memoryd_client_error + 'a)) \<Rightarrow> ('h, 'r) app \<Rightarrow> ('h, 'r) app \<times> (orch_error + 'a)" where
  "memoryd_call f w =
     (case f (ct_net (ap_ctl w)) of
        (h', res) \<Rightarrow> (w\<lparr>ap_ctl := (ap_ctl w)\<lparr>ct_net := h'\<rparr>\<rparr>, map_err from_client_error res))"

text \<open>Early return on an error, with the state so far.\<close>

definition then_do :: "'w \<times> ('e + 'a) \<Rightarrow> ('a \<Rightarrow> 'w \<Rightarrow> 'w \<times> ('e + 'b)) \<Rightarrow> 'w \<times> ('e + 'b)" where
  "then_do m f = (case m of (w, Inl e) \<Rightarrow> (w, Inl e) | (w, Inr a) \<Rightarrow> f a w)"

subsection \<open>The audit log\<close>

definition audit_line :: "string \<Rightarrow> string \<Rightarrow> string \<Rightarrow> json \<Rightarrow> json" where
  "audit_line ts service event flds =
     jobject [(''ts'', JStr ts), (''level'', JStr ''info''), (''service'', JStr service), (''event'', JStr event), (''fields'', flds)]"

definition emit :: "string \<Rightarrow> string \<Rightarrow> string \<Rightarrow> json \<Rightarrow> ('h, 'r) app \<Rightarrow> ('h, 'r) app" where
  "emit ts service event flds w = w\<lparr>ap_audit := ap_audit w @ [audit_line ts service event flds]\<rparr>"

definition audit_delete :: "libs \<Rightarrow> string \<Rightarrow> string \<Rightarrow> string \<Rightarrow> string \<Rightarrow> ('h, 'r) app \<Rightarrow> ('h, 'r) app" where
  "audit_delete L ts service session_id owner =
     emit ts service ''session_deleted'' (jobject [(''session_id'', JStr session_id), (''owner_hash'', JStr (owner_hash L owner))])"

definition audit_mint :: "libs \<Rightarrow> string \<Rightarrow> string \<Rightarrow> string \<Rightarrow> string \<Rightarrow> ('h, 'r) app \<Rightarrow> ('h, 'r) app" where
  "audit_mint L ts service owner sc =
     emit ts service ''token_minted'' (jobject [(''owner_hash'', JStr (owner_hash L owner)), (''scope'', JStr sc)])"

subsection \<open>The public routes\<close>

definition create_session ::
    "('h, 'r, 'p) app_deps \<Rightarrow> tick \<Rightarrow> string \<Rightarrow> string \<Rightarrow> ('h, 'r) app \<Rightarrow> ('h, 'r) app \<times> (orch_error + api_reply)" where
  "create_session D tk token persona_id w =
     then_do (gate D tk token VSession w) (\<lambda>p w.
     then_do (rate_gate D tk token Create w) (\<lambda>_ w.
     if persona_id = [] then (w, Inl (OInvalid ''persona_id required''))
     else
       then_do (memoryd_call (client_create_session (dp_libs D) (dp_net D) (dp_base D) (tk_uuid tk) (p_owner p) (tk_stamp tk) token) w) (\<lambda>_ w.
       (w\<lparr>ap_sessions := index_upsert (p_owner p) \<lparr>sm_session_id = tk_uuid tk, sm_updated_at = tk_stamp tk, sm_turns = 0\<rparr> (ap_sessions w)\<rparr>,
        Inr (201, RJson (jobject [(''session_id'', JStr (tk_uuid tk)), (''created_at'', JStr (tk_stamp tk))]))))))"

definition connect_reply :: "assign_outcome \<Rightarrow> api_reply" where
  "connect_reply out =
     (200, RJson (jobject
       [(''connect'', jobject [(''ws_url'', JStr (''/v1/signal/'' @ ao_connection_id out)), (''connection_id'', JStr (ao_connection_id out)),
          (''pod_addr'', JStr (ao_addr out))]),
        (''last_turn_id'', ju64 (ao_last_turn_id out)), (''memory_url'', opt_str (ao_memory_url out))]))"

definition queued_reply :: "'p provider \<Rightarrow> api_reply" where
  "queued_reply P =
     (let (queued, eta) = queued_eta P in
      (503, RJson (jobject [(''error'', jobject [(''code'', JStr ''no_capacity''), (''message'', JStr ''no ready pod''),
         (''retryable'', JBool True), (''queued'', JBool queued), (''eta_hint_s'', ju64 (of_int eta))])])))"

text \<open>The answer to what the router returned; a session that finds no pod waits in the queue.\<close>

definition answer_assign ::
    "('h, 'r, 'p) app_deps \<Rightarrow> tick \<Rightarrow> string \<Rightarrow> string \<Rightarrow> ('h, 'r) control \<times> (orch_error + assign_outcome) \<Rightarrow>
     ('h, 'r) app \<Rightarrow> ('h, 'r) app \<times> (orch_error + api_reply)" where
  "answer_assign D tk session_id token assigned w =
     (case assigned of
        (ctl', Inr out) \<Rightarrow>
          (w\<lparr>ap_ctl := ctl', ap_relay := relay_bind (ao_connection_id out) (ao_pod_id out) session_id (ap_relay w)\<rparr>,
           Inr (connect_reply out))
      | (ctl', Inl (ONoCapacity _)) \<Rightarrow>
          (w\<lparr>ap_ctl := ctl',
             ap_queue := enqueue \<lparr>qs_session_id = session_id, qs_user_token = token, qs_queued_at = tk_now tk\<rparr> (ap_queue w)\<rparr>,
           Inr (queued_reply (dp_provider D)))
      | (ctl', Inl e) \<Rightarrow> (w\<lparr>ap_ctl := ctl'\<rparr>, Inl e))"

definition connect_session ::
    "('h, 'r, 'p) app_deps \<Rightarrow> tick \<Rightarrow> (pod_registry \<times> channels \<Rightarrow> pod_registry \<times> channels) \<Rightarrow> string \<Rightarrow> string \<Rightarrow>
     ('h, 'r) app \<Rightarrow> ('h, 'r) app \<times> (orch_error + api_reply)" where
  "connect_session D tk env session_id token w =
     then_do (gate D tk token VSession w) (\<lambda>p w.
     then_do (rate_gate D tk token Resume w) (\<lambda>_ w.
     case index_get (p_owner p) session_id (ap_sessions w) of
       None \<Rightarrow> (w, Inl (ONotFound session_id))
     | Some _ \<Rightarrow>
         answer_assign D tk session_id token
           (assign_session (dp_libs D) (dp_net D) (dp_base D) (dp_crypto D) (dp_redis D) (dp_pepper D) (tk_fresh tk) env
              session_id token (ap_ctl w)) w))"

definition meta_json :: "session_meta \<Rightarrow> json" where
  "meta_json sm = jobject [(''session_id'', JStr (sm_session_id sm)), (''updated_at'', JStr (sm_updated_at sm)), (''turns'', ju64 (sm_turns sm))]"

definition list_sessions ::
    "('h, 'r, 'p) app_deps \<Rightarrow> tick \<Rightarrow> string \<Rightarrow> ('h, 'r) app \<Rightarrow> ('h, 'r) app \<times> (orch_error + api_reply)" where
  "list_sessions D tk token w =
     then_do (gate D tk token VSession w) (\<lambda>p w.
     (w, Inr (200, RJson (jobject [(''sessions'', JArr (map meta_json (index_list (p_owner p) (ap_sessions w))))]))))"

definition owned ::
    "principal \<Rightarrow> string \<Rightarrow> ('h, 'r) app \<Rightarrow> ('h, 'r) app \<times> (orch_error + session_meta)" where
  "owned p session_id w = (w, ok_or (index_get (p_owner p) session_id (ap_sessions w)) (ONotFound session_id))"

definition transcript ::
    "('h, 'r, 'p) app_deps \<Rightarrow> tick \<Rightarrow> string \<Rightarrow> string \<Rightarrow> ('h, 'r) app \<Rightarrow> ('h, 'r) app \<times> (orch_error + api_reply)" where
  "transcript D tk session_id token w =
     then_do (gate D tk token VSession w) (\<lambda>p w.
     then_do (owned p session_id w) (\<lambda>_ w.
     then_do (memoryd_call (client_transcript (dp_net D) (dp_base D) session_id token) w) (\<lambda>md w.
     (w, Inr (200, RMarkdown md)))))"

definition delete_session ::
    "('h, 'r, 'p) app_deps \<Rightarrow> tick \<Rightarrow> string \<Rightarrow> string \<Rightarrow> ('h, 'r) app \<Rightarrow> ('h, 'r) app \<times> (orch_error + api_reply)" where
  "delete_session D tk session_id token w =
     then_do (gate D tk token VSession w) (\<lambda>p w.
     then_do (owned p session_id w) (\<lambda>_ w.
     then_do (memoryd_call (client_delete_session (dp_net D) (dp_base D) session_id token) w) (\<lambda>_ w.
     (audit_delete (dp_libs D) (tk_stamp tk) ''orchestrator'' session_id (p_owner p)
        (w\<lparr>ap_sessions := index_remove (p_owner p) session_id (ap_sessions w),
           ap_queue := fst (queue_remove session_id (ap_queue w))\<rparr>),
      Inr (204, REmpty)))))"

subsection \<open>The admin routes\<close>

definition admin_gate ::
    "('h, 'r, 'p) app_deps \<Rightarrow> tick \<Rightarrow> string \<Rightarrow> ('h, 'r) app \<Rightarrow> ('h, 'r) app \<times> (orch_error + principal)" where
  "admin_gate D tk token w =
     then_do (gate D tk token VAdmin w) (\<lambda>p w.
     if p_scope p \<noteq> Admin then (w, Inl (OAuthz ''admin scope required'')) else (w, Inr p))"

definition phase_name :: "pod_phase \<Rightarrow> string" where
  "phase_name ph = (case ph of Booting \<Rightarrow> ''booting'' | Ready \<Rightarrow> ''ready'' | Draining \<Rightarrow> ''draining'' | Dead \<Rightarrow> ''dead'')"

definition pod_json :: "instant \<Rightarrow> pod_state \<Rightarrow> json" where
  "pod_json now pod =
     jobject [(''id'', JStr (ps_id pod)), (''addr'', JStr (ps_addr pod)), (''state'', JStr (phase_name (ps_state pod))),
       (''fill'', ju64 (ucast (ps_fill pod))), (''cap'', ju64 (ucast (ps_cap pod))),
       (''last_ping_age_s'', ju64 (of_int (as_secs (duration_since now (ps_last_ping pod))))),
       (''versions'', unwrap_or (ps_versions pod) JNull)]"

definition admin_pods ::
    "('h, 'r, 'p) app_deps \<Rightarrow> tick \<Rightarrow> string \<Rightarrow> ('h, 'r) app \<Rightarrow> ('h, 'r) app \<times> (orch_error + api_reply)" where
  "admin_pods D tk token w =
     then_do (admin_gate D tk token w) (\<lambda>_ w.
     (w, Inr (200, RJson (jobject [(''pods'', JArr (map (pod_json (tk_now tk)) (pods_snapshot (ct_registry (ap_ctl w)))))]))))"

definition drain_pod ::
    "('h, 'r, 'p) app_deps \<Rightarrow> tick \<Rightarrow> string \<Rightarrow> string \<Rightarrow> ('h, 'r) app \<Rightarrow> ('h, 'r) app \<times> (orch_error + api_reply)" where
  "drain_pod D tk pod_id token w =
     then_do (admin_gate D tk token w) (\<lambda>_ w.
     then_do (w, ok_or (get_pod pod_id (ct_registry (ap_ctl w))) (ONotFound pod_id)) (\<lambda>pod w.
     (w\<lparr>ap_ctl := (ap_ctl w)\<lparr>ct_registry := drain (ps_id pod) (ct_registry (ap_ctl w))\<rparr>\<rparr>,
      Inr (200, RJson (jobject [(''draining'', JBool True), (''pod_id'', JStr pod_id)])))))"

text \<open>The decisions of the autoscaler are its own list, passed in.\<close>

definition scale_status ::
    "('h, 'r, 'p) app_deps \<Rightarrow> tick \<Rightarrow> json list \<Rightarrow> string \<Rightarrow> ('h, 'r) app \<Rightarrow> ('h, 'r) app \<times> (orch_error + api_reply)" where
  "scale_status D tk decisions token w =
     then_do (admin_gate D tk token w) (\<lambda>_ w.
     let pods = pods_snapshot (ct_registry (ap_ctl w)) in
     (w, Inr (200, RJson (jobject
       [(''fill'', ju64 (ucast (sum_list (map ps_fill pods)))), (''cap'', ju64 (ucast (sum_list (map ps_cap pods)))),
        (''queue_depth'', ju64 (of_nat (queue_len (ap_queue w)))), (''warm_floor'', ju64 (ucast (dp_warm_floor D))),
        (''last_decisions'', JArr decisions)]))))"

definition mint_scope :: "string \<Rightarrow> orch_error + scope" where
  "mint_scope s =
     (if s = ''admin'' then Inr Admin else if s = ''user'' then Inr User else Inl (OInvalid (''unknown scope '' @ s)))"

definition mint_token ::
    "('h, 'r, 'p) app_deps \<Rightarrow> tick \<Rightarrow> string \<Rightarrow> string \<Rightarrow> string \<Rightarrow> ('h, 'r) app \<Rightarrow> ('h, 'r) app \<times> (orch_error + api_reply)" where
  "mint_token D tk token owner_id scope_text w =
     then_do (admin_gate D tk token w) (\<lambda>_ w.
     then_do (w, mint_scope scope_text) (\<lambda>sc w.
     case mint (dp_crypto D) (dp_redis D) (dp_pepper D) (tk_ts tk) (fr_raw (tk_fresh tk)) (fr_salt (tk_fresh tk))
            owner_id sc DEFAULT_TOKEN_TTL (ct_redis (ap_ctl w)) of
       (r', Inl e) \<Rightarrow> (w\<lparr>ap_ctl := (ap_ctl w)\<lparr>ct_redis := r'\<rparr>\<rparr>, Inl (from_token_error e))
     | (r', Inr minted) \<Rightarrow>
         (audit_mint (dp_libs D) (tk_stamp tk) ''orchestrator'' owner_id scope_text (w\<lparr>ap_ctl := (ap_ctl w)\<lparr>ct_redis := r'\<rparr>\<rparr>),
          Inr (200, RJson (jobject [(''token'', JStr minted)])))))"

subsection \<open>Early returns\<close>

lemma then_do_simps [simp]: "then_do (w, Inl e) f = (w, Inl e)" "then_do (w, Inr a) f = f a w"
  by (simp_all add: then_do_def)

lemma then_do_Inr: "then_do m f = (w', Inr b) \<longleftrightarrow> (\<exists>w a. m = (w, Inr a) \<and> f a w = (w', Inr b))"
  by (auto simp: then_do_def split: prod.splits sum.splits)

lemma then_do_Inl: "then_do m f = (w', Inl e) \<longleftrightarrow> m = (w', Inl e) \<or> (\<exists>w a. m = (w, Inr a) \<and> f a w = (w', Inl e))"
  by (auto simp: then_do_def split: prod.splits sum.splits)

text \<open>What a request may change before its handler does its work: the rates and the two services.\<close>

definition same_state :: "('h, 'r) app \<Rightarrow> ('h, 'r) app \<Rightarrow> bool" where
  "same_state w w' \<longleftrightarrow> ap_sessions w' = ap_sessions w \<and> ap_queue w' = ap_queue w \<and> ap_relay w' = ap_relay w \<and> ap_audit w' = ap_audit w \<and>
     ct_registry (ap_ctl w') = ct_registry (ap_ctl w) \<and> ct_channels (ap_ctl w') = ct_channels (ap_ctl w)"

lemma same_state_trans: "same_state u v \<Longrightarrow> same_state v w \<Longrightarrow> same_state u w"
  by (simp add: same_state_def)

abbreviation allowed :: "('h, 'r, 'p) app_deps \<Rightarrow> tick \<Rightarrow> string \<Rightarrow> verb \<Rightarrow> ('h, 'r) app \<Rightarrow> 'r \<times> (orch_error + principal)" where
  "allowed D tk token v w \<equiv> allow (dp_crypto D) (dp_redis D) (dp_pepper D) (tk_ts tk) token v (ct_redis (ap_ctl w))"

lemma gate_Inr:
  "gate D tk token v w = (w', Inr p) \<longleftrightarrow> snd (allowed D tk token v w) = Inr p \<and>
     w' = w\<lparr>ap_ctl := (ap_ctl w)\<lparr>ct_redis := fst (allowed D tk token v w)\<rparr>\<rparr>"
  by (auto simp: gate_def split: prod.splits)

lemma gate_same: "gate D tk token v w = (w', res) \<Longrightarrow> same_state w w'"
  by (auto simp: gate_def same_state_def split: prod.splits)

lemma rate_gate_same: "rate_gate D tk token c w = (w', res) \<Longrightarrow> same_state w w' \<and> ap_ctl w' = ap_ctl w"
  by (auto simp: rate_gate_def same_state_def split: prod.splits)

lemma memoryd_call_same: "memoryd_call f w = (w', res) \<Longrightarrow> same_state w w'"
  by (auto simp: memoryd_call_def same_state_def split: prod.splits)

lemma owned_Inr: "owned p sid w = (w', Inr sm) \<longleftrightarrow> w' = w \<and> index_get (p_owner p) sid (ap_sessions w) = Some sm"
  by (auto simp: owned_def)

lemma owned_Inl: "owned p sid w = (w', Inl e) \<longleftrightarrow> w' = w \<and> index_get (p_owner p) sid (ap_sessions w) = None \<and> e = ONotFound sid"
  by (cases "index_get (p_owner p) sid (ap_sessions w)") (auto simp: owned_def)

text \<open>The verdict on a token only changes how Redis answers; on a session route its scope is a user's or an admin's.\<close>

lemma allow_scope: "allow C R pepper now token v r = (r', Inr p) \<Longrightarrow> verb_allows v (p_scope p)"
  by (auto simp: allow_def Let_def split: if_splits prod.splits)

subsection \<open>Connecting\<close>

definition connect_assign where
  "connect_assign D tk env sid token w =
     assign_session (dp_libs D) (dp_net D) (dp_base D) (dp_crypto D) (dp_redis D) (dp_pepper D) (tk_fresh tk) env sid token
       ((ap_ctl w)\<lparr>ct_redis := fst (allowed D tk token VSession w)\<rparr>)"

lemma connect_assign_id:
  assumes "snd (connect_assign D tk env sid token w) = Inr out"
  shows "ao_connection_id out = fr_connection_id (tk_fresh tk)"
  by (rule assign_session_Inr [OF surjective_pairing [of "connect_assign D tk env sid token w", unfolded assms, unfolded connect_assign_def]]) simp

lemma answer_assign_Inl:
  "answer_assign D tk sid token a w = (w', Inl e) \<Longrightarrow> w' = w\<lparr>ap_ctl := fst a\<rparr> \<and> snd a = Inl e \<and> (\<nexists>m. e = ONoCapacity m)"
  by (cases a; cases "snd a") (auto simp: answer_assign_def split: orch_error.splits)

lemma answer_assign_Inr:
  "answer_assign D tk sid token a w = (w', Inr r) \<Longrightarrow>
     (\<exists>out. snd a = Inr out \<and> r = connect_reply out \<and>
        w' = w\<lparr>ap_ctl := fst a, ap_relay := relay_bind (ao_connection_id out) (ao_pod_id out) sid (ap_relay w)\<rparr>) \<or>
     (\<exists>msg. snd a = Inl (ONoCapacity msg) \<and> r = queued_reply (dp_provider D) \<and>
        w' = w\<lparr>ap_ctl := fst a,
               ap_queue := enqueue \<lparr>qs_session_id = sid, qs_user_token = token, qs_queued_at = tk_now tk\<rparr> (ap_queue w)\<rparr>)"
  by (cases a; cases "snd a") (auto simp: answer_assign_def split: orch_error.splits)

text \<open>A request that passes both gates reaches the look-up of the session with only the services and rates changed.\<close>

lemma gates_ctl:
  assumes "gate D tk token VSession w = (w1, Inr p)" and "rate_gate D tk token c w1 = (w2, res)"
  shows "ap_ctl w2 = (ap_ctl w)\<lparr>ct_redis := fst (allowed D tk token VSession w)\<rparr>"
    and "ap_sessions w2 = ap_sessions w" and "ap_queue w2 = ap_queue w" and "ap_relay w2 = ap_relay w"
  using rate_gate_same [OF assms(2)] gate_same [OF assms(1)] assms(1) by (auto simp: gate_Inr same_state_def)

lemma connect_session_Inr:
  assumes "connect_session D tk env sid token w = (w', Inr r)"
  obtains p sm where
    "snd (allowed D tk token VSession w) = Inr p" "index_get (p_owner p) sid (ap_sessions w) = Some sm"
    "ap_sessions w' = ap_sessions w" "ap_ctl w' = fst (connect_assign D tk env sid token w)"
    "(\<exists>out. snd (connect_assign D tk env sid token w) = Inr out \<and> r = connect_reply out \<and>
        ap_relay w' = relay_bind (ao_connection_id out) (ao_pod_id out) sid (ap_relay w) \<and> ap_queue w' = ap_queue w) \<or>
     (\<exists>msg. snd (connect_assign D tk env sid token w) = Inl (ONoCapacity msg) \<and> r = queued_reply (dp_provider D) \<and>
        ap_relay w' = ap_relay w \<and>
        ap_queue w' = enqueue \<lparr>qs_session_id = sid, qs_user_token = token, qs_queued_at = tk_now tk\<rparr> (ap_queue w))"
proof -
  from assms obtain w1 p w2 u sm where g: "gate D tk token VSession w = (w1, Inr p)"
    and rg: "rate_gate D tk token Resume w1 = (w2, Inr u)"
    and sm: "index_get (p_owner p) sid (ap_sessions w2) = Some sm"
    and ans: "answer_assign D tk sid token (assign_session (dp_libs D) (dp_net D) (dp_base D) (dp_crypto D) (dp_redis D) (dp_pepper D)
       (tk_fresh tk) env sid token (ap_ctl w2)) w2 = (w', Inr r)"
    by (auto simp: connect_session_def then_do_Inr split: option.splits)
  note same = gates_ctl [OF g rg]
  from ans have "answer_assign D tk sid token (connect_assign D tk env sid token w) w2 = (w', Inr r)"
    unfolding same(1) connect_assign_def .
  from answer_assign_Inr [OF this] same sm g show ?thesis by (intro that [of p sm]) (auto simp: gate_Inr)
qed

lemma connect_session_Inl:
  assumes "connect_session D tk env sid token w = (w', Inl e)"
  shows "ap_sessions w' = ap_sessions w \<and> ap_queue w' = ap_queue w \<and> ap_relay w' = ap_relay w"
  using assms
  by (auto simp: connect_session_def then_do_Inl same_state_def dest!: gate_same rate_gate_same answer_assign_Inl
      split: option.splits)

text \<open>The part of the state the signalling route works on.\<close>

definition signal_view :: "('h, 'r) app \<Rightarrow> 'r signal_state" where
  "signal_view w = \<lparr>ss_relay = ap_relay w, ss_channels = ct_channels (ap_ctl w), ss_registry = ct_registry (ap_ctl w),
     ss_rates = ap_rates w, ss_redis = ct_redis (ap_ctl w)\<rparr>"

lemma connect_200:
  assumes "connect_session D tk env sid token w = (w1, Inr (200, body))"
  obtains out where "connect_assign D tk env sid token w = (ap_ctl w1, Inr out)"
    "ap_relay w1 = relay_bind (ao_connection_id out) (ao_pod_id out) sid (ap_relay w)"
    "ao_connection_id out = fr_connection_id (tk_fresh tk)"
proof (rule connect_session_Inr [OF assms])
  assume ctl: "ap_ctl w1 = fst (connect_assign D tk env sid token w)"
    and or: "(\<exists>out. snd (connect_assign D tk env sid token w) = Inr out \<and> (200, body) = connect_reply out \<and>
        ap_relay w1 = relay_bind (ao_connection_id out) (ao_pod_id out) sid (ap_relay w) \<and> ap_queue w1 = ap_queue w) \<or>
     (\<exists>msg. snd (connect_assign D tk env sid token w) = Inl (ONoCapacity msg) \<and> (200, body) = queued_reply (dp_provider D) \<and>
        ap_relay w1 = ap_relay w \<and>
        ap_queue w1 = enqueue \<lparr>qs_session_id = sid, qs_user_token = token, qs_queued_at = tk_now tk\<rparr> (ap_queue w))"
  then obtain out where out: "snd (connect_assign D tk env sid token w) = Inr out"
      "ap_relay w1 = relay_bind (ao_connection_id out) (ao_pod_id out) sid (ap_relay w)"
    by (auto simp: queued_reply_def queued_eta_def)
  from that [of out] out ctl connect_assign_id [OF out(1)] show thesis by (simp add: prod_eq_iff)
qed

subsection \<open>Creating and deleting\<close>

lemma create_session_Inr:
  assumes "create_session D tk token persona w = (w', Inr r)"
  obtains p where "snd (allowed D tk token VSession w) = Inr p" "persona \<noteq> []"
    "snd (client_create_session (dp_libs D) (dp_net D) (dp_base D) (tk_uuid tk) (p_owner p) (tk_stamp tk) token (ct_net (ap_ctl w))) = Inr ()"
    "ap_sessions w' = index_upsert (p_owner p) \<lparr>sm_session_id = tk_uuid tk, sm_updated_at = tk_stamp tk, sm_turns = 0\<rparr> (ap_sessions w)"
    "fst r = 201"
proof -
  from assms obtain w1 p w2 u where g: "gate D tk token VSession w = (w1, Inr p)"
    and rg: "rate_gate D tk token Create w1 = (w2, Inr u)"
    and k: "create_session D tk token persona w = (w', Inr r)"
    by (auto simp: create_session_def then_do_Inr)
  from gates_ctl [OF g rg] k g rg show ?thesis
    by (intro that [of p]) (auto simp: create_session_def then_do_Inr gate_Inr memoryd_call_def split: if_splits prod.splits)
qed

lemma create_session_Inl:
  assumes "create_session D tk token persona w = (w', Inl e)"
  shows "same_state w w'"
  using assms
  by (auto simp: create_session_def then_do_Inl same_state_def dest!: gate_same rate_gate_same memoryd_call_same split: if_splits)

definition deletion_line :: "('h, 'r, 'p) app_deps \<Rightarrow> tick \<Rightarrow> string \<Rightarrow> principal \<Rightarrow> json" where
  "deletion_line D tk sid p = audit_line (tk_stamp tk) ''orchestrator'' ''session_deleted''
     (jobject [(''session_id'', JStr sid), (''owner_hash'', JStr (owner_hash (dp_libs D) (p_owner p)))])"

lemma delete_session_Inr:
  assumes "delete_session D tk sid token w = (w', Inr r)"
  obtains p sm where "snd (allowed D tk token VSession w) = Inr p" "index_get (p_owner p) sid (ap_sessions w) = Some sm"
    "snd (client_delete_session (dp_net D) (dp_base D) sid token (ct_net (ap_ctl w))) = Inr ()"
    "ap_sessions w' = index_remove (p_owner p) sid (ap_sessions w)" "ap_queue w' = fst (queue_remove sid (ap_queue w))"
    "r = (204, REmpty)" "ap_audit w' = ap_audit w @ [deletion_line D tk sid p]"
  using assms
  by (auto simp: deletion_line_def audit_delete_def emit_def delete_session_def then_do_Inr owned_Inr gate_Inr memoryd_call_def split: prod.splits)

lemma delete_session_Inl:
  assumes "delete_session D tk sid token w = (w', Inl e)"
  shows "same_state w w'"
  using assms
  by (auto simp: delete_session_def then_do_Inl same_state_def owned_Inr owned_Inl dest!: gate_same memoryd_call_same)

subsection \<open>Properties\<close>

text \<open>The body of an answer, and what an assignment leaves on the pod's channel.\<close>

lemma connect_reply_body:
  "\<exists>j c. connect_reply out = (200, RJson j) \<and> jget j ''connect'' = Some c \<and> jget c ''connection_id'' = Some (JStr (ao_connection_id out)) \<and>
     jget c ''pod_addr'' = Some (JStr (ao_addr out)) \<and> jget j ''last_turn_id'' = Some (ju64 (ao_last_turn_id out))"
  by (simp add: connect_reply_def jobject_def)

lemma queued_reply_body:
  "\<exists>j e. queued_reply P = (503, RJson j) \<and> jget j ''error'' = Some e \<and> jget e ''code'' = Some (JStr ''no_capacity'') \<and>
     jget e ''retryable'' = Some (JBool True) \<and> jget e ''queued'' = Some (JBool True)"
  by (simp add: queued_reply_def queued_eta_def jobject_def)

lemma connect_assign_frame:
  assumes "connect_assign D tk env sid token w = (ctl, Inr out)"
  shows "\<exists>sent frame. ct_channels ctl (ao_pod_id out) = Some (sent @ [frame]) \<and> jget frame ''t'' = Some (JStr ''assign'') \<and>
    jget frame ''session_id'' = Some (JStr sid) \<and> jget frame ''connection_id'' = Some (JStr (fr_connection_id (tk_fresh tk)))"
  by (rule assign_session_Inr [OF assms [unfolded connect_assign_def]]) (auto simp: assign_frame_fields)

text \<open>
  C7. Connecting a session is for its owner, and has three outcomes. A client gets an answer only
  when its token was allowed and the session is one of the token's owner. The answer is 200 exactly
  when the router assigned a pod: it names the connection and the address of that pod, the last thing
  on that pod's channel is the assignment of this session and connection, and exactly this connection
  is routed to that pod for this session. The answer is 503 exactly when the router reported no
  capacity: its error is retryable and says that the session is queued, the session is the last one in
  the queue, and no route is bound. In every other case the error is returned and the sessions, the
  queue and the routes are as they were.
\<close>

theorem connect_outcome:
  assumes "connect_session D tk env sid token w = (w', res)"
  shows "ap_sessions w' = ap_sessions w \<and>
    (case res of
       Inl e \<Rightarrow> ap_queue w' = ap_queue w \<and> ap_relay w' = ap_relay w
     | Inr (st, body) \<Rightarrow>
         (\<exists>p sm. snd (allowed D tk token VSession w) = Inr p \<and> p_scope p \<in> {User, Admin} \<and>
            index_get (p_owner p) sid (ap_sessions w) = Some sm) \<and>
         (case snd (connect_assign D tk env sid token w) of
            Inr out \<Rightarrow> st = 200 \<and> ap_queue w' = ap_queue w \<and>
              ap_relay w' = (ap_relay w)(fr_connection_id (tk_fresh tk) \<mapsto> \<lparr>rr_pod_id = ao_pod_id out, rr_session_id = sid\<rparr>) \<and>
              (\<exists>sent frame. ct_channels (ap_ctl w') (ao_pod_id out) = Some (sent @ [frame]) \<and> jget frame ''t'' = Some (JStr ''assign'') \<and>
                 jget frame ''session_id'' = Some (JStr sid) \<and> jget frame ''connection_id'' = Some (JStr (fr_connection_id (tk_fresh tk)))) \<and>
              (\<exists>j c. body = RJson j \<and> jget j ''connect'' = Some c \<and> jget c ''connection_id'' = Some (JStr (fr_connection_id (tk_fresh tk))) \<and>
                 jget c ''pod_addr'' = Some (JStr (ao_addr out)) \<and> jget j ''last_turn_id'' = Some (ju64 (ao_last_turn_id out)))
          | Inl e \<Rightarrow> (\<exists>msg. e = ONoCapacity msg) \<and> st = 503 \<and> ap_relay w' = ap_relay w \<and>
              sq_inner (ap_queue w') = sq_inner (ap_queue w) @ [\<lparr>qs_session_id = sid, qs_user_token = token, qs_queued_at = tk_now tk\<rparr>] \<and>
              (\<exists>j err. body = RJson j \<and> jget j ''error'' = Some err \<and> jget err ''code'' = Some (JStr ''no_capacity'') \<and>
                 jget err ''retryable'' = Some (JBool True) \<and> jget err ''queued'' = Some (JBool True))))"
proof (cases res)
  case (Inl e)
  with connect_session_Inl [of D tk env sid token w w' e] assms show ?thesis by simp
next
  case (Inr r)
  obtain st body where r: "r = (st, body)" by (cases r)
  from assms Inr have "connect_session D tk env sid token w = (w', Inr r)" by simp
  then show ?thesis
  proof (rule connect_session_Inr)
    fix p sm
    assume p: "snd (allowed D tk token VSession w) = Inr p" "index_get (p_owner p) sid (ap_sessions w) = Some sm"
      and se: "ap_sessions w' = ap_sessions w" and ctl: "ap_ctl w' = fst (connect_assign D tk env sid token w)"
      and or: "(\<exists>out. snd (connect_assign D tk env sid token w) = Inr out \<and> r = connect_reply out \<and>
        ap_relay w' = relay_bind (ao_connection_id out) (ao_pod_id out) sid (ap_relay w) \<and> ap_queue w' = ap_queue w) \<or>
     (\<exists>msg. snd (connect_assign D tk env sid token w) = Inl (ONoCapacity msg) \<and> r = queued_reply (dp_provider D) \<and>
        ap_relay w' = ap_relay w \<and>
        ap_queue w' = enqueue \<lparr>qs_session_id = sid, qs_user_token = token, qs_queued_at = tk_now tk\<rparr> (ap_queue w))"
    have "verb_allows VSession (p_scope p)" using allow_scope p(1) by (metis prod.collapse)
    then have who: "\<exists>p sm. snd (allowed D tk token VSession w) = Inr p \<and> p_scope p \<in> {User, Admin} \<and> index_get (p_owner p) sid (ap_sessions w) = Some sm"
      using p by (auto simp: verb_allows_def)
    from or show ?thesis
    proof (elim disjE exE conjE)
      fix out
      assume out: "snd (connect_assign D tk env sid token w) = Inr out" "r = connect_reply out"
        "ap_relay w' = relay_bind (ao_connection_id out) (ao_pod_id out) sid (ap_relay w)" "ap_queue w' = ap_queue w"
      have "connect_assign D tk env sid token w = (ap_ctl w', Inr out)" using ctl out(1) by (simp add: prod_eq_iff)
      from connect_assign_frame [OF this] connect_reply_body [of out] Inr r se who out connect_assign_id [OF out(1)]
      show ?thesis by (auto simp: relay_bind_def)
    next
      fix msg
      assume "snd (connect_assign D tk env sid token w) = Inl (ONoCapacity msg)" "r = queued_reply (dp_provider D)" "ap_relay w' = ap_relay w"
        "ap_queue w' = enqueue \<lparr>qs_session_id = sid, qs_user_token = token, qs_queued_at = tk_now tk\<rparr> (ap_queue w)"
      with queued_reply_body [of "dp_provider D"] Inr r se who show ?thesis by (auto simp: sq.items_enq)
    qed
  qed
qed

text \<open>
  Creating a session. A session is only created for a named persona and after the memory
  service took its first event; then it is visible, with no turns, to the owner of the token and to
  no one else, and every other session of every owner is as it was. When any step fails (the token,
  the rate, an empty persona, the memory service) nothing is registered.
\<close>

theorem create_registers_for_owner:
  assumes "index_ok (ap_sessions w)" and "create_session D tk token persona w = (w', res)"
  shows "case res of
      Inl e \<Rightarrow> same_state w w'
    | Inr r \<Rightarrow> fst r = 201 \<and> persona \<noteq> [] \<and> index_ok (ap_sessions w') \<and>
        (\<exists>p. snd (allowed D tk token VSession w) = Inr p \<and>
           is_ok (snd (client_create_session (dp_libs D) (dp_net D) (dp_base D) (tk_uuid tk) (p_owner p) (tk_stamp tk) token (ct_net (ap_ctl w)))) \<and>
           (\<forall>ow sid. index_get ow sid (ap_sessions w') =
              (if ow = p_owner p \<and> sid = tk_uuid tk
               then Some \<lparr>sm_session_id = tk_uuid tk, sm_updated_at = tk_stamp tk, sm_turns = 0\<rparr>
               else index_get ow sid (ap_sessions w))))"
proof (cases res)
  case (Inl e)
  with create_session_Inl [of D tk token persona w w' e] assms(2) show ?thesis by simp
next
  case (Inr r)
  with assms(2) have "create_session D tk token persona w = (w', Inr r)" by simp
  then show ?thesis
  proof (rule create_session_Inr)
    fix p
    assume "snd (allowed D tk token VSession w) = Inr p" "persona \<noteq> []" "fst r = 201"
      "snd (client_create_session (dp_libs D) (dp_net D) (dp_base D) (tk_uuid tk) (p_owner p) (tk_stamp tk) token (ct_net (ap_ctl w))) = Inr ()"
      "ap_sessions w' = index_upsert (p_owner p) \<lparr>sm_session_id = tk_uuid tk, sm_updated_at = tk_stamp tk, sm_turns = 0\<rparr> (ap_sessions w)"
    with Inr oc.inv_upsert [OF assms(1)] show ?thesis by (simp add: oc.lookup_upsert [OF assms(1)])
  qed
qed

text \<open>
  Deleting a session is not idempotent for the client. A first delete that is answered removes
  the session from its owner's list (204), leaves every other session of every owner and writes one
  audit line with the hash of the owner; the same
  request repeated with a token that still verifies for the same owner is answered with not found
  and changes nothing, although the route is documented as idempotent.
\<close>

theorem second_delete_not_found:
  assumes "index_ok (ap_sessions w)" and "delete_session D tk sid token w = (w1, Inr r)"
    and "snd (allowed D tk token VSession w) = Inr p" and "snd (allowed D tk' token VSession w1) = Inr p"
    and "delete_session D tk' sid token w1 = (w2, res)"
  shows "r = (204, REmpty) \<and>
    (\<forall>ow sid'. index_get ow sid' (ap_sessions w1) = (if ow = p_owner p \<and> sid' = sid then None else index_get ow sid' (ap_sessions w))) \<and>
    ap_audit w1 = ap_audit w @ [deletion_line D tk sid p] \<and> res = Inl (ONotFound sid) \<and> status (ONotFound sid) = 404 \<and> same_state w1 w2"
proof (rule delete_session_Inr [OF assms(2)])
  fix p' sm
  assume "snd (allowed D tk token VSession w) = Inr p'" and rm: "ap_sessions w1 = index_remove (p_owner p') sid (ap_sessions w)"
    and r: "r = (204, REmpty)" and line: "ap_audit w1 = ap_audit w @ [deletion_line D tk sid p']"
  with assms(3) have "p' = p" by simp
  with rm have get: "index_get ow sid' (ap_sessions w1) = (if ow = p_owner p \<and> sid' = sid then None else index_get ow sid' (ap_sessions w))" for ow sid'
    by (simp add: oc.lookup_delete [OF assms(1)])
  then have "res = Inl (ONotFound sid)"
    using assms(4,5) by (cases "allowed D tk' token VSession w1") (simp add: delete_session_def gate_def owned_def)
  with get r line \<open>p' = p\<close> delete_session_Inl assms(5) show ?thesis by (auto simp: status_def)
qed

text \<open>
  A session that asked twice outlives its deletion in the queue. Each request to connect
  without capacity enqueues the session once more, and a delete takes one entry out of the queue, so
  a session that was answered \<open>no_capacity\<close> twice is still waiting for a pod after it was deleted.
\<close>

theorem requeued_session_survives_delete:
  assumes "connect_session D tk env sid token w = (w1, Inr (503, b1))"
    and "connect_session D tk' env' sid token w1 = (w2, Inr (503, b2))"
    and "delete_session D tk'' sid token w2 = (w3, Inr r)"
  shows "sid \<in> qs_session_id ` set (sq_inner (ap_queue w3))"
proof -
  have enq: "\<exists>q. qs_session_id q = sid \<and> ap_queue v' = enqueue q (ap_queue v)"
    if "connect_session D tk env sid token v = (v', Inr (503, b))" for tk env v v' b
  proof (rule connect_session_Inr [OF that])
    assume "(\<exists>out. snd (connect_assign D tk env sid token v) = Inr out \<and> (503, b) = connect_reply out \<and>
        ap_relay v' = relay_bind (ao_connection_id out) (ao_pod_id out) sid (ap_relay v) \<and> ap_queue v' = ap_queue v) \<or>
     (\<exists>msg. snd (connect_assign D tk env sid token v) = Inl (ONoCapacity msg) \<and> (503, b) = queued_reply (dp_provider D) \<and>
        ap_relay v' = ap_relay v \<and>
        ap_queue v' = enqueue \<lparr>qs_session_id = sid, qs_user_token = token, qs_queued_at = tk_now tk\<rparr> (ap_queue v))"
    then show ?thesis by (metis connect_reply_def fst_conv num.simps(7) numeral_eq_iff queued_session.select_convs(1) semiring_norm(86))
  qed
  from enq [OF assms(1)] enq [OF assms(2)] obtain q1 q2 where q: "qs_session_id q1 = sid" "qs_session_id q2 = sid"
    "ap_queue w1 = enqueue q1 (ap_queue w)" "ap_queue w2 = enqueue q2 (ap_queue w1)" by blast
  then have items: "sq_inner (ap_queue w2) = sq_inner (ap_queue w) @ [q1, q2]" by (simp add: sq.items_enq)
  then have "sid \<in> qs_session_id ` set (sq_inner (ap_queue w) @ [q1])" using q by simp
  then obtain xs x ys where x: "sq_inner (ap_queue w) @ [q1] = xs @ x # ys" "qs_session_id x = sid" "sid \<notin> qs_session_id ` set xs"
    by (rule split_first_key)
  then have "sq_inner (ap_queue w2) = xs @ x # (ys @ [q2])" using items by (metis append.assoc append_Cons append_Nil)
  from sq.rem_present [OF this x(2,3)] have "sq_inner (fst (queue_remove sid (ap_queue w2))) = xs @ ys @ [q2]" by simp
  moreover have "ap_queue w3 = fst (queue_remove sid (ap_queue w2))" using assms(3) by (rule delete_session_Inr)
  ultimately show ?thesis using q by simp
qed

text \<open>
  C23. Tokens are minted by administrators, and never for pods. When the route answers with a
  token, the request's own token was an admin's, the scope asked for was \<open>user\<close> or \<open>admin\<close>, and the
  new token verifies for a day as exactly that owner and that scope, or Redis is
  unreachable; the audit log gets one line, with the hash of the owner and without the token.
\<close>

theorem admin_mints_verifiable_tokens:
  assumes "redis_laws (dp_redis D) db" and "crypto_laws (dp_crypto D)" and "length (fr_raw (tk_fresh tk)) = TOKEN_TOTAL_BYTES"
    and "0 \<le> tk_ts tk" and "tk_ts tk + DEFAULT_TOKEN_TTL < 2 ^ 63"
    and "mint_token D tk token ow scope_text w = (w', Inr r)"
  shows "\<exists>p tok sc. snd (allowed D tk token VAdmin w) = Inr p \<and> p_scope p = Admin \<and>
    r = (200, RJson (jobject [(''token'', JStr tok)])) \<and> sc \<in> {User, Admin} \<and> scope_name sc = scope_text \<and>
    ap_audit w' = ap_audit w @ [audit_line (tk_stamp tk) ''orchestrator'' ''token_minted''
      (jobject [(''owner_hash'', JStr (owner_hash (dp_libs D) ow)), (''scope'', JStr (scope_name sc))])] \<and>
    (\<forall>t < tk_ts tk + DEFAULT_TOKEN_TTL.
       snd (verify (dp_crypto D) (dp_redis D) (dp_pepper D) t tok (ct_redis (ap_ctl w'))) \<in>
         {Inl Upstream, Inr \<lparr>p_owner = ow, p_scope = sc\<rparr>})"
proof -
  from assms(6) obtain p sc r0 r' tok where p: "snd (allowed D tk token VAdmin w) = Inr p" "p_scope p = Admin"
    and sc: "mint_scope scope_text = Inr sc"
    and m: "mint (dp_crypto D) (dp_redis D) (dp_pepper D) (tk_ts tk) (fr_raw (tk_fresh tk)) (fr_salt (tk_fresh tk)) ow sc DEFAULT_TOKEN_TTL r0 = (r', Inr tok)"
    and w': "ct_redis (ap_ctl w') = r'" "ap_audit w' = ap_audit w @ [audit_line (tk_stamp tk) ''orchestrator'' ''token_minted''
        (jobject [(''owner_hash'', JStr (owner_hash (dp_libs D) ow)), (''scope'', JStr scope_text)])]" and r: "r = (200, RJson (jobject [(''token'', JStr tok)]))"
    by (auto simp: mint_token_def audit_mint_def emit_def admin_gate_def then_do_Inr gate_Inr split: if_splits prod.splits sum.splits)
  have "sc \<in> {User, Admin} \<and> scope_name sc = scope_text" using sc by (auto simp: mint_scope_def split: if_splits)
  moreover have "0 < DEFAULT_TOKEN_TTL" by (simp add: DEFAULT_TOKEN_TTL_def)
  ultimately show ?thesis
    using minted_token_verifies [OF assms(1-3) _ assms(4,5) m] p r w' by blast
qed

subsection \<open>Witnesses\<close>

definition deps0 :: "(nat, mem, mock_provider) app_deps" where
  "deps0 = \<lparr>dp_libs = ref_libs, dp_net = net0, dp_base = ''http://m'', dp_crypto = ref_crypto, dp_redis = mem_redis True,
     dp_pepper = ''pp'', dp_provider = mock, dp_warm_floor = 1\<rparr>"

lemma deps0_fields: "dp_libs deps0 = ref_libs" "dp_net deps0 = net0" "dp_base deps0 = ''http://m''" "dp_crypto deps0 = ref_crypto"
  "dp_redis deps0 = mem_redis True" "dp_pepper deps0 = ''pp''"
  by (simp_all add: deps0_def)

abbreviation raw1 :: "u8 list" where "raw1 \<equiv> replicate 32 66"

definition tick0 :: tick where
  "tick0 = \<lparr>tk_ts = 2, tk_now = 5, tk_stamp = ''t'', tk_uuid = ''s1'', tk_fresh = fresh0\<lparr>fr_raw := raw1\<rparr>\<rparr>"

definition store0 :: "string \<Rightarrow> string \<Rightarrow> mem" where
  "store0 owner sc = [(''token:AAAAAAAAAAAAAAAA'', MHash [(''revoked'', ''0''), (''exp'', ''7''),
     (''phash'', ''AAAAAAAAAAAAAAAAAAAAAAAAAAAAAAAApp''), (''scope'', sc), (''owner'', owner)], Some 7)]"

definition app0 :: "(nat, mem) app" where
  "app0 = \<lparr>ap_ctl = world0\<lparr>ct_redis := (store0 ''alice'' ''user'')\<rparr>, ap_sessions = new_index, ap_queue = new_queue, ap_relay = Map.empty, ap_rates = Map.empty, ap_audit = []\<rparr>"

definition idle0 :: "(nat, mem) app" where
  "idle0 = app0\<lparr>ap_ctl := (ap_ctl app0)\<lparr>ct_registry := new_registry\<rparr>,
     ap_sessions := index_upsert ''alice'' \<lparr>sm_session_id = ''s1'', sm_updated_at = ''t'', sm_turns = 0\<rparr> new_index\<rparr>"

definition created0 where "created0 = create_session deps0 tick0 token0 ''sage'' app0"

abbreviation ready0 :: "(nat, mem) app" where "ready0 \<equiv> idle0\<lparr>ap_ctl := ap_ctl app0\<rparr>"

definition connected0 where "connected0 = connect_session deps0 tick0 (\<lambda>s. s) ''s1'' token0 ready0"

lemma eval1: "is_ok (snd created0)"
  by code_simp

lemma eval2: "allow ref_crypto (mem_redis True) ''pp'' 2 token0 VSession (store0 ''alice'' ''user'') =
     (store0 ''alice'' ''user'', Inr \<lparr>p_owner = ''alice'', p_scope = User\<rparr>)"
  by code_simp

lemma eval3: "allow ref_crypto (mem_redis True) ''pp'' 2 token0 VAdmin (store0 ''root'' ''admin'') =
     (store0 ''root'' ''admin'', Inr \<lparr>p_owner = ''root'', p_scope = Admin\<rparr>)"
  by code_simp

lemma eval4: "mem_hash (mem_purge 1 (store0 ''alice'' ''user'')) (token_key (b64enc ref_crypto (take TOKEN_ID_BYTES raw1))) = Some []"
  by code_simp

lemma eval5: "mem_hash (mem_purge 2 (store0 ''root'' ''admin'')) (token_key (b64enc ref_crypto (take TOKEN_ID_BYTES raw1))) = Some []"
  by code_simp

lemma eval6: "argon_hash ref_crypto ''s'' (b64enc ref_crypto raw1 @ ''pp'') = Some (b64enc ref_crypto raw1 @ ''pp'')"
  by code_simp

lemma eval7: "Option.bind (to_vec ref_libs (JObj [])) (from_slice ref_libs) = Some (JObj [])"
  by code_simp

lemma allowed0: "ct_redis (ap_ctl w) = (store0 ''alice'' ''user'') \<Longrightarrow> allowed deps0 tick0 token0 VSession w = (store0 ''alice'' ''user'', Inr \<lparr>p_owner = ''alice'', p_scope = User\<rparr>)"
  using eval2 by (simp add: deps0_def tick0_def)

lemma create_registers_for_owner_witness:
  "index_get ''alice'' ''s1'' (ap_sessions (fst created0)) = Some \<lparr>sm_session_id = ''s1'', sm_updated_at = ''t'', sm_turns = 0\<rparr>"
proof -
  obtain r where r: "snd created0 = Inr r" using eval1 by (cases "snd created0") auto
  have "index_ok (ap_sessions app0)" "ct_redis (ap_ctl app0) = (store0 ''alice'' ''user'')" by (simp_all add: app0_def new_index_def index_ok_def)
  from create_registers_for_owner [OF this(1), of deps0 tick0 token0 "''sage''" "fst created0" "snd created0"] r allowed0 [OF this(2)]
  have "\<forall>sid. sid = tk_uuid tick0 \<longrightarrow> index_get ''alice'' sid (ap_sessions (fst created0)) =
      Some \<lparr>sm_session_id = tk_uuid tick0, sm_updated_at = tk_stamp tick0, sm_turns = 0\<rparr>"
    by (auto simp: created0_def)
  then show ?thesis by (simp add: tick0_def)
qed

lemma mint_mem_ok:
  assumes "mem_hash (mem_purge now r) (token_key (b64enc C (take TOKEN_ID_BYTES raw))) = Some h" and "argon_hash C salt (b64enc C raw @ pepper) = Some ph"
  shows "is_ok (snd (mint C (mem_redis True) pepper now raw salt ow sc ttl r))"
  using assms by (simp add: mint_def hash_token_def write_record_def with_conn_def mem_redis_def or_err_def Let_def)

lemma idle0: "index_ok (ap_sessions idle0)" "ct_redis (ap_ctl idle0) = (store0 ''alice'' ''user'')" "ct_registry (ap_ctl idle0) = new_registry"
  "index_get ''alice'' ''s1'' (ap_sessions idle0) = Some \<lparr>sm_session_id = ''s1'', sm_updated_at = ''t'', sm_turns = 0\<rparr>" "ap_rates idle0 = Map.empty"
proof -
  have "index_ok new_index" by (simp add: new_index_def index_ok_def)
  then show "index_ok (ap_sessions idle0)"
    "index_get ''alice'' ''s1'' (ap_sessions idle0) = Some \<lparr>sm_session_id = ''s1'', sm_updated_at = ''t'', sm_turns = 0\<rparr>"
    by (simp_all add: idle0_def oc.inv_upsert oc.lookup_upsert)
qed (simp_all add: idle0_def app0_def)

lemma check0: "check_at k Resume 5 Map.empty = ([(k, Resume) \<mapsto> \<lparr>w_start = 5, w_count = 1\<rparr>], Inr ())"
  "snd (check_at k Resume 5 [(k, Resume) \<mapsto> \<lparr>w_start = 5, w_count = 1\<rparr>]) = Inr ()"
  by (simp_all add: check_at_roll roll_def window_def limit_def Let_def)

lemma load0: "\<exists>load. client_load ref_libs net0 base sid token h = (Suc h, Inr load)"
proof -
  from eval7 show ?thesis by (simp add: client_load_def json_call_def net0_def is_success_def Let_def)
qed

lemma connected0_ok: "\<exists>body. snd connected0 = Inr (200, body)"
proof -
  let ?r = "store0 ''alice'' ''user''" and ?C = ref_crypto
  let ?m = "mint ?C (mem_redis True) ''pp'' 1 raw1 ''s'' ''s1'' Pod POD_TOKEN_TTL ?r"
  from mint_mem_ok [OF eval4 eval6, of "''s1''" Pod POD_TOKEN_TTL] obtain r1 tok where m: "?m = (r1, Inr tok)"
    by (cases ?m; cases "snd ?m") (auto simp: is_ok_def)
  obtain load where load: "client_load ref_libs net0 ''http://m'' ''s1'' token0 0 = (1, Inr load)" using load0 by fastforce
  have row: "ps_id row1 = ''p''" by (simp add: row1_def ready_row_def new_pod_def)
  have g: "gate deps0 tick0 token0 VSession ready0 = (ready0, Inr \<lparr>p_owner = ''alice'', p_scope = User\<rparr>)"
    using allowed0 [of ready0] by (simp add: gate_def app0_def)
  have rg: "rate_gate deps0 tick0 token0 Resume ready0 = (ready0\<lparr>ap_rates := fst (check_at (rate_key ?C token0) Resume 5 Map.empty)\<rparr>, Inr ())"
    by (simp add: rate_gate_def deps0_def tick0_def idle0(5) check0)
  have eq: "connected0 = answer_assign deps0 tick0 ''s1'' token0
      (assign_session ref_libs net0 ''http://m'' ?C (mem_redis True) ''pp'' (tk_fresh tick0) (\<lambda>s. s) ''s1'' token0 (ap_ctl app0))
      (ready0\<lparr>ap_rates := fst (check_at (rate_key ?C token0) Resume 5 Map.empty)\<rparr>)"
    using idle0(4) by (simp add: connected0_def connect_session_def g rg deps0_fields)
  show ?thesis
    unfolding eq using m load pick0 row
    by (simp add: assign_session_def answer_assign_def connect_reply_def tick0_def fresh0_def app0_def world0_def)
qed

lemma connect_outcome_witness:
  "\<exists>out sent frame. snd (connect_assign deps0 tick0 (\<lambda>s. s) ''s1'' token0 ready0) = Inr out \<and>
     ap_relay (fst connected0) = (ap_relay ready0)(''c'' \<mapsto> \<lparr>rr_pod_id = ao_pod_id out, rr_session_id = ''s1''\<rparr>) \<and>
     ct_channels (ap_ctl (fst connected0)) (ao_pod_id out) = Some (sent @ [frame]) \<and> jget frame ''connection_id'' = Some (JStr ''c'') \<and>
     ap_queue (fst connected0) = ap_queue ready0"
proof -
  obtain body where r: "snd connected0 = Inr (200, body)" using connected0_ok by blast
  have c: "fr_connection_id (tk_fresh tick0) = ''c''" by (simp add: tick0_def fresh0_def)
  have "connect_session deps0 tick0 (\<lambda>s. s) ''s1'' token0 ready0 = (fst connected0, Inr (200, body))" using r by (simp add: connected0_def prod_eq_iff)
  from connect_outcome [OF this] c show ?thesis
    by (cases "snd (connect_assign deps0 tick0 (\<lambda>s. s) ''s1'' token0 ready0)") auto
qed

text \<open>A client whose session finds no pod.\<close>

abbreviation qs0 :: queued_session where "qs0 \<equiv> \<lparr>qs_session_id = ''s1'', qs_user_token = token0, qs_queued_at = 5\<rparr>"

lemma no_pod0: "pick new_registry (- 1) ch = None"
  by (simp add: pick_def pods_snapshot_def new_registry_def)

lemma connect_idle:
  assumes "snd (check_at (rate_key ref_crypto token0) Resume 5 rl) = Inr ()"
  shows "connect_session deps0 tick0 (\<lambda>s. s) ''s1'' token0 (idle0\<lparr>ap_rates := rl, ap_queue := q\<rparr>) =
   (idle0\<lparr>ap_rates := fst (check_at (rate_key ref_crypto token0) Resume 5 rl), ap_queue := enqueue qs0 q\<rparr>, Inr (queued_reply mock))"
proof -
  let ?w = "idle0\<lparr>ap_rates := rl, ap_queue := q\<rparr>"
  have "gate deps0 tick0 token0 VSession ?w = (?w, Inr \<lparr>p_owner = ''alice'', p_scope = User\<rparr>)"
    using allowed0 [of ?w] idle0(2) by (simp add: gate_def)
  moreover have "rate_gate deps0 tick0 token0 Resume ?w = (?w\<lparr>ap_rates := fst (check_at (rate_key ref_crypto token0) Resume 5 rl)\<rparr>, Inr ())"
    using assms by (cases "check_at (rate_key ref_crypto token0) Resume 5 rl") (simp add: rate_gate_def deps0_def tick0_def)
  ultimately show ?thesis
    using idle0(3,4) by (simp add: connect_session_def assign_session_def no_pod0 answer_assign_def) (simp add: deps0_def tick0_def)
qed

lemma delete_idle:
  "delete_session deps0 tick0 ''s1'' token0 (idle0\<lparr>ap_rates := rl, ap_queue := q\<rparr>) = (idle0\<lparr>ap_rates := rl, ap_queue := fst (queue_remove ''s1'' q),
      ap_sessions := index_remove ''alice'' ''s1'' (ap_sessions idle0), ap_ctl := (ap_ctl idle0)\<lparr>ct_net := 1\<rparr>,
      ap_audit := ap_audit idle0 @ [deletion_line deps0 tick0 ''s1'' \<lparr>p_owner = ''alice'', p_scope = User\<rparr>]\<rparr>, Inr (204, REmpty))"
proof -
  let ?w = "idle0\<lparr>ap_rates := rl, ap_queue := q\<rparr>"
  have "gate deps0 tick0 token0 VSession ?w = (?w, Inr \<lparr>p_owner = ''alice'', p_scope = User\<rparr>)"
    using allowed0 [of ?w] idle0(2) by (simp add: gate_def)
  moreover have "memoryd_call (client_delete_session (dp_net deps0) (dp_base deps0) ''s1'' token0) ?w = (?w\<lparr>ap_ctl := (ap_ctl idle0)\<lparr>ct_net := 1\<rparr>\<rparr>, Inr ())"
    by (simp add: memoryd_call_def client_delete_session_def deps0_def net0_def is_success_def idle0_def app0_def world0_def)
  ultimately show ?thesis
    using idle0(4) by (simp add: delete_session_def owned_def audit_delete_def emit_def deletion_line_def)
qed

lemma requeued_session_survives_delete_witness:
  "\<exists>w1 w2 w3 b. connect_session deps0 tick0 (\<lambda>s. s) ''s1'' token0 (idle0\<lparr>ap_rates := Map.empty, ap_queue := new_queue\<rparr>) = (w1, Inr (503, b)) \<and>
     connect_session deps0 tick0 (\<lambda>s. s) ''s1'' token0 w1 = (w2, Inr (503, b)) \<and>
     delete_session deps0 tick0 ''s1'' token0 w2 = (w3, Inr (204, REmpty)) \<and> ''s1'' \<in> qs_session_id ` set (sq_inner (ap_queue w3))"
proof -
  obtain b where b: "queued_reply mock = (503, b)" by (simp add: queued_reply_def queued_eta_def)
  note first = connect_idle [where rl = Map.empty and q = new_queue, unfolded check0 b fst_conv, OF snd_conv]
  note second = connect_idle [OF check0(2), unfolded b, where q = "enqueue qs0 new_queue"]
  note third = delete_idle [where rl = "fst (check_at (rate_key ref_crypto token0) Resume 5 [(rate_key ref_crypto token0, Resume) \<mapsto> \<lparr>w_start = 5, w_count = 1\<rparr>])" and q = "enqueue qs0 (enqueue qs0 new_queue)"]
  from requeued_session_survives_delete [OF first second third] first second third show ?thesis by blast
qed

lemma second_delete_not_found_witness:
  "\<exists>w1. delete_session deps0 tick0 ''s1'' token0 (idle0\<lparr>ap_rates := Map.empty, ap_queue := new_queue\<rparr>) = (w1, Inr (204, REmpty)) \<and>
     snd (delete_session deps0 tick0 ''s1'' token0 w1) = Inl (ONotFound ''s1'')"
proof -
  let ?w = "idle0\<lparr>ap_rates := Map.empty, ap_queue := new_queue\<rparr>"
  note first = delete_idle [where rl = Map.empty and q = new_queue]
  from first obtain w1 where w1: "delete_session deps0 tick0 ''s1'' token0 ?w = (w1, Inr (204, REmpty))"
    and redis: "ct_redis (ap_ctl w1) = (store0 ''alice'' ''user'')" using idle0(2) by simp
  have ok: "index_ok (ap_sessions ?w)" using idle0(1) by simp
  have p: "snd (allowed deps0 tick0 token0 VSession ?w) = Inr \<lparr>p_owner = ''alice'', p_scope = User\<rparr>" using allowed0 [of ?w] idle0(2) by simp
  have p1: "snd (allowed deps0 tick0 token0 VSession w1) = Inr \<lparr>p_owner = ''alice'', p_scope = User\<rparr>" using allowed0 [OF redis] by simp
  from second_delete_not_found [OF ok w1 p p1 surjective_pairing] w1 show ?thesis by blast
qed

definition mint0 where
  "mint0 = mint_token deps0 tick0 token0 ''bob'' ''user'' (idle0\<lparr>ap_ctl := world0\<lparr>ct_redis := store0 ''root'' ''admin''\<rparr>\<rparr>)"

lemma mint0_ok: "is_ok (snd mint0)"
proof -
  let ?r = "store0 ''root'' ''admin''" and ?C = ref_crypto
  from mint_mem_ok [OF eval5 eval6, of "''bob''" User DEFAULT_TOKEN_TTL] obtain r1 tok where
    "mint ?C (mem_redis True) ''pp'' 2 raw1 ''s'' ''bob'' User DEFAULT_TOKEN_TTL ?r = (r1, Inr tok)"
    by (cases "mint ?C (mem_redis True) ''pp'' 2 raw1 ''s'' ''bob'' User DEFAULT_TOKEN_TTL ?r"; cases "snd (mint ?C (mem_redis True) ''pp'' 2 raw1 ''s'' ''bob'' User DEFAULT_TOKEN_TTL ?r)") (auto simp: is_ok_def)
  with eval3 show ?thesis
    by (simp add: mint0_def mint_token_def admin_gate_def gate_def mint_scope_def deps0_def tick0_def fresh0_def)
qed

lemma admin_mints_verifiable_tokens_witness:
  "\<exists>tok. snd mint0 = Inr (200, RJson (jobject [(''token'', JStr tok)])) \<and>
     snd (verify ref_crypto (mem_redis True) ''pp'' 9 tok (ct_redis (ap_ctl (fst mint0)))) \<in> {Inl Upstream, Inr \<lparr>p_owner = ''bob'', p_scope = User\<rparr>}"
proof -
  obtain r where r: "snd mint0 = Inr r" using mint0_ok by (cases "snd mint0") auto
  have d: "dp_redis deps0 = mem_redis True" "dp_crypto deps0 = ref_crypto" "dp_pepper deps0 = ''pp''"
    "length (fr_raw (tk_fresh tick0)) = TOKEN_TOTAL_BYTES" "tk_ts tick0 = 2"
    by (simp_all add: deps0_def tick0_def TOKEN_TOTAL_BYTES_def TOKEN_ID_BYTES_def)
  have law: "redis_laws (dp_redis deps0) mem_abs" unfolding d by (rule mem_redis_laws)
  have run: "mint_token deps0 tick0 token0 ''bob'' ''user'' (idle0\<lparr>ap_ctl := world0\<lparr>ct_redis := store0 ''root'' ''admin''\<rparr>\<rparr>) = (fst mint0, Inr r)"
    using r by (simp add: mint0_def prod_eq_iff)
  from admin_mints_verifiable_tokens [OF law _ d(4) _ _ run] obtain tok sc where
    "r = (200, RJson (jobject [(''token'', JStr tok)]))" "scope_name sc = ''user''"
    "\<forall>t < 2 + DEFAULT_TOKEN_TTL. snd (verify ref_crypto (mem_redis True) ''pp'' t tok (ct_redis (ap_ctl (fst mint0)))) \<in>
       {Inl Upstream, Inr \<lparr>p_owner = ''bob'', p_scope = sc\<rparr>}"
    unfolding d by (auto simp: ref_crypto_laws DEFAULT_TOKEN_TTL_def)
  moreover have "(9::int) < 2 + DEFAULT_TOKEN_TTL" by (simp add: DEFAULT_TOKEN_TTL_def)
  moreover have "sc = User" using \<open>scope_name sc = ''user''\<close> by (cases sc) simp_all
  ultimately show ?thesis using r by blast
qed

end
