(* ===== verification/RunPod.thy ===== *)
theory RunPod
  imports Scaler OrchErr
begin

text \<open>
  \<open>crates/orchestrator/src/provider_runpod.rs\<close>: the driver of the RunPod cloud, and what the
  autoscaler makes of it. The RunPod service is the network of the driver's HTTP client; what the
  driver relies on of it is \<open>runpod_laws\<close>. The texts the client library makes of a failed request,
  of a body it cannot read and of a status code are parameters, and so is the environment.
\<close>

subsection \<open>Configuration\<close>

record runpod_provider =
  rp_api_url :: string
  rp_api_key :: string
  rp_image :: string
  rp_volume_id :: "string option"
  rp_region :: "string option"
  rp_cloud :: string

record runpod_host =
  rh_env :: "string \<Rightarrow> string option"
  rh_send_error :: string
  rh_parse_error :: string
  rh_status_text :: "nat \<Rightarrow> string"

definition MODEL_DIR :: string where
  "MODEL_DIR = ''/workspace/models''"

definition new_runpod :: "string \<Rightarrow> string \<Rightarrow> string \<Rightarrow> string option \<Rightarrow> string option \<Rightarrow> string \<Rightarrow> runpod_provider" where
  "new_runpod api_url api_key img volume_id region cloud =
     \<lparr>rp_api_url = rev (dropWhile (\<lambda>c. c = CHR ''/'') (rev api_url)), rp_api_key = api_key, rp_image = img,
      rp_volume_id = volume_id, rp_region = region, rp_cloud = cloud\<rparr>"

definition non_empty :: "string option \<Rightarrow> string option" where
  "non_empty x = (case x of Some [] \<Rightarrow> None | _ \<Rightarrow> x)"

definition from_env :: "(string \<Rightarrow> string option) \<Rightarrow> prov_err + runpod_provider" where
  "from_env env =
     (case env ''RUNPOD_API_KEY'' of
        None \<Rightarrow> Inl (ProvError ''RUNPOD_API_KEY must be set when PROVIDER=runpod'')
      | Some api_key \<Rightarrow>
          Inr (new_runpod (unwrap_or (env ''VIHS_RUNPOD_API_URL'') ''https://api.runpod.io'') api_key
            (unwrap_or (env ''VIHS_RUNPOD_IMAGE'') ''vihs-pod:latest'')
            (non_empty (env ''VIHS_RUNPOD_VOLUME_ID'')) (non_empty (env ''VIHS_RUNPOD_REGION''))
            (unwrap_or (env ''VIHS_RUNPOD_CLOUD'') ''SECURE'')))"

subsection \<open>Creating a pod\<close>

text \<open>The container's environment: what the agent needs, and the operator's object merged over it.\<close>

definition container_env :: "libs \<Rightarrow> (string \<Rightarrow> string option) \<Rightarrow> pod_spec \<Rightarrow> json" where
  "container_env L env spec =
     (let base = [(''VIHS_POD_ID'', JStr (sp_id spec)), (''POD_MAX_SESSIONS'', JStr (show_u32 (sp_cap spec))), (''VIHS_REAL_STAGES'', JStr ''1'')];
          extra = (case Option.bind (env ''VIHS_RUNPOD_ENV'') (from_slice L) of Some (JObj obj) \<Rightarrow> obj | _ \<Rightarrow> []) in
      jobject (base @ extra))"

definition create_body :: "libs \<Rightarrow> (string \<Rightarrow> string option) \<Rightarrow> runpod_provider \<Rightarrow> pod_spec \<Rightarrow> json" where
  "create_body L env rp spec =
     jobject
       ([(''name'', JStr (''vihs-'' @ sp_id spec)), (''image'', JStr (rp_image rp)), (''env'', container_env L env spec),
         (''gpu'', jobject [(''id'', JStr (sp_gpu_type spec)), (''count'', ju64 1)]), (''cloud'', JStr (rp_cloud rp))] @
        (case rp_volume_id rp of
           Some vol \<Rightarrow> [(''mounts'', jobject [(''network'', JArr [jobject [(''volumeId'', JStr vol), (''path'', JStr MODEL_DIR)]])])]
         | None \<Rightarrow> []) @
        (case rp_region rp of Some region \<Rightarrow> [(''dataCenterIds'', JArr [JStr region])] | None \<Rightarrow> []))"

text \<open>
  The replies the driver reads. A derived reader takes an object, or the fields in order as an
  array; a field of type \<open>Option\<close> may be absent or null.
\<close>

definition opt_text :: "json option \<Rightarrow> string option option" where
  "opt_text v = (case v of None \<Rightarrow> Some None | Some JNull \<Rightarrow> Some None | Some (JStr s) \<Rightarrow> Some (Some s) | _ \<Rightarrow> None)"

definition read_pod :: "json \<Rightarrow> string option" where
  "read_pod v = (case v of JObj m \<Rightarrow> Option.bind (map_of m ''id'') as_str | JArr [x] \<Rightarrow> as_str x | _ \<Rightarrow> None)"

definition read_error :: "json \<Rightarrow> (string option \<times> string option) option" where
  "read_error v =
     (case v of
        JObj m \<Rightarrow> Option.bind (opt_text (map_of m ''detail'')) (\<lambda>d. map_option (Pair d) (opt_text (map_of m ''title'')))
      | JArr [d, t] \<Rightarrow> Option.bind (opt_text (Some d)) (\<lambda>d. map_option (Pair d) (opt_text (Some t)))
      | _ \<Rightarrow> None)"

definition error_text :: "libs \<Rightarrow> http_response \<Rightarrow> string" where
  "error_text L rs =
     (case unwrap_or (Option.bind (Option.bind (rs_body rs) (from_slice L)) read_error) (None, None) of
        (Some detail, _) \<Rightarrow> detail
      | (None, Some title) \<Rightarrow> title
      | (None, None) \<Rightarrow> ''unknown'')"

definition pods_url :: "runpod_provider \<Rightarrow> string" where
  "pods_url rp = rp_api_url rp @ ''/v2/pods''"

definition create_request :: "libs \<Rightarrow> runpod_host \<Rightarrow> runpod_provider \<Rightarrow> pod_spec \<Rightarrow> http_request" where
  "create_request L host rp spec =
     \<lparr>rq_method = POST, rq_url = pods_url rp, rq_bearer = rp_api_key rp, rq_body = Some (create_body L (rh_env host) rp spec)\<rparr>"

definition create_pod ::
    "libs \<Rightarrow> runpod_host \<Rightarrow> 'h http \<Rightarrow> runpod_provider \<Rightarrow> pod_spec \<Rightarrow> 'h \<Rightarrow> 'h \<times> (prov_err + string)" where
  "create_pod L host net rp spec h =
     (case net (create_request L host rp spec) h of
        (h', None) \<Rightarrow> (h', Inl (ProvError (''create pod request failed: '' @ rh_send_error host)))
      | (h', Some rs) \<Rightarrow>
          (h', if \<not> is_success (rs_status rs)
               then Inl (ProvError (''create pod HTTP '' @ rh_status_text host (rs_status rs) @ '': '' @ error_text L rs))
               else ok_or (Option.bind (Option.bind (rs_body rs) (from_slice L)) read_pod)
                      (ProvError (''create pod response parse: '' @ rh_parse_error host))))"

subsection \<open>Terminating a pod\<close>

definition delete_request :: "runpod_provider \<Rightarrow> string \<Rightarrow> http_request" where
  "delete_request rp pid =
     \<lparr>rq_method = DELETE, rq_url = pods_url rp @ ''/'' @ pid, rq_bearer = rp_api_key rp, rq_body = None\<rparr>"

definition delete_pod ::
    "libs \<Rightarrow> runpod_host \<Rightarrow> 'h http \<Rightarrow> runpod_provider \<Rightarrow> string \<Rightarrow> 'h \<Rightarrow> 'h \<times> (prov_err + unit)" where
  "delete_pod L host net rp pid h =
     (case net (delete_request rp pid) h of
        (h', None) \<Rightarrow> (h', Inl (ProvError (''terminate pod request failed: '' @ rh_send_error host)))
      | (h', Some rs) \<Rightarrow>
          (h', if \<not> is_success (rs_status rs) then
                 if rs_status rs = 404 then Inr ()
                 else Inl (ProvError (''terminate pod HTTP '' @ rh_status_text host (rs_status rs) @ '': '' @ error_text L rs))
               else Inr ()))"

definition runpod :: "libs \<Rightarrow> runpod_host \<Rightarrow> 'h http \<Rightarrow> runpod_provider \<Rightarrow> 'h provider" where
  "runpod L host net rp =
     \<lparr>pv_deploy = create_pod L host net rp, pv_terminate = delete_pod L host net rp, pv_cold_start_hint = 25 * 1000000000\<rparr>"

subsection \<open>The service\<close>

text \<open>
  What the RunPod API documents, for the pods that run: a creation that is answered with a success
  starts one pod, under an id of the service's own choice, and the body of the answer, if it arrives
  whole, is an object with that id; a deletion that is answered with a success stops the pod; any
  other answer changes nothing, and not found is only said of a pod that does not run. A request
  that is not answered may or may not have been served.
\<close>

definition runpod_laws :: "libs \<Rightarrow> 'h http \<Rightarrow> string \<Rightarrow> ('h \<Rightarrow> string set) \<Rightarrow> bool" where
  "runpod_laws L net url live \<longleftrightarrow>
     (\<forall>rq h h' res. net rq h = (h', res) \<longrightarrow>
        (rq_method rq = POST \<and> rq_url rq = url \<longrightarrow>
           (case res of
              None \<Rightarrow> live h' = live h \<or> (\<exists>pid. pid \<notin> live h \<and> live h' = insert pid (live h))
            | Some rs \<Rightarrow>
                if is_success (rs_status rs)
                then \<exists>pid. pid \<notin> live h \<and> live h' = insert pid (live h) \<and>
                       (\<forall>v. Option.bind (rs_body rs) (from_slice L) = Some v \<longrightarrow> (\<exists>m. v = JObj m \<and> map_of m ''id'' = Some (JStr pid)))
                else live h' = live h)) \<and>
        (\<forall>pid. rq_method rq = DELETE \<and> rq_url rq = url @ ''/'' @ pid \<longrightarrow>
           (case res of
              None \<Rightarrow> live h' = live h \<or> live h' = live h - {pid}
            | Some rs \<Rightarrow>
                if is_success (rs_status rs) then live h' = live h - {pid}
                else live h' = live h \<and> (rs_status rs = 404 \<longrightarrow> pid \<notin> live h))))"

lemma runpod_post:
  assumes "runpod_laws L net (pods_url rp) live" and "net (create_request L host rp spec) h = (h', res)"
  shows "case res of
      None \<Rightarrow> live h' = live h \<or> (\<exists>pid. pid \<notin> live h \<and> live h' = insert pid (live h))
    | Some rs \<Rightarrow>
        if is_success (rs_status rs)
        then \<exists>pid. pid \<notin> live h \<and> live h' = insert pid (live h) \<and>
               (\<forall>v. Option.bind (rs_body rs) (from_slice L) = Some v \<longrightarrow> (\<exists>m. v = JObj m \<and> map_of m ''id'' = Some (JStr pid)))
        else live h' = live h"
proof -
  have "rq_method (create_request L host rp spec) = POST \<and> rq_url (create_request L host rp spec) = pods_url rp"
    by (simp add: create_request_def)
  with assms show ?thesis unfolding runpod_laws_def by blast
qed

lemma runpod_delete:
  assumes "runpod_laws L net (pods_url rp) live" and "net (delete_request rp pid) h = (h', res)"
  shows "case res of
      None \<Rightarrow> live h' = live h \<or> live h' = live h - {pid}
    | Some rs \<Rightarrow>
        if is_success (rs_status rs) then live h' = live h - {pid}
        else live h' = live h \<and> (rs_status rs = 404 \<longrightarrow> pid \<notin> live h)"
proof -
  have "rq_method (delete_request rp pid) = DELETE \<and> rq_url (delete_request rp pid) = pods_url rp @ ''/'' @ pid"
    by (simp add: delete_request_def)
  with assms show ?thesis unfolding runpod_laws_def by blast
qed

text \<open>The two errors of a deployment that may have started a pod.\<close>

definition unanswered :: "runpod_host \<Rightarrow> prov_err" where
  "unanswered host = ProvError (''create pod request failed: '' @ rh_send_error host)"

definition unreadable :: "runpod_host \<Rightarrow> prov_err" where
  "unreadable host = ProvError (''create pod response parse: '' @ rh_parse_error host)"

lemma create_pod_outcome:
  assumes "runpod_laws L net (pods_url rp) live" and "create_pod L host net rp spec h = (h', res)"
  shows "case res of
      Inr pid \<Rightarrow> pid \<notin> live h \<and> live h' = insert pid (live h)
    | Inl e \<Rightarrow> live h' = live h \<and> e \<noteq> unreadable host \<or>
        (e = unanswered host \<or> e = unreadable host) \<and> (\<exists>pid. pid \<notin> live h \<and> live h' = insert pid (live h))"
proof -
  obtain h1 r where net: "net (create_request L host rp spec) h = (h1, r)" by fastforce
  note post = runpod_post [OF assms(1) net]
  show ?thesis
  proof (cases r)
    case None
    with assms(2) net post show ?thesis by (auto simp: create_pod_def unanswered_def unreadable_def)
  next
    case (Some rs)
    show ?thesis
    proof (cases "is_success (rs_status rs)")
      case True
      with post Some obtain pid where pid: "pid \<notin> live h" "live h1 = insert pid (live h)"
        "\<And>v. Option.bind (rs_body rs) (from_slice L) = Some v \<Longrightarrow> \<exists>m. v = JObj m \<and> map_of m ''id'' = Some (JStr pid)" by auto
      from assms(2) net Some True have r: "h' = h1"
        "res = ok_or (Option.bind (Option.bind (rs_body rs) (from_slice L)) read_pod) (unreadable host)"
        by (simp_all add: create_pod_def unreadable_def)
      show ?thesis
      proof (cases "Option.bind (rs_body rs) (from_slice L)")
        case None
        with r pid(1,2) show ?thesis by (auto simp: ok_or_def)
      next
        case (Some v)
        with pid(3) [OF Some] r pid(1,2) show ?thesis by (auto simp: ok_or_def read_pod_def)
      qed
    next
      case False
      with assms(2) net post Some show ?thesis by (auto simp: create_pod_def unreadable_def)
    qed
  qed
qed

lemma delete_pod_outcome:
  assumes "runpod_laws L net (pods_url rp) live" and "delete_pod L host net rp pid h = (h', res)"
  shows "case res of
      Inr u \<Rightarrow> live h' = live h - {pid}
    | Inl e \<Rightarrow> live h' = live h \<or> e = ProvError (''terminate pod request failed: '' @ rh_send_error host) \<and> live h' = live h - {pid}"
proof -
  obtain h1 r where net: "net (delete_request rp pid) h = (h1, r)" by fastforce
  note del = runpod_delete [OF assms(1) net]
  show ?thesis
  proof (cases r)
    case None
    with assms(2) net have "h1 = h'" "res = Inl (ProvError (''terminate pod request failed: '' @ rh_send_error host))"
      by (simp_all add: delete_pod_def)
    with del None show ?thesis by simp
  next
    case (Some rs)
    with assms(2) net have "h1 = h'" "is_success (rs_status rs) \<Longrightarrow> res = Inr ()" "rs_status rs = 404 \<Longrightarrow> res = Inr ()"
      "\<not> is_success (rs_status rs) \<Longrightarrow> rs_status rs \<noteq> 404 \<Longrightarrow> \<exists>e. res = Inl e"
      by (auto simp: delete_pod_def)
    with del Some show ?thesis by (cases "is_success (rs_status rs)"; cases "rs_status rs = 404") fastforce+
  qed
qed

text \<open>
  A service that answers every request, and whose answers to creations arrive whole, makes the driver
  a provider the orchestrator can rely on.
\<close>

locale runpod_cloud =
  fixes L :: libs and host :: runpod_host and net :: "'h http" and rp :: runpod_provider and live :: "'h \<Rightarrow> string set"
  assumes laws: "runpod_laws L net (pods_url rp) live"
    and answers: "net rq h \<noteq> (h', None)"
    and readable: "net rq h = (h', Some rs) \<Longrightarrow> rq_method rq = POST \<Longrightarrow> is_success (rs_status rs) \<Longrightarrow>
      Option.bind (rs_body rs) (from_slice L) \<noteq> None"
begin

lemma created: "pv_deploy (runpod L host net rp) spec h = (h', res) \<Longrightarrow>
    (case res of Inr pid \<Rightarrow> pid \<notin> live h \<and> live h' = insert pid (live h) | Inl e \<Rightarrow> live h' = live h)"
proof -
  assume run: "pv_deploy (runpod L host net rp) spec h = (h', res)"
  obtain h1 rs where net: "net (create_request L host rp spec) h = (h1, Some rs)"
    by (cases "net (create_request L host rp spec) h"; cases "snd (net (create_request L host rp spec) h)") (auto simp: answers)
  from run have pod: "create_pod L host net rp spec h = (h', res)" by (simp add: runpod_def)
  show ?thesis
  proof (cases res)
    case (Inl e)
    have "\<not> is_success (rs_status rs)"
    proof
      assume ok: "is_success (rs_status rs)"
      from readable [OF net] ok obtain v where v: "Option.bind (rs_body rs) (from_slice L) = Some v"
        by (auto simp: create_request_def)
      with runpod_post [OF laws net] ok have "read_pod v \<noteq> None" by (auto simp: read_pod_def)
      with pod net ok v Inl show False by (auto simp: create_pod_def ok_or_def)
    qed
    with runpod_post [OF laws net] pod net Inl show ?thesis by (auto simp: create_pod_def)
  next
    case (Inr pid)
    with create_pod_outcome [OF laws pod] show ?thesis by simp
  qed
qed

lemma deleted: "pv_terminate (runpod L host net rp) pid h = (h', res) \<Longrightarrow>
    (case res of Inr u \<Rightarrow> live h' = live h - {pid} | Inl e \<Rightarrow> live h' = live h)"
proof -
  assume run: "pv_terminate (runpod L host net rp) pid h = (h', res)"
  obtain h1 rs where net: "net (delete_request rp pid) h = (h1, Some rs)"
    by (cases "net (delete_request rp pid) h"; cases "snd (net (delete_request rp pid) h)") (auto simp: answers)
  from run have pod: "delete_pod L host net rp pid h = (h', res)" by (simp add: runpod_def)
  show ?thesis
  proof (cases res)
    case (Inl e)
    then have "\<not> is_success (rs_status rs)" "h1 = h'" using pod net by (auto simp: delete_pod_def split: if_splits)
    with runpod_delete [OF laws net] Inl show ?thesis by simp
  next
    case (Inr u)
    with delete_pod_outcome [OF laws pod] show ?thesis by simp
  qed
qed

end

sublocale runpod_cloud \<subseteq> pod_provider "runpod L host net rp" live
  by unfold_locales (auto dest: created deleted)

subsection \<open>A service in memory\<close>

text \<open>
  The ids of the pods that run; a new pod gets an id longer than all of them together. A deletion
  of a pod that does not run is answered with not found.
\<close>

definition fake_id :: "string list \<Rightarrow> string" where
  "fake_id pods = CHR ''p'' # concat pods"

definition fake_runpod :: "libs \<Rightarrow> string \<Rightarrow> string list http" where
  "fake_runpod L url rq pods =
     (case rq_method rq of
        POST \<Rightarrow>
          if rq_url rq = url
          then (fake_id pods # pods, Some \<lparr>rs_status = 201, rs_body = to_vec L (jobject [(''id'', JStr (fake_id pods))])\<rparr>)
          else (pods, Some \<lparr>rs_status = 404, rs_body = None\<rparr>)
      | DELETE \<Rightarrow>
          (case strip_prefix (rq_url rq) (url @ ''/'') of
             Some pid \<Rightarrow>
               if pid \<in> set pods then (filter (\<lambda>q. q \<noteq> pid) pods, Some \<lparr>rs_status = 204, rs_body = None\<rparr>)
               else (pods, Some \<lparr>rs_status = 404, rs_body = None\<rparr>)
           | None \<Rightarrow> (pods, Some \<lparr>rs_status = 404, rs_body = None\<rparr>))
      | GET \<Rightarrow> (pods, Some \<lparr>rs_status = 200, rs_body = None\<rparr>))"

lemma fake_id_fresh: "fake_id pods \<notin> set pods"
proof
  assume "fake_id pods \<in> set pods"
  then have "length (fake_id pods) \<le> length (concat pods)" by (auto simp: length_concat intro: member_le_sum_list)
  then show False by (simp add: fake_id_def)
qed

lemma fake_reply:
  assumes "serde_laws L"
  shows "\<exists>b. to_vec L (jobject [(''id'', JStr i)]) = Some b \<and> from_slice L b = Some (JObj [(''id'', JStr i)])"
  using serde_total [OF assms, of "jobject [(''id'', JStr i)]"] serde_roundtrip [OF assms, of "jobject [(''id'', JStr i)]"]
  by (auto simp: jobject_def bt_ok_Cons)

lemma fake_runpod_laws:
  assumes "serde_laws L"
  shows "runpod_laws L (fake_runpod L url) url set"
proof -
  have post: "\<exists>pid. pid \<notin> set h \<and> set (fake_id h # h) = insert pid (set h) \<and>
      (\<forall>v. Option.bind (to_vec L (jobject [(''id'', JStr (fake_id h))])) (from_slice L) = Some v \<longrightarrow>
         (\<exists>m. v = JObj m \<and> map_of m ''id'' = Some (JStr pid)))" for h
    using fake_reply [OF assms, of "fake_id h"] fake_id_fresh [of h] by (intro exI [of _ "fake_id h"]) auto
  have "strip_prefix (url @ ''/'' @ pid) (url @ ''/'') = Some pid" for pid
    using strip_prefix_append [of "url @ ''/''" pid] by simp
  then show ?thesis
    unfolding runpod_laws_def fake_runpod_def using post
    by (auto simp: is_success_def split: http_method.splits if_splits)
qed

definition rp0 :: runpod_provider where
  "rp0 = new_runpod ''http://r/'' ''key'' ''img'' None None ''SECURE''"

definition host0 :: runpod_host where
  "host0 = \<lparr>rh_env = (\<lambda>_. None), rh_send_error = ''down'', rh_parse_error = ''eof'', rh_status_text = show_nat\<rparr>"

interpretation rp: runpod_cloud ref_libs host0 "fake_runpod ref_libs (pods_url rp0)" rp0 set
proof
  show "runpod_laws ref_libs (fake_runpod ref_libs (pods_url rp0)) (pods_url rp0) set" by (rule fake_runpod_laws [OF ref_serde])
  show "fake_runpod ref_libs (pods_url rp0) rq h \<noteq> (h', None)" for rq h h'
    by (auto simp: fake_runpod_def split: http_method.splits option.splits)
  show "Option.bind (rs_body rs) (from_slice ref_libs) \<noteq> None"
    if "fake_runpod ref_libs (pods_url rp0) rq h = (h', Some rs)" "rq_method rq = POST" "is_success (rs_status rs)" for rq h h' rs
    using that fake_reply [OF ref_serde, of "fake_id h"] by (auto simp: fake_runpod_def is_success_def split: if_splits)
qed

subsection \<open>Properties\<close>

lemma deploy_one_Some:
  assumes "deploy_one P cfg fresh fl = (fl1, Some new_id)" and "fresh (fl_drawn fl) = (pid, made)"
  obtains cloud where
    "pv_deploy P \<lparr>sp_id = pid, sp_cap = sc_pod_max_sessions cfg, sp_region = ''auto'', sp_gpu_type = ''auto''\<rparr> (fl_cloud fl) = (cloud, Inr new_id)"
    "fl_cloud fl1 = cloud" "fl_registry fl1 = register made new_id ''127.0.0.1:0'' (sc_pod_max_sessions cfg) None (fl_registry fl)"
  using assms by (auto simp: deploy_one_def Let_def split: prod.splits sum.splits)

text \<open>
  C31. Deploying and terminating undo each other. A deployment that succeeds starts exactly one pod,
  new to the cloud, and returns its id. A termination of that id that succeeds leaves the cloud as it
  was before the deployment, one that fails leaves it alone or, when the request got no answer, may
  have stopped the pod; and of two terminations in a row it is enough that one succeeds. A deployment
  that fails has started nothing, unless the request got no answer (then one pod may run) or a
  success was answered with a body that cannot be read (then one pod runs): no one knows its id.
\<close>

theorem runpod_deploy_terminate_roundtrip:
  assumes "runpod_laws L net (pods_url rp) live" and "pv_deploy (runpod L host net rp) spec h = (h1, res)"
  shows "case res of
      Inl e \<Rightarrow> live h1 = live h \<and> e \<noteq> ProvError (''create pod response parse: '' @ rh_parse_error host) \<or>
        (e = ProvError (''create pod request failed: '' @ rh_send_error host) \<or>
         e = ProvError (''create pod response parse: '' @ rh_parse_error host)) \<and>
        (\<exists>pid. pid \<notin> live h \<and> live h1 = insert pid (live h))
    | Inr pid \<Rightarrow> pid \<notin> live h \<and> live h1 = insert pid (live h) \<and>
        (\<forall>h2 r2. pv_terminate (runpod L host net rp) pid h1 = (h2, r2) \<longrightarrow>
           (case r2 of
              Inr _ \<Rightarrow> live h2 = live h
            | Inl e \<Rightarrow> live h2 = live h1 \<or> live h2 = live h \<and> e = ProvError (''terminate pod request failed: '' @ rh_send_error host)) \<and>
           (\<forall>h3 r3. pv_terminate (runpod L host net rp) pid h2 = (h3, r3) \<longrightarrow> is_ok r2 \<or> is_ok r3 \<longrightarrow> live h3 = live h))"
proof -
  have dep: "create_pod L host net rp spec h = (h1, res)" using assms(2) by (simp add: runpod_def)
  have del: "case r of Inr u \<Rightarrow> live h' = live h - {pid}
      | Inl e \<Rightarrow> live h' = live h \<or> e = ProvError (''terminate pod request failed: '' @ rh_send_error host) \<and> live h' = live h - {pid}"
    if "pv_terminate (runpod L host net rp) pid h = (h', r)" for pid h h' r
    using delete_pod_outcome [OF assms(1), of host pid h h' r] that by (simp add: runpod_def)
  show ?thesis
  proof (cases res)
    case (Inl e)
    with create_pod_outcome [OF assms(1) dep] show ?thesis by (simp add: unanswered_def unreadable_def)
  next
    case (Inr pid)
    with create_pod_outcome [OF assms(1) dep] have pid: "pid \<notin> live h" "live h1 = insert pid (live h)" by simp_all
    then have undo: "live h1 - {pid} = live h" "live h - {pid} = live h" by auto
    have "case r2 of Inr _ \<Rightarrow> live h2 = live h
       | Inl e \<Rightarrow> live h2 = live h1 \<or> live h2 = live h \<and> e = ProvError (''terminate pod request failed: '' @ rh_send_error host)"
      if "pv_terminate (runpod L host net rp) pid h1 = (h2, r2)" for h2 r2
      using del [OF that] undo by (auto split: sum.splits)
    moreover have "live h3 = live h"
      if "pv_terminate (runpod L host net rp) pid h1 = (h2, r2)" "pv_terminate (runpod L host net rp) pid h2 = (h3, r3)"
        "is_ok r2 \<or> is_ok r3" for h2 r2 h3 r3
      using del [OF that(1)] del [OF that(2)] undo that(3) by (auto simp: is_ok_def split: sum.splits)
    ultimately show ?thesis using pid Inr by simp
  qed
qed

text \<open>
  A success whose body is lost leaves a pod that no one knows of: the driver reports an error, the
  autoscaler registers nothing, and one more pod runs.
\<close>

theorem runpod_lost_body_leaks_pod:
  assumes "runpod_laws L net (pods_url rp) live"
    and "\<And>spec. net (create_request L host rp spec) (fl_cloud fl) = (h', Some rs)" and "is_success (rs_status rs)"
    and "Option.bind (rs_body rs) (from_slice L) = None"
  shows "\<exists>fl1 pid. deploy_one (runpod L host net rp) cfg fresh fl = (fl1, None) \<and> fl_registry fl1 = fl_registry fl \<and>
    pid \<notin> live (fl_cloud fl) \<and> live (fl_cloud fl1) = insert pid (live (fl_cloud fl))"
proof -
  obtain i t where f: "fresh (fl_drawn fl) = (i, t)" by fastforce
  from runpod_post [OF assms(1,2)] assms(3) obtain pid where "pid \<notin> live (fl_cloud fl)" "live h' = insert pid (live (fl_cloud fl))" by auto
  with assms(2-4) f show ?thesis by (simp add: deploy_one_def runpod_def create_pod_def ok_or_def Let_def) blast
qed

text \<open>
  With the RunPod driver the first deployment stops the autoscaler and the pod cannot be
  stopped. The autoscaler registers the pod under the id the cloud returned, the pod registers
  itself under the id it was told (\<open>VIHS_POD_ID\<close>, the id the autoscaler drew), and the cloud's ids
  are its own. So once the pod is up the registry has a second row that stays Booting, after which
  no tick deploys anything, whatever the load and the queue; and when the autoscaler terminates the
  pod it knows, the cloud answers not found, the driver takes that for success, and the pod keeps
  running without a row of its own.
\<close>

theorem runpod_deploy_jams_autoscaler:
  assumes "runpod_laws L net (pods_url rp) live" and "reg_ok (fl_registry fl)"
    and "rh_env host ''VIHS_RUNPOD_ENV'' = None" and "fresh (fl_drawn fl) = (pid, made)"
    and "deploy_one (runpod L host net rp) cfg fresh fl = (fl1, Some new_id)" and "pid \<notin> live (fl_cloud fl1)"
    and "fl2 = fl1\<lparr>fl_registry := ready t2 pid (register t1 pid addr cap versions (fl_registry fl1))\<rparr>"
    and "\<forall>ev \<in> set evs. (\<forall>t. ev \<noteq> PodReady t new_id) \<and> ev \<noteq> PodDrained new_id"
  shows "jget (container_env L (rh_env host) \<lparr>sp_id = pid, sp_cap = sc_pod_max_sessions cfg, sp_region = ''auto'', sp_gpu_type = ''auto''\<rparr>) ''VIHS_POD_ID'' =
      Some (JStr pid) \<and>
    fl_drawn (fold (fleet_step P cfg' fresh) evs fl2) = fl_drawn fl2 \<and>
    (\<forall>fl3 ok. terminate_one (runpod L host net rp) pid fl2 = (fl3, ok) \<longrightarrow>
       new_id \<in> live (fl_cloud fl3) \<and> (ok \<longrightarrow> pr_pods (fl_registry fl3) pid = None))"
proof -
  obtain spec where "create_pod L host net rp spec (fl_cloud fl) = (fl_cloud fl1, Inr new_id)"
    and reg1: "fl_registry fl1 = register made new_id ''127.0.0.1:0'' (sc_pod_max_sessions cfg) None (fl_registry fl)"
    by (rule deploy_one_Some [OF assms(5,4)]) (auto simp: runpod_def)
  from create_pod_outcome [OF assms(1) this(1)] have live: "new_id \<in> live (fl_cloud fl1)" by auto
  with assms(6) have ne: "new_id \<noteq> pid" by blast
  then have "booting new_id fl2"
    unfolding assms(7) booting_def reg1 using assms(2)
    by (simp add: reg_ok_ops) (simp add: ready_def update_row_def register_def new_pod_def Let_def)
  note jam = fleet_run_booting [OF this assms(8), of P cfg' fresh, THEN conjunct2]
  have told: "jget (container_env L (rh_env host) \<lparr>sp_id = pid, sp_cap = sc_pod_max_sessions cfg, sp_region = ''auto'', sp_gpu_type = ''auto''\<rparr>) ''VIHS_POD_ID'' =
      Some (JStr pid)"
    using assms(3) by (simp add: container_env_def jobject_def)
  have "new_id \<in> live (fl_cloud fl3) \<and> (ok \<longrightarrow> pr_pods (fl_registry fl3) pid = None)"
    if stop: "terminate_one (runpod L host net rp) pid fl2 = (fl3, ok)" for fl3 ok
  proof -
    obtain res where del: "delete_pod L host net rp pid (fl_cloud fl1) = (fl_cloud fl3, res)" and ok: "ok \<longrightarrow> fl_registry fl3 = remove_pod pid (fl_registry fl2)"
      using stop by (auto simp: terminate_one_def runpod_def assms(7) Let_def split: prod.splits if_splits)
    from delete_pod_outcome [OF assms(1) del] live ne have "new_id \<in> live (fl_cloud fl3)" by (auto split: sum.splits)
    with ok show ?thesis by (simp add: remove_pod_def)
  qed
  with told jam show ?thesis by blast
qed

subsection \<open>Witnesses\<close>

abbreviation cloud0 :: "string list provider" where
  "cloud0 \<equiv> runpod ref_libs host0 (fake_runpod ref_libs (pods_url rp0)) rp0"

definition spec0 :: pod_spec where
  "spec0 = \<lparr>sp_id = ''v1'', sp_cap = 2, sp_region = ''auto'', sp_gpu_type = ''auto''\<rparr>"

lemma runpod_deploy_terminate_roundtrip_witness:
  "\<exists>h1 h2 h3. pv_deploy cloud0 spec0 [''a''] = (h1, Inr ''pa'') \<and> pv_terminate cloud0 ''pa'' h1 = (h2, Inr ()) \<and> set h2 = {''a''} \<and>
     pv_terminate cloud0 ''pa'' h2 = (h3, Inr ()) \<and> set h3 = {''a''}"
proof -
  have dep: "pv_deploy cloud0 spec0 [''a''] = ([''pa'', ''a''], Inr ''pa'')"
    and del: "pv_terminate cloud0 ''pa'' [''pa'', ''a''] = ([''a''], Inr ())"
    and again: "pv_terminate cloud0 ''pa'' [''a''] = ([''a''], Inr ())" by code_simp+
  from runpod_deploy_terminate_roundtrip [OF rp.laws dep] del again have "set [''a''] = {''a''}" by (simp add: is_ok_def)
  with dep del again show ?thesis by blast
qed

text \<open>The service in memory, with every body lost on the way.\<close>

definition lossy_runpod :: "string list http" where
  "lossy_runpod rq h = (case fake_runpod ref_libs (pods_url rp0) rq h of (h', res) \<Rightarrow> (h', map_option (\<lambda>rs. rs\<lparr>rs_body := None\<rparr>) res))"

lemma lossy_runpod_laws: "runpod_laws ref_libs lossy_runpod (pods_url rp0) set"
  unfolding runpod_laws_def
proof (intro allI impI)
  fix rq h h' res assume run: "lossy_runpod rq h = (h', res)"
  obtain res' where r: "fake_runpod ref_libs (pods_url rp0) rq h = (h', res')" "res = map_option (\<lambda>rs. rs\<lparr>rs_body := None\<rparr>) res'"
    using run by (auto simp: lossy_runpod_def split: prod.splits)
  from rp.laws [unfolded runpod_laws_def, rule_format, OF r(1)] r(2)
  show "(rq_method rq = POST \<and> rq_url rq = pods_url rp0 \<longrightarrow>
           (case res of
              None \<Rightarrow> set h' = set h \<or> (\<exists>pid. pid \<notin> set h \<and> set h' = insert pid (set h))
            | Some rs \<Rightarrow>
                if is_success (rs_status rs)
                then \<exists>pid. pid \<notin> set h \<and> set h' = insert pid (set h) \<and>
                       (\<forall>v. Option.bind (rs_body rs) (from_slice ref_libs) = Some v \<longrightarrow> (\<exists>m. v = JObj m \<and> map_of m ''id'' = Some (JStr pid)))
                else set h' = set h)) \<and>
        (\<forall>pid. rq_method rq = DELETE \<and> rq_url rq = pods_url rp0 @ ''/'' @ pid \<longrightarrow>
           (case res of
              None \<Rightarrow> set h' = set h \<or> set h' = set h - {pid}
            | Some rs \<Rightarrow>
                if is_success (rs_status rs) then set h' = set h - {pid}
                else set h' = set h \<and> (rs_status rs = 404 \<longrightarrow> pid \<notin> set h)))"
    by (cases res') (auto split: if_splits)
qed

lemma runpod_lost_body_leaks_pod_witness:
  "\<exists>fl1 pid. deploy_one (runpod ref_libs host0 lossy_runpod rp0) cfg0 ids0 (empty_fleet []) = (fl1, None) \<and>
    fl_registry fl1 = new_registry \<and> set (fl_cloud fl1) = {pid}"
proof -
  have net: "lossy_runpod (create_request ref_libs host0 rp0 spec) (fl_cloud (empty_fleet [])) = ([''p''], Some \<lparr>rs_status = 201, rs_body = None\<rparr>)" for spec
    by (simp add: lossy_runpod_def fake_runpod_def create_request_def empty_fleet_def fake_id_def)
  from runpod_lost_body_leaks_pod [OF lossy_runpod_laws net, of cfg0 ids0] show ?thesis by (simp add: is_success_def empty_fleet_def)
qed

definition jam0 :: "string list fleet \<times> string option" where
  "jam0 = deploy_one cloud0 cfg0 ids0 (empty_fleet [])"

lemma runpod_deploy_jams_autoscaler_witness:
  "\<exists>fl2 fl3. fl_drawn (fold (fleet_step cloud0 cfg0 ids0) [Tick 9000000000, Tick 99000000000] fl2) = 1 \<and>
     terminate_one cloud0 ''n'' fl2 = (fl3, True) \<and> fl_cloud fl3 = [''p''] \<and> pr_pods (fl_registry fl3) ''n'' = None"
proof -
  let ?fl2 = "(fst jam0)\<lparr>fl_registry := ready 2 ''n'' (register 1 ''n'' ''a'' 2 None (fl_registry (fst jam0)))\<rparr>"
  have run: "deploy_one cloud0 cfg0 ids0 (empty_fleet []) = (fst jam0, Some ''p'')" "''n'' \<notin> set (fl_cloud (fst jam0))"
    and facts: "fl_drawn (fst jam0) = 1" "fl_cloud (fst (terminate_one cloud0 ''n'' ?fl2)) = [''p'']" "snd (terminate_one cloud0 ''n'' ?fl2)"
    by (simp add: jam0_def prod_eq_iff, code_simp+)
  have start: "reg_ok (fl_registry (empty_fleet []))" "rh_env host0 ''VIHS_RUNPOD_ENV'' = None" "ids0 (fl_drawn (empty_fleet [])) = (''n'', 0)"
    by (simp_all add: empty_fleet_def reg_ok_new host0_def ids0_def)
  have quiet: "\<forall>ev \<in> set [Tick 9000000000, Tick 99000000000]. (\<forall>t. ev \<noteq> PodReady t ''p'') \<and> ev \<noteq> PodDrained ''p''" by simp
  note jam = runpod_deploy_jams_autoscaler [OF rp.laws start(1,2,3) run refl quiet]
  from facts(3) obtain fl3 where fl3: "terminate_one cloud0 ''n'' ?fl2 = (fl3, True)" by (cases "terminate_one cloud0 ''n'' ?fl2") simp
  from jam [of cloud0 cfg0 2 1 "''a''" 2 None] fl3 facts(1)
  have "fl_drawn (fold (fleet_step cloud0 cfg0 ids0) [Tick 9000000000, Tick 99000000000] ?fl2) = 1" "pr_pods (fl_registry fl3) ''n'' = None"
    by auto
  with fl3 facts(2) show ?thesis by (metis fst_conv)
qed

end
