(* ===== verification/Mcp.thy ===== *)
theory Mcp
  imports OrchErr
begin

text \<open>
  \<open>crates/mcpd/src/lib.rs\<close>: the MCP server, which turns a JSON-RPC \<open>tools/call\<close> into one HTTP
  request of the orchestrator's API. The texts of the HTTP client's errors are parameters. A request
  with an empty \<open>rq_bearer\<close> carries no authorization header.
\<close>

subsection \<open>Errors and envelopes\<close>

datatype mcpd_error = UnknownTool string | InvalidArgs string | McpUpstream string

definition mcp_message :: "mcpd_error \<Rightarrow> string" where
  "mcp_message e =
     (case e of
        UnknownTool s \<Rightarrow> ''tool not found: '' @ s
      | InvalidArgs s \<Rightarrow> ''invalid arguments: '' @ s
      | McpUpstream s \<Rightarrow> ''upstream orchestrator error: '' @ s)"

text \<open>A signed number of JSON; a negative one by the bits of its \<open>i64\<close>.\<close>

definition ji64 :: "int \<Rightarrow> json" where
  "ji64 i = JNum (if i < 0 then NegInt (of_int i) else PosInt (of_int i))"

definition result_envelope :: "json \<Rightarrow> json \<Rightarrow> json" where
  "result_envelope rid result = jobject [(''jsonrpc'', JStr ''2.0''), (''id'', rid), (''result'', result)]"

definition error_envelope :: "json \<Rightarrow> int \<Rightarrow> string \<Rightarrow> json option \<Rightarrow> json" where
  "error_envelope rid c message data =
     jobject [(''jsonrpc'', JStr ''2.0''), (''id'', rid),
       (''error'', jobject ([(''code'', ji64 c), (''message'', JStr message)] @ (case data of Some d \<Rightarrow> [(''data'', d)] | None \<Rightarrow> [])))]"

subsection \<open>The tools\<close>

record tool_def =
  td_name :: string
  td_description :: string
  td_input_schema :: json
  td_method :: http_method
  td_path :: string
  td_body_args :: "string list"
  td_path_args :: "string list"

definition string_type :: json where
  "string_type = jobject [(''type'', JStr ''string'')]"

definition schema :: "(string \<times> json) list \<Rightarrow> string list \<Rightarrow> json" where
  "schema props required =
     jobject ([(''type'', JStr ''object''), (''properties'', jobject props)] @
       (if required = [] then [] else [(''required'', JArr (map JStr required))]) @
       [(''additionalProperties'', JBool False)])"

definition tool_registry :: "tool_def list" where
  "tool_registry =
   [\<lparr>td_name = ''vihs_session_create'', td_description = ''Create a new session for a persona. Twin: POST /v1/sessions'',
     td_input_schema = schema [(''persona_id'', string_type)] [''persona_id''],
     td_method = POST, td_path = ''/v1/sessions'', td_body_args = [''persona_id''], td_path_args = []\<rparr>,
    \<lparr>td_name = ''vihs_session_resume'', td_description = ''Resume a session: authorize owner, load memory, assign a pod. Twin: POST /v1/sessions/{id}/resume'',
     td_input_schema = schema [(''session_id'', string_type)] [''session_id''],
     td_method = POST, td_path = ''/v1/sessions/{id}/resume'', td_body_args = [], td_path_args = [''session_id'']\<rparr>,
    \<lparr>td_name = ''vihs_session_list'', td_description = ''List the caller'' @ [CHR 0x27] @ ''s sessions. Twin: GET /v1/sessions'',
     td_input_schema = schema [] [],
     td_method = GET, td_path = ''/v1/sessions'', td_body_args = [], td_path_args = []\<rparr>,
    \<lparr>td_name = ''vihs_session_transcript'', td_description = ''Fetch the rendered markdown transcript. Twin: GET /v1/sessions/{id}/transcript'',
     td_input_schema = schema [(''session_id'', string_type)] [''session_id''],
     td_method = GET, td_path = ''/v1/sessions/{id}/transcript'', td_body_args = [], td_path_args = [''session_id'']\<rparr>,
    \<lparr>td_name = ''vihs_session_delete'', td_description = ''Hard-delete a session (idempotent). Twin: DELETE /v1/sessions/{id}'',
     td_input_schema = schema [(''session_id'', string_type)] [''session_id''],
     td_method = DELETE, td_path = ''/v1/sessions/{id}'', td_body_args = [], td_path_args = [''session_id'']\<rparr>,
    \<lparr>td_name = ''vihs_pods_list'', td_description = ''List registered pods with fill/cap/state. Twin: GET /admin/pods'',
     td_input_schema = schema [] [],
     td_method = GET, td_path = ''/admin/pods'', td_body_args = [], td_path_args = []\<rparr>,
    \<lparr>td_name = ''vihs_pod_drain'', td_description = ''Stop new assignments to a pod. Twin: POST /admin/pods/{id}/drain'',
     td_input_schema = schema [(''pod_id'', string_type)] [''pod_id''],
     td_method = POST, td_path = ''/admin/pods/{id}/drain'', td_body_args = [], td_path_args = [''pod_id'']\<rparr>,
    \<lparr>td_name = ''vihs_scale_status'', td_description = ''Autoscaler state: fill, cap, queue depth, warm floor, last decisions. Twin: GET /admin/scale'',
     td_input_schema = schema [] [],
     td_method = GET, td_path = ''/admin/scale'', td_body_args = [], td_path_args = []\<rparr>,
    \<lparr>td_name = ''vihs_token_mint'', td_description = ''Mint an admin/user token (shown once). Twin: POST /admin/tokens'',
     td_input_schema = schema [(''owner_id'', string_type),
       (''scope'', jobject [(''type'', JStr ''string''), (''enum'', JArr [JStr ''admin'', JStr ''user''])])] [''owner_id'', ''scope''],
     td_method = POST, td_path = ''/admin/tokens'', td_body_args = [''owner_id'', ''scope''], td_path_args = []\<rparr>]"

definition tools_list_payload :: json where
  "tools_list_payload =
     jobject [(''tools'', JArr (map (\<lambda>t. jobject [(''name'', JStr (td_name t)), (''description'', JStr (td_description t)),
        (''inputSchema'', td_input_schema t)]) tool_registry))]"

subsection \<open>A call\<close>

text \<open>\<open>str::replacen\<close> with a count of one.\<close>

definition replace_first :: "string \<Rightarrow> string \<Rightarrow> string \<Rightarrow> string" where
  "replace_first s pat rep = (case str_find s pat of None \<Rightarrow> s | Some i \<Rightarrow> take i s @ rep @ drop (i + length pat) s)"

fun check_required :: "json list \<Rightarrow> json \<Rightarrow> mcpd_error + unit" where
  "check_required [] args = Inr ()"
| "check_required (k # ks) args =
     (let key = unwrap_or (as_str k) [] in
      if jget args key = None then Inl (InvalidArgs (''missing required argument `'' @ key @ ''`''))
      else check_required ks args)"

fun fill_path :: "string list \<Rightarrow> json \<Rightarrow> string \<Rightarrow> mcpd_error + string" where
  "fill_path [] args path = Inr path"
| "fill_path (a # as) args path =
     rbind (ok_or (Option.bind (jget args a) as_str) (InvalidArgs (''`'' @ a @ ''` must be a string''))) (\<lambda>v.
     fill_path as args (replace_first path ''{id}'' v))"

definition call_body :: "tool_def \<Rightarrow> json \<Rightarrow> json option" where
  "call_body t args =
     (if td_method t \<noteq> GET \<and> td_body_args t \<noteq> []
      then Some (jobject (List.map_filter (\<lambda>a. map_option (Pair a) (jget args a)) (td_body_args t)))
      else None)"

definition call_request :: "string \<Rightarrow> string \<Rightarrow> string \<Rightarrow> json \<Rightarrow> mcpd_error + http_request" where
  "call_request orch_base token tool_name args =
     rbind (ok_or (find (\<lambda>t. td_name t = tool_name) tool_registry) (UnknownTool tool_name)) (\<lambda>t.
     rbind (case jget (td_input_schema t) ''required'' of Some (JArr required) \<Rightarrow> check_required required args | _ \<Rightarrow> Inr ()) (\<lambda>_.
     rbind (fill_path (td_path_args t) args (td_path t)) (\<lambda>path.
     Inr \<lparr>rq_method = td_method t, rq_url = orch_base @ path, rq_bearer = token, rq_body = call_body t args\<rparr>)))"

definition tool_result :: "libs \<Rightarrow> nat \<Rightarrow> string \<Rightarrow> json" where
  "tool_result L st body =
     (let content = (''content'', JArr [jobject [(''type'', JStr ''text''), (''text'', JStr body)]]) in
      if is_success st then jobject [content, (''isError'', JBool False)]
      else jobject [content, (''isError'', JBool True),
             (''data'', jobject [(''error'', unwrap_or (from_slice L body) (jobject [(''message'', JStr body)]))])])"

record http_texts =
  cx_send :: string
  cx_read :: string

definition call_tool ::
    "libs \<Rightarrow> http_texts \<Rightarrow> 'h http \<Rightarrow> string \<Rightarrow> string \<Rightarrow> string \<Rightarrow> json \<Rightarrow> 'h \<Rightarrow> 'h \<times> (mcpd_error + json)" where
  "call_tool L cx net orch_base token tool_name args h =
     (case call_request orch_base token tool_name args of
        Inl e \<Rightarrow> (h, Inl e)
      | Inr rq \<Rightarrow>
          (case net rq h of
             (h', None) \<Rightarrow> (h', Inl (McpUpstream (cx_send cx)))
           | (h', Some rs) \<Rightarrow>
               (h', rbind (ok_or (rs_body rs) (McpUpstream (cx_read cx))) (\<lambda>body. Inr (tool_result L (rs_status rs) body)))))"

subsection \<open>The dispatch\<close>

definition initialize_payload :: json where
  "initialize_payload =
     jobject [(''protocolVersion'', JStr ''2025-03-26''), (''capabilities'', jobject [(''tools'', jobject [])]),
       (''serverInfo'', jobject [(''name'', JStr ''vihs-mcpd''), (''version'', JStr ''0.1.0'')])]"

definition rpc_code :: "mcpd_error \<Rightarrow> int" where
  "rpc_code e = (case e of UnknownTool _ \<Rightarrow> - 32602 | InvalidArgs _ \<Rightarrow> - 32602 | McpUpstream _ \<Rightarrow> - 32603)"

definition handle_rpc ::
    "libs \<Rightarrow> http_texts \<Rightarrow> 'h http \<Rightarrow> string \<Rightarrow> string \<Rightarrow> json \<Rightarrow> 'h \<Rightarrow> 'h \<times> json" where
  "handle_rpc L cx net orch_base token req h =
     (let rid = unwrap_or (jget req ''id'') JNull;
          rpc_method = unwrap_or (Option.bind (jget req ''method'') as_str) [] in
      if rpc_method = ''initialize'' then (h, result_envelope rid initialize_payload)
      else if rpc_method = ''tools/list'' then (h, result_envelope rid tools_list_payload)
      else if rpc_method = ''tools/call'' then
        (let params = unwrap_or (jget req ''params'') (jobject []);
             name = unwrap_or (Option.bind (jget params ''name'') as_str) [];
             args = unwrap_or (jget params ''arguments'') (jobject []) in
         case call_tool L cx net orch_base token name args h of
           (h', Inr result) \<Rightarrow> (h', result_envelope rid result)
         | (h', Inl e) \<Rightarrow> (h', error_envelope rid (rpc_code e) (mcp_message e) None))
      else (h, error_envelope rid (- 32601) (''method not found: '' @ rpc_method) None))"

subsection \<open>The contract\<close>

text \<open>
  The table of the API contract (SPEC-003, MCP server): for each tool the arguments it needs and the
  request of its HTTP twin, written out without the registry.
\<close>

type_synonym twin_request = "http_method \<times> string \<times> json option"

definition need :: "json \<Rightarrow> string \<Rightarrow> (json \<Rightarrow> mcpd_error + 'a) \<Rightarrow> mcpd_error + 'a" where
  "need args a f = (case jget args a of None \<Rightarrow> Inl (InvalidArgs (''missing required argument `'' @ a @ ''`'')) | Some v \<Rightarrow> f v)"

definition text_arg :: "string \<Rightarrow> json \<Rightarrow> (string \<Rightarrow> mcpd_error + 'a) \<Rightarrow> mcpd_error + 'a" where
  "text_arg a v f = (case v of JStr s \<Rightarrow> f s | _ \<Rightarrow> Inl (InvalidArgs (''`'' @ a @ ''` must be a string'')))"

definition twin :: "string \<Rightarrow> json \<Rightarrow> mcpd_error + twin_request" where
  "twin name args =
     (if name = ''vihs_session_create'' then
        need args ''persona_id'' (\<lambda>v. Inr (POST, ''/v1/sessions'', Some (jobject [(''persona_id'', v)])))
      else if name = ''vihs_session_resume'' then
        need args ''session_id'' (\<lambda>v. text_arg ''session_id'' v (\<lambda>i. Inr (POST, ''/v1/sessions/'' @ i @ ''/resume'', None)))
      else if name = ''vihs_session_list'' then Inr (GET, ''/v1/sessions'', None)
      else if name = ''vihs_session_transcript'' then
        need args ''session_id'' (\<lambda>v. text_arg ''session_id'' v (\<lambda>i. Inr (GET, ''/v1/sessions/'' @ i @ ''/transcript'', None)))
      else if name = ''vihs_session_delete'' then
        need args ''session_id'' (\<lambda>v. text_arg ''session_id'' v (\<lambda>i. Inr (DELETE, ''/v1/sessions/'' @ i, None)))
      else if name = ''vihs_pods_list'' then Inr (GET, ''/admin/pods'', None)
      else if name = ''vihs_pod_drain'' then
        need args ''pod_id'' (\<lambda>v. text_arg ''pod_id'' v (\<lambda>i. Inr (POST, ''/admin/pods/'' @ i @ ''/drain'', None)))
      else if name = ''vihs_scale_status'' then Inr (GET, ''/admin/scale'', None)
      else if name = ''vihs_token_mint'' then
        need args ''owner_id'' (\<lambda>ow. need args ''scope'' (\<lambda>sc.
          Inr (POST, ''/admin/tokens'', Some (jobject [(''owner_id'', ow), (''scope'', sc)]))))
      else Inl (UnknownTool name))"

definition http_of :: "string \<Rightarrow> string \<Rightarrow> twin_request \<Rightarrow> http_request" where
  "http_of base token t = (case t of (m, path, body) \<Rightarrow> \<lparr>rq_method = m, rq_url = base @ path, rq_bearer = token, rq_body = body\<rparr>)"

lemma path_templates:
  "replace_first ''/v1/sessions/{id}/resume'' ''{id}'' v = ''/v1/sessions/'' @ v @ ''/resume''"
  "replace_first ''/v1/sessions/{id}/transcript'' ''{id}'' v = ''/v1/sessions/'' @ v @ ''/transcript''"
  "replace_first ''/v1/sessions/{id}'' ''{id}'' v = ''/v1/sessions/'' @ v"
  "replace_first ''/admin/pods/{id}/drain'' ''{id}'' v = ''/admin/pods/'' @ v @ ''/drain''"
proof -
  have "str_find ''/v1/sessions/{id}/resume'' ''{id}'' = Some 13" "str_find ''/v1/sessions/{id}/transcript'' ''{id}'' = Some 13"
    "str_find ''/v1/sessions/{id}'' ''{id}'' = Some 13" "str_find ''/admin/pods/{id}/drain'' ''{id}'' = Some 12" by code_simp+
  then show "replace_first ''/v1/sessions/{id}/resume'' ''{id}'' v = ''/v1/sessions/'' @ v @ ''/resume''"
    "replace_first ''/v1/sessions/{id}/transcript'' ''{id}'' v = ''/v1/sessions/'' @ v @ ''/transcript''"
    "replace_first ''/v1/sessions/{id}'' ''{id}'' v = ''/v1/sessions/'' @ v"
    "replace_first ''/admin/pods/{id}/drain'' ''{id}'' v = ''/admin/pods/'' @ v @ ''/drain''"
    by (simp_all add: replace_first_def)
qed

lemma schema_required: "jget (schema props req) ''required'' = (if req = [] then None else Some (JArr (map JStr req)))"
  by (simp add: schema_def jobject_def)

lemma required_one: "rbind (check_required [JStr a] args) f = need args a (\<lambda>_. f ())"
  by (simp add: need_def split: option.split)

lemma required_two: "rbind (check_required [JStr a, JStr b] args) f = need args a (\<lambda>_. need args b (\<lambda>_. f ()))"
  by (simp add: need_def split: option.split)

lemma fill_one: "jget args a = Some v \<Longrightarrow> rbind (fill_path [a] args path) f = text_arg a v (\<lambda>s. f (replace_first path ''{id}'' s))"
  by (cases v) (simp_all add: text_arg_def)

lemma need_fill:
  "need args a (\<lambda>_. rbind (fill_path [a] args path) f) = need args a (\<lambda>v. text_arg a v (\<lambda>s. f (replace_first path ''{id}'' s)))"
  unfolding need_def by (auto simp del: fill_path.simps simp: fill_one split: option.split)

lemma need_cong: "(\<And>v. jget args a = Some v \<Longrightarrow> f v = g v) \<Longrightarrow> need args a f = need args a g"
  by (simp add: need_def split: option.split)

lemma map_sum_need: "map_sum (\<lambda>e. e) h (need args a f) = need args a (\<lambda>v. map_sum (\<lambda>e. e) h (f v))"
  "map_sum (\<lambda>e. e) h (text_arg a v g) = text_arg a v (\<lambda>s. map_sum (\<lambda>e. e) h (g s))"
  by (simp_all add: need_def text_arg_def split: option.split json.split)

text \<open>The request of a tool, by the arguments its entry asks for.\<close>

definition tool_request :: "string \<Rightarrow> string \<Rightarrow> tool_def \<Rightarrow> json \<Rightarrow> mcpd_error + http_request" where
  "tool_request base token t args =
     rbind (case jget (td_input_schema t) ''required'' of Some (JArr required) \<Rightarrow> check_required required args | _ \<Rightarrow> Inr ()) (\<lambda>_.
     rbind (fill_path (td_path_args t) args (td_path t)) (\<lambda>path.
     Inr \<lparr>rq_method = td_method t, rq_url = base @ path, rq_bearer = token, rq_body = call_body t args\<rparr>))"

lemma request_plain:
  assumes "td_input_schema t = schema props []" and "td_path_args t = []" and "td_body_args t = []"
  shows "tool_request base token t args = Inr (http_of base token (td_method t, td_path t, None))"
  using assms by (simp add: tool_request_def schema_required call_body_def http_of_def)

lemma request_path:
  assumes "td_input_schema t = schema props [a]" and "td_path_args t = [a]" and "td_body_args t = []"
  shows "tool_request base token t args = need args a (\<lambda>v. text_arg a v (\<lambda>s. Inr (http_of base token (td_method t, replace_first (td_path t) ''{id}'' s, None))))"
  using assms by (simp add: tool_request_def schema_required required_one need_fill call_body_def http_of_def del: check_required.simps fill_path.simps)

lemma request_body:
  assumes "td_input_schema t = schema props req" and "td_path_args t = []" and "td_body_args t = req" and "td_method t = POST"
  shows "req = [a] \<Longrightarrow> tool_request base token t args = need args a (\<lambda>v. Inr (http_of base token (POST, td_path t, Some (jobject [(a, v)]))))"
    and "req = [a, b] \<Longrightarrow> tool_request base token t args =
      need args a (\<lambda>v. need args b (\<lambda>u. Inr (http_of base token (POST, td_path t, Some (jobject [(a, v), (b, u)])))))"
  using assms
  by (simp_all add: tool_request_def schema_required required_one required_two call_body_def http_of_def List.map_filter_simps
      del: check_required.simps cong: need_cong)

lemma call_request_twin:
  "call_request base token name args = map_sum (\<lambda>e. e) (http_of base token) (twin name args)"
proof (cases "find (\<lambda>t. td_name t = name) tool_registry")
  case None
  then have "name \<notin> set (map td_name tool_registry)" by (auto simp: find_None_iff)
  then have "name \<notin> set [''vihs_session_create'', ''vihs_session_resume'', ''vihs_session_list'', ''vihs_session_transcript'',
      ''vihs_session_delete'', ''vihs_pods_list'', ''vihs_pod_drain'', ''vihs_scale_status'', ''vihs_token_mint'']"
    by (simp only: tool_registry_def list.map tool_def.select_convs simp_thms)
  then have "twin name args = Inl (UnknownTool name)" by (simp add: twin_def)
  with None show ?thesis by (simp add: call_request_def)
next
  case (Some t)
  then have "t \<in> set tool_registry" and name: "name = td_name t" by (auto simp: find_Some_iff)
  moreover have "tool_request base token t args = map_sum (\<lambda>e. e) (http_of base token) (twin (td_name t) args)"
    if "t \<in> set tool_registry"
    using that unfolding tool_registry_def list.set insert_iff empty_iff simp_thms
    by (elim disjE) (simp_all add: request_plain request_path request_body path_templates twin_def map_sum_need)
  ultimately show ?thesis using Some by (simp add: call_request_def tool_request_def)
qed

subsection \<open>Properties\<close>

text \<open>
  Every tool is its HTTP twin. A call makes at most one request, and it is the one the contract's
  table gives for the tool and its arguments, with the client's token and nothing of the arguments
  besides; an unknown tool, a missing argument or a path argument that is not a string makes none
  and is reported as such. The answer of the twin is passed on: its body as the text, its success as
  \<open>isError\<close>.
\<close>

theorem tools_are_http_twins:
  "call_tool L cx net base token name args h =
     (case twin name args of
        Inl e \<Rightarrow> (h, Inl e)
      | Inr t \<Rightarrow>
          (case net (http_of base token t) h of
             (h', None) \<Rightarrow> (h', Inl (McpUpstream (cx_send cx)))
           | (h', Some rs) \<Rightarrow>
               (h', case rs_body rs of
                      None \<Rightarrow> Inl (McpUpstream (cx_read cx))
                    | Some body \<Rightarrow> Inr (tool_result L (rs_status rs) body)))) \<and>
   jget (tool_result L st body) ''isError'' = Some (JBool (\<not> is_success st)) \<and>
   jget (tool_result L st body) ''content'' = Some (JArr [jobject [(''type'', JStr ''text''), (''text'', JStr body)]])"
proof -
  have "jget (tool_result L st body) ''isError'' = Some (JBool (\<not> is_success st))"
    "jget (tool_result L st body) ''content'' = Some (JArr [jobject [(''type'', JStr ''text''), (''text'', JStr body)]])"
    by (simp_all add: tool_result_def jobject_def Let_def)
  moreover have "rbind (ok_or x e) (\<lambda>b. Inr (f b)) = (case x of None \<Rightarrow> Inl e | Some b \<Rightarrow> Inr (f b))" for x :: "string option" and e :: mcpd_error and f :: "string \<Rightarrow> json"
    by (cases x) simp_all
  ultimately show ?thesis by (simp add: call_tool_def call_request_twin split: sum.split)
qed

lemma envelope_shape:
  "jget (result_envelope i r) ''jsonrpc'' = Some (JStr ''2.0'')" "jget (result_envelope i r) ''id'' = Some i"
  "jget (result_envelope i r) ''result'' = Some r" "jget (result_envelope i r) ''error'' = None"
  "jget (error_envelope i c m None) ''jsonrpc'' = Some (JStr ''2.0'')" "jget (error_envelope i c m None) ''id'' = Some i"
  "jget (error_envelope i c m None) ''result'' = None" "jget (jidx (error_envelope i c m None) ''error'') ''code'' = Some (ji64 c)"
  by (simp_all add: result_envelope_def error_envelope_def jobject_def jidx_def)

text \<open>
  C30. Whatever JSON value is posted, the server answers with one well-formed JSON-RPC 2.0 response:
  the version, the request's id (null when it has none), and either a result or an error with one of
  the three codes it uses, never both; and it changes nothing upstream except by a \<open>tools/call\<close>.
\<close>

theorem rpc_response_well_formed:
  assumes "handle_rpc L cx net base token req h = (h', resp)"
  shows "jget resp ''jsonrpc'' = Some (JStr ''2.0'') \<and>
    jget resp ''id'' = Some (unwrap_or (jget req ''id'') JNull) \<and>
    ((\<exists>r. jget resp ''result'' = Some r) \<and> jget resp ''error'' = None \<or>
     jget resp ''result'' = None \<and>
       (\<exists>c \<in> {- 32601, - 32602, - 32603}. jget (jidx resp ''error'') ''code'' = Some (ji64 c))) \<and>
    (jget req ''method'' \<noteq> Some (JStr ''tools/call'') \<longrightarrow> h' = h)"
proof -
  let ?i = "unwrap_or (jget req ''id'') JNull"
  have "(\<exists>r. resp = result_envelope ?i r) \<or> (\<exists>c m. resp = error_envelope ?i c m None \<and> c \<in> {- 32601, - 32602, - 32603})"
    using assms by (auto simp: handle_rpc_def Let_def rpc_code_def split: if_splits prod.splits sum.splits mcpd_error.splits)
  moreover have "h' = h" if "jget req ''method'' \<noteq> Some (JStr ''tools/call'')"
  proof -
    have "unwrap_or (Option.bind (jget req ''method'') as_str) [] \<noteq> ''tools/call''"
    proof
      assume "unwrap_or (Option.bind (jget req ''method'') as_str) [] = ''tools/call''"
      then have "Option.bind (jget req ''method'') as_str = Some ''tools/call''"
        by (cases "Option.bind (jget req ''method'') as_str") simp_all
      with that show False by (auto simp: bind_eq_Some_conv)
    qed
    with assms show ?thesis by (auto simp: handle_rpc_def Let_def split: if_splits)
  qed
  ultimately show ?thesis by (auto simp: envelope_shape)
qed

subsection \<open>Witnesses\<close>

definition echo0 :: "nat http" where
  "echo0 rq h = (Suc h, Some \<lparr>rs_status = 404, rs_body = Some ''gone''\<rparr>)"

definition call0 :: json where
  "call0 = jobject [(''id'', ju64 7), (''method'', JStr ''tools/call''),
     (''params'', jobject [(''name'', JStr ''vihs_session_delete''), (''arguments'', jobject [(''session_id'', JStr ''s'')])])]"

definition rpc0 :: "nat \<times> json" where
  "rpc0 = handle_rpc ref_libs \<lparr>cx_send = ''down'', cx_read = ''eof''\<rparr> echo0 ''http://o'' ''tok'' call0 0"

lemma rpc_response_well_formed_witness:
  "jget (snd rpc0) ''id'' = Some (ju64 7)"
  using rpc_response_well_formed [of ref_libs "\<lparr>cx_send = ''down'', cx_read = ''eof''\<rparr>" echo0 "''http://o''" "''tok''" call0 0 "fst rpc0" "snd rpc0"]
  by (simp add: rpc0_def call0_def jobject_def)

end
