(* ===== verification/MemStart.thy ===== *)
theory MemStart
  imports MemApi
begin

text \<open>
  \<open>crates/memoryd/src/config.rs\<close> and \<open>main.rs\<close>: the memory service's configuration from its
  environment, and what it starts with. The environment (\<open>None\<close> for a variable that is unset or not
  Unicode) and the command line are arguments, the S3 service behind an endpoint and a bucket is a
  parameter. \<open>None\<close> is a panic: a missing variable, a number that does not parse, a failed assertion,
  an unreachable Redis. The listener, the log subscriber and the timer of the sweep are left out.
\<close>

subsection \<open>Configuration\<close>

record mem_config =
  mc_bind_addr :: string
  mc_redis_url :: string
  mc_s3_endpoint :: string
  mc_s3_bucket :: string
  mc_s3_access_key :: string
  mc_s3_secret_key :: string
  mc_token_pepper :: string
  mc_verbatim_tail :: u64
  mc_token_budget :: u64
  mc_session_ttl_days :: int
  mc_rebuild_index :: bool

definition get_opt :: "(string \<Rightarrow> string option) \<Rightarrow> string \<Rightarrow> string \<Rightarrow> string" where
  "get_opt env name dflt = unwrap_or (env name) dflt"

definition validate :: "mem_config \<Rightarrow> bool" where
  "validate cfg \<longleftrightarrow> mc_s3_bucket cfg \<noteq> [] \<and> 4 \<le> mc_verbatim_tail cfg \<and> 100 \<le> mc_token_budget cfg \<and>
     1 \<le> mc_session_ttl_days cfg \<and> 16 \<le> length (mc_token_pepper cfg)"

definition mem_config_from_env :: "string list \<Rightarrow> (string \<Rightarrow> string option) \<Rightarrow> mem_config option" where
  "mem_config_from_env args env =
     Option.bind (env ''VIHS_REDIS_URL'') (\<lambda>redis_url.
     Option.bind (env ''VIHS_S3_ENDPOINT'') (\<lambda>s3_endpoint.
     Option.bind (env ''VIHS_S3_BUCKET'') (\<lambda>s3_bucket.
     Option.bind (env ''VIHS_S3_ACCESS_KEY'') (\<lambda>s3_access_key.
     Option.bind (env ''VIHS_S3_SECRET_KEY'') (\<lambda>s3_secret_key.
     Option.bind (env ''VIHS_TOKEN_PEPPER'') (\<lambda>token_pepper.
     Option.bind (parse_u64 (get_opt env ''COMPACT_VERBATIM_TAIL'' ''20'')) (\<lambda>verbatim_tail.
     Option.bind (parse_u64 (get_opt env ''COMPACT_TOKEN_BUDGET'' ''3000'')) (\<lambda>token_budget.
     Option.bind (parse_i64 (get_opt env ''SESSION_TTL_DAYS'' ''90'')) (\<lambda>session_ttl_days.
     let cfg = \<lparr>mc_bind_addr = get_opt env ''VIHS_MEMORYD_ADDR'' ''127.0.0.1:8091'', mc_redis_url = redis_url,
                mc_s3_endpoint = s3_endpoint, mc_s3_bucket = s3_bucket, mc_s3_access_key = s3_access_key,
                mc_s3_secret_key = s3_secret_key, mc_token_pepper = token_pepper, mc_verbatim_tail = verbatim_tail,
                mc_token_budget = token_budget, mc_session_ttl_days = session_ttl_days,
                mc_rebuild_index = (''--rebuild-index'' \<in> set args)\<rparr> in
     if validate cfg then Some cfg else None)))))))))"

subsection \<open>Start\<close>

text \<open>\<open>main\<close> up to the listener: the rebuild and the end of the process, or the state the routes serve.\<close>

datatype ('s, 'r) memoryd_run = Rebuilt | Serving "('s, 'r) api_state" int

definition memoryd_main ::
    "libs \<Rightarrow> (mem_config \<Rightarrow> 's s3) \<Rightarrow> 'r redis \<Rightarrow> crypto \<Rightarrow> (json \<Rightarrow> event option) \<Rightarrow> clock \<Rightarrow> string list \<Rightarrow>
     (string \<Rightarrow> string option) \<Rightarrow> 's \<times> 'r \<Rightarrow> (('s \<times> 'r) \<times> ('s, 'r) memoryd_run) option" where
  "memoryd_main L s3_at R C event_of clk args env w =
     Option.bind (mem_config_from_env args env) (\<lambda>cfg.
     let st = s3_store L (s3_at cfg) in
     if \<not> rconnect R (snd w) then None
     else if mc_rebuild_index cfg then map_option (\<lambda>(w', _). (w', Rebuilt)) (rebuild_index L st R event_of clk w)
     else Some (w, Serving
       \<lparr>as_libs = L, as_store = st, as_redis = R, as_event_of = event_of,
        as_cfg = \<lparr>cc_verbatim_tail = mc_verbatim_tail cfg, cc_token_budget = unat (mc_token_budget cfg)\<rparr>,
        as_authz = mem_allow C R (mc_token_pepper cfg)\<rparr> (mc_session_ttl_days cfg)))"

lemma mem_config_pepper:
  "mem_config_from_env args env = Some cfg \<Longrightarrow> env ''VIHS_TOKEN_PEPPER'' = Some (mc_token_pepper cfg) \<and> validate cfg"
  by (auto simp: mem_config_from_env_def Let_def bind_eq_Some_conv split: if_splits)

lemma memoryd_serving_authz:
  assumes "memoryd_main L s3_at R C event_of clk args env w = Some (w', Serving st ttl)"
  shows "\<exists>pepper. env ''VIHS_TOKEN_PEPPER'' = Some pepper \<and> as_authz st = mem_allow C R pepper"
  using assms mem_config_pepper by (fastforce simp: memoryd_main_def Let_def bind_eq_Some_conv split: if_splits)

subsection \<open>Properties\<close>

text \<open>
  A service that comes up serves with a checked configuration and the strict authorizer: it verifies
  tokens with the pepper of the environment, of at least 16 bytes, keeps at least four turns verbatim,
  compacts to a budget of at least 100 tokens and retains sessions for at least a day; it has touched
  neither store, and Redis was reachable.
\<close>

theorem memoryd_serves_validated:
  assumes "memoryd_main L s3_at R C event_of clk args env w = Some (w', Serving st ttl)"
  shows "\<exists>pepper. env ''VIHS_TOKEN_PEPPER'' = Some pepper \<and> as_authz st = mem_allow C R pepper \<and> 16 \<le> length pepper \<and>
    4 \<le> cc_verbatim_tail (as_cfg st) \<and> 100 \<le> cc_token_budget (as_cfg st) \<and> 1 \<le> ttl \<and>
    w' = w \<and> rconnect R (snd w) \<and> ''--rebuild-index'' \<notin> set args"
proof -
  from assms obtain cfg where cfg: "mem_config_from_env args env = Some cfg" and c: "rconnect R (snd w)" "\<not> mc_rebuild_index cfg" "w' = w"
    and st: "as_authz st = mem_allow C R (mc_token_pepper cfg)" "ttl = mc_session_ttl_days cfg"
      "as_cfg st = \<lparr>cc_verbatim_tail = mc_verbatim_tail cfg, cc_token_budget = unat (mc_token_budget cfg)\<rparr>"
    by (auto simp: memoryd_main_def Let_def bind_eq_Some_conv split: if_splits)
  have "mc_rebuild_index cfg \<longleftrightarrow> ''--rebuild-index'' \<in> set args"
    using cfg by (auto simp: mem_config_from_env_def Let_def bind_eq_Some_conv split: if_splits)
  moreover have "100 \<le> unat (mc_token_budget cfg)" if "100 \<le> mc_token_budget cfg"
    using that by (simp add: word_le_nat_alt)
  ultimately show ?thesis using mem_config_pepper [OF cfg] c st by (auto simp: validate_def)
qed

subsection \<open>Witnesses\<close>

definition mem_env0 :: "string \<Rightarrow> string option" where
  "mem_env0 = [''VIHS_REDIS_URL'' \<mapsto> ''redis://r'', ''VIHS_S3_ENDPOINT'' \<mapsto> ''http://s'', ''VIHS_S3_BUCKET'' \<mapsto> ''b'',
     ''VIHS_S3_ACCESS_KEY'' \<mapsto> ''k'', ''VIHS_S3_SECRET_KEY'' \<mapsto> ''s'', ''VIHS_TOKEN_PEPPER'' \<mapsto> ''0123456789abcdef'']"

lemma mem_config0: "map_option mc_token_pepper (mem_config_from_env [''memoryd''] mem_env0) = Some ''0123456789abcdef''"
  by code_simp

lemma mem_run0:
  obtains st ttl where "memoryd_main ref_libs (\<lambda>_. mem_s3) (mem_redis True) ref_crypto event_of0 (0, []) [''memoryd''] mem_env0 (bucket_empty, []) =
     Some ((bucket_empty, []), Serving st ttl)"
proof -
  obtain cfg where cfg: "mem_config_from_env [''memoryd''] mem_env0 = Some cfg" using mem_config0 by auto
  then have "\<not> mc_rebuild_index cfg"
    by (auto simp: mem_config_from_env_def Let_def bind_eq_Some_conv split: if_splits)
  with cfg that show thesis by (simp add: memoryd_main_def mem_redis_def)
qed

lemma memoryd_serves_validated_witness:
  "\<exists>st ttl. memoryd_main ref_libs (\<lambda>_. mem_s3) (mem_redis True) ref_crypto event_of0 (0, []) [''memoryd''] mem_env0 (bucket_empty, []) =
     Some ((bucket_empty, []), Serving st ttl) \<and> as_authz st = mem_allow ref_crypto (mem_redis True) ''0123456789abcdef''"
proof (rule mem_run0)
  fix st ttl
  assume run: "memoryd_main ref_libs (\<lambda>_. mem_s3) (mem_redis True) ref_crypto event_of0 (0, []) [''memoryd''] mem_env0 (bucket_empty, []) =
     Some ((bucket_empty, []), Serving st ttl)"
  from memoryd_serves_validated [OF run] show ?thesis using run by (auto simp: mem_env0_def)
qed

end
