(* ===== verification/OrchStart.thy ===== *)
theory OrchStart
  imports OrchApi RunPod
begin

text \<open>
  \<open>crates/orchestrator/src/config.rs\<close>, \<open>lib.rs\<close> (\<open>build_state\<close>), the readiness probe of \<open>metrics.rs\<close>,
  the embedded client of \<open>client_static.rs\<close>, and \<open>TokenStore::connect\<close> and \<open>ping\<close> of \<open>vihs-auth\<close>: what
  the control plane starts with. The environment (\<open>None\<close> for a variable that is unset or not Unicode),
  the clock readings, the salts and the random UUID are arguments. \<open>None\<close> is the end of the process:
  a driver that does not initialise, or an unreachable Redis. Where the code logs the outcome of a
  step and goes on, the outcome is part of the result.
\<close>

subsection \<open>Numbers of the environment\<close>

definition parse_u32 :: "string \<Rightarrow> u32 option" where
  "parse_u32 s =
     (case parse_nat (drop_plus s) of
        None \<Rightarrow> None
      | Some n \<Rightarrow> if int n < 2 ^ 32 then Some (of_nat n) else None)"

text \<open>
  \<open>f32::from_str\<close>: an optional sign, then \<open>inf\<close>, \<open>infinity\<close> or \<open>nan\<close> in any case, or digits with an
  optional point and an optional exponent, rounded to the nearest value, ties to even.
\<close>

definition parse_exp :: "string \<Rightarrow> int option" where
  "parse_exp s =
     (if s \<noteq> [] \<and> hd s = CHR ''-'' then map_option (\<lambda>n. - int n) (parse_nat (tl s))
      else map_option int (parse_nat (drop_plus s)))"

definition parse_decimal :: "string \<Rightarrow> rat option" where
  "parse_decimal s =
     (let mantissa = takeWhile (\<lambda>c. c \<noteq> CHR ''e'' \<and> c \<noteq> CHR ''E'') s;
          exponent = dropWhile (\<lambda>c. c \<noteq> CHR ''e'' \<and> c \<noteq> CHR ''E'') s;
          whole = takeWhile (\<lambda>c. c \<noteq> CHR ''.'') mantissa;
          fraction = tl (dropWhile (\<lambda>c. c \<noteq> CHR ''.'') mantissa) in
      Option.bind (if exponent = [] then Some 0 else parse_exp (tl exponent)) (\<lambda>e.
      Option.bind (parse_nat (whole @ fraction)) (\<lambda>n.
      Some (of_nat n * 10 powi (e - int (length fraction))))))"

definition f32_nearest :: "rat \<Rightarrow> f32" where
  "f32_nearest x =
     (if x \<le> 0 then Finite 0
      else
        let u = 2 powi (max (rat_exponent x - 23) (- 149)); v = of_int (round_even (x / u)) * u in
        if 2 ^ 128 \<le> v then Infinite True else Finite v)"

fun f32_neg :: "f32 \<Rightarrow> f32" where
  "f32_neg (Finite x) = Finite (- x)"
| "f32_neg (Infinite s) = Infinite (\<not> s)"
| "f32_neg NaN = NaN"

definition ascii_lower :: "string \<Rightarrow> string" where
  "ascii_lower = map (\<lambda>c. if 65 \<le> (of_char c :: nat) \<and> (of_char c :: nat) \<le> 90 then char_of ((of_char c :: nat) + 32) else c)"

definition parse_unsigned_f32 :: "string \<Rightarrow> f32 option" where
  "parse_unsigned_f32 s =
     (if ascii_lower s \<in> {''inf'', ''infinity''} then Some (Infinite True)
      else if ascii_lower s = ''nan'' then Some NaN
      else map_option f32_nearest (parse_decimal s))"

definition parse_f32 :: "string \<Rightarrow> f32 option" where
  "parse_f32 s =
     (if s \<noteq> [] \<and> hd s = CHR ''-'' then map_option f32_neg (parse_unsigned_f32 (tl s))
      else parse_unsigned_f32 (drop_plus s))"

subsection \<open>Configuration\<close>

record orch_config =
  oc_orch_addr :: string
  oc_admin_addr :: string
  oc_mcp_addr :: string
  oc_memoryd_addr :: string
  oc_redis_url :: string
  oc_pod_max_sessions :: u32
  oc_scale_up_fill :: f32
  oc_warm_pool_floor :: u32
  oc_pod_cooldown :: u64
  oc_provider :: string
  oc_turn_config :: "turn_config option"
  oc_client_dir :: "string option"

definition env_or :: "(string \<Rightarrow> string option) \<Rightarrow> string \<Rightarrow> string \<Rightarrow> string" where
  "env_or env key dflt = unwrap_or (env key) dflt"

definition orch_config_from_env :: "(string \<Rightarrow> string option) \<Rightarrow> orch_config" where
  "orch_config_from_env env =
     \<lparr>oc_orch_addr = env_or env ''VIHS_ORCH_ADDR'' ''0.0.0.0:8080'',
      oc_admin_addr = env_or env ''VIHS_ADMIN_ADDR'' ''127.0.0.1:8081'',
      oc_mcp_addr = env_or env ''VIHS_MCP_ADDR'' ''127.0.0.1:8092'',
      oc_memoryd_addr = env_or env ''VIHS_MEMORYD_ADDR'' ''127.0.0.1:8091'',
      oc_redis_url = env_or env ''VIHS_REDIS_URL'' ''redis://127.0.0.1:6379'',
      oc_pod_max_sessions = unwrap_or (parse_u32 (env_or env ''POD_MAX_SESSIONS'' ''2'')) 2,
      oc_scale_up_fill = unwrap_or (parse_f32 (env_or env ''SCALE_UP_FILL'' ''0.8'')) (f32_nearest (4 / 5)),
      oc_warm_pool_floor = unwrap_or (parse_u32 (env_or env ''WARM_POOL_FLOOR'' ''1'')) 1,
      oc_pod_cooldown = unwrap_or (parse_u64 (env_or env ''POD_COOLDOWN_SECS'' ''300'')) 300,
      oc_provider = env_or env ''PROVIDER'' ''mock'',
      oc_turn_config = map_option (\<lambda>u. \<lparr>tc_url = u, tc_user = env_or env ''TURN_USER'' [], tc_pass = env_or env ''TURN_PASS'' []\<rparr>)
        (env ''TURN_URL''),
      oc_client_dir = env ''VIHS_CLIENT_DIR''\<rparr>"

text \<open>What the autoscaler is given of it; durations are in nanoseconds.\<close>

definition scaler_cfg_of :: "orch_config \<Rightarrow> scaler_cfg" where
  "scaler_cfg_of cfg =
     \<lparr>sc_pod_max_sessions = oc_pod_max_sessions cfg, sc_scale_up_fill = oc_scale_up_fill cfg,
      sc_warm_pool_floor = oc_warm_pool_floor cfg, sc_pod_cooldown = uint (oc_pod_cooldown cfg) * 1000000000\<rparr>"

subsection \<open>Connecting to the token store\<close>

record token_store =
  tks_pepper :: string

definition connect :: "'r redis \<Rightarrow> string \<Rightarrow> 'r \<Rightarrow> token_error + token_store" where
  "connect R pepper r = (if rconnect R r then Inr \<lparr>tks_pepper = pepper\<rparr> else Inl Upstream)"

definition ping :: "'r redis \<Rightarrow> int \<Rightarrow> 'r \<Rightarrow> 'r \<times> (token_error + unit)" where
  "ping R now r =
     (if \<not> rconnect R r then (r, Inl Upstream)
      else
        (case rexec R Fresh now Ping r of
           (r', res) \<Rightarrow> (r', case rbind res reply_str of Inl _ \<Rightarrow> Inl Upstream | Inr _ \<Rightarrow> Inr ())))"

subsection \<open>Building the state\<close>

datatype driver = MockDriver mock_provider | RunPodDriver runpod_provider

text \<open>The driver the configuration names; \<open>None\<close> is \<open>exit(1)\<close>.\<close>

definition choose_driver :: "(string \<Rightarrow> string option) \<Rightarrow> orch_config \<Rightarrow> driver option" where
  "choose_driver env cfg =
     (if oc_provider cfg = ''mock'' then Some (MockDriver new_mock)
      else if oc_provider cfg = ''runpod'' then
        (case from_env env of Inr p \<Rightarrow> Some (RunPodDriver p) | Inl _ \<Rightarrow> None)
      else Some (MockDriver new_mock))"

definition seed_ttl :: int where
  "seed_ttl = 24 * 60 * 60"

definition seed_env ::
    "crypto \<Rightarrow> 'r redis \<Rightarrow> string \<Rightarrow> int \<Rightarrow> string \<Rightarrow> string option \<Rightarrow> string \<Rightarrow> scope \<Rightarrow> 'r \<Rightarrow> 'r \<times> (token_error + unit) option" where
  "seed_env C R pepper now salt tok owner sc r =
     (case tok of
        None \<Rightarrow> (r, None)
      | Some t \<Rightarrow>
          if t = [] then (r, None)
          else (case seed C R pepper now salt t owner sc seed_ttl r of (r', res) \<Rightarrow> (r', Some res)))"

record boot_input =
  bi_uuid :: string
  bi_pod_ts :: int
  bi_pod_salt :: string
  bi_admin_ts :: int
  bi_admin_salt :: string
  bi_warm_ts :: int
  bi_warm_stamp :: string

record ('h, 'r) boot =
  bt_driver :: driver
  bt_tokens :: token_store
  bt_pod_seed :: "(token_error + unit) option"
  bt_admin_seed :: "(token_error + unit) option"
  bt_restored :: "nat option"
  bt_app :: "('h, 'r) app"

definition build_state ::
    "crypto \<Rightarrow> 'r redis \<Rightarrow> (string \<Rightarrow> string option) \<Rightarrow> boot_input \<Rightarrow> orch_config \<Rightarrow> 'h \<Rightarrow> 'r \<Rightarrow> ('h, 'r) boot option" where
  "build_state C R env b cfg h r =
     Option.bind (choose_driver env cfg) (\<lambda>driver.
     let pepper = unwrap_or (env ''VIHS_TOKEN_PEPPER'') (bi_uuid b) in
     case connect R pepper r of
       Inl _ \<Rightarrow> None
     | Inr tokens \<Rightarrow>
         (let (r1, pod_seed) = seed_env C R (tks_pepper tokens) (bi_pod_ts b) (bi_pod_salt b) (env ''VIHS_POD_TOKEN'') ''pod'' Pod r;
              (r2, admin_seed) = seed_env C R (tks_pepper tokens) (bi_admin_ts b) (bi_admin_salt b) (env ''VIHS_ADMIN_TOKEN'') ''bootstrap'' Admin r1;
              (r3, sessions, restored) = warm_from_redis R (bi_warm_ts b) (bi_warm_stamp b) new_index r2 in
          Some \<lparr>bt_driver = driver, bt_tokens = tokens, bt_pod_seed = pod_seed, bt_admin_seed = admin_seed, bt_restored = restored,
            bt_app = \<lparr>ap_ctl = \<lparr>ct_registry = new_registry, ct_channels = Map.empty, ct_net = h, ct_redis = r3\<rparr>,
              ap_sessions = sessions, ap_queue = new_queue, ap_relay = Map.empty, ap_rates = Map.empty, ap_audit = []\<rparr>\<rparr>))"

text \<open>What the handlers are given: the stores and clients of the state that \<open>main\<close> builds.\<close>

definition boot_deps ::
    "libs \<Rightarrow> 'h http \<Rightarrow> crypto \<Rightarrow> 'r redis \<Rightarrow> 'p provider \<Rightarrow> orch_config \<Rightarrow> ('h, 'r) boot \<Rightarrow> ('h, 'r, 'p) app_deps" where
  "boot_deps L net C R P cfg bt =
     \<lparr>dp_libs = L, dp_net = net, dp_base = client_base (oc_memoryd_addr cfg), dp_crypto = C, dp_redis = R,
      dp_pepper = tks_pepper (bt_tokens bt), dp_provider = P, dp_warm_floor = oc_warm_pool_floor cfg\<rparr>"

subsection \<open>Readiness and the embedded client\<close>

text \<open>A GET without a token: the status, or the text of the failure.\<close>

definition readyz_impl :: "(string \<Rightarrow> 'h \<Rightarrow> 'h \<times> (string + nat)) \<Rightarrow> (nat \<Rightarrow> string) \<Rightarrow> string \<Rightarrow> 'h \<Rightarrow> 'h \<times> nat \<times> (json + string)" where
  "readyz_impl get status_text memoryd_addr h =
     (let unavailable = (\<lambda>m. (503, Inl (jobject [(''error'', jobject [(''code'', JStr ''unavailable''), (''message'', JStr m), (''retryable'', JBool True)])]))) in
      case get (client_base memoryd_addr @ ''/readyz'') h of
        (h', Inl e) \<Rightarrow> (h', unavailable (''memoryd unreachable: '' @ e))
      | (h', Inr st) \<Rightarrow>
          (h', if is_success st then (200, Inr ''ok'') else unavailable (''memoryd /readyz returned '' @ status_text st)))"

text \<open>\<open>Path::join\<close> with a relative name, and the two files of the client.\<close>

definition path_join :: "string \<Rightarrow> string \<Rightarrow> string" where
  "path_join dir name = (if dir = [] \<or> last dir = CHR ''/'' then dir @ name else dir @ ''/'' @ name)"

definition client_file :: "(string \<Rightarrow> string option) \<Rightarrow> string \<Rightarrow> string \<Rightarrow> string option \<Rightarrow> string" where
  "client_file read_to_string name embedded client_dir =
     (case client_dir of
        None \<Rightarrow> embedded
      | Some dir \<Rightarrow> unwrap_or (read_to_string (path_join dir name)) embedded)"

definition index_html :: "(string \<Rightarrow> string option) \<Rightarrow> string \<Rightarrow> string option \<Rightarrow> string" where
  "index_html read_to_string INDEX_HTML = client_file read_to_string ''index.html'' INDEX_HTML"

definition session_js :: "(string \<Rightarrow> string option) \<Rightarrow> string \<Rightarrow> string option \<Rightarrow> string" where
  "session_js read_to_string SESSION_JS = client_file read_to_string ''session.js'' SESSION_JS"

subsection \<open>Reading does not change the store\<close>

lemma purge_later: "s \<le> t \<Longrightarrow> purge t (purge s d) = purge t d"
  by (auto simp: purge_def Let_def fun_eq_iff split: option.splits)

lemma purge_later_eq: "purge s d = purge s d' \<Longrightarrow> s \<le> t \<Longrightarrow> purge t d = purge t d'"
  by (metis purge_later)

lemma query_read_db:
  assumes "redis_laws R db" and "\<And>d d'. redis_sem ts cmd d = Some d' \<Longrightarrow> d' = d" and "query f R ts cmd r = (r1, x)"
  shows "purge ts (db r1) = purge ts (db r)"
proof -
  obtain res where "rexec R Pooled ts cmd r = (r1, res)" using assms(3) by (auto simp: query_def split: prod.splits)
  then have "db r1 = purge ts (db r)"
    using rexec_ok [OF assms(1)] rexec_err [OF assms(1)] assms(2) by (cases res) blast+
  then show ?thesis by simp
qed

lemmas query_reads = query_read_db [where cmd = "HGetAll k" for k, simplified] query_read_db [where cmd = "ZRangeAll k" for k, simplified]
  query_read_db [where cmd = "Keys k" for k, simplified]

lemma warm_sids_db:
  assumes "redis_laws R db"
  shows "purge ts (db (fst (warm_sids R ts stamp owner sids st r))) = purge ts (db r)"
proof (induction sids arbitrary: st r)
  case (Cons s sids)
  obtain r1 x where q: "query reply_pairs R ts (HGetAll (session_key s)) r = (r1, x)" by fastforce
  with query_reads(1) [OF assms q] Cons.IH show ?case by (cases x) simp_all
qed simp

lemma warm_owners_db:
  assumes "redis_laws R db"
  shows "purge ts (db (fst (warm_owners R ts stamp zkeys st r))) = purge ts (db r)"
proof (induction zkeys arbitrary: st r)
  case (Cons z zkeys)
  obtain r1 x where q: "query reply_strs R ts (ZRangeAll z) r = (r1, x)" by fastforce
  show ?case
  proof (cases x)
    case (Inl e)
    with q query_reads(2) [OF assms q] Cons.IH show ?thesis by simp
  next
    case (Inr sids)
    obtain r2 st2 ok where w: "warm_sids R ts stamp (zkey_owner z) sids st r1 = (r2, st2, ok)" by (metis prod_cases3)
    with warm_sids_db [OF assms, of ts stamp "zkey_owner z" sids st r1] have "purge ts (db r2) = purge ts (db r1)" by simp
    with Inr q w query_reads(2) [OF assms q] Cons.IH show ?thesis by simp
  qed
qed simp

lemma warm_from_redis_db:
  assumes "redis_laws R db"
  shows "purge ts (db (fst (warm_from_redis R ts stamp ix r))) = purge ts (db r)"
proof -
  obtain r1 x where q: "query reply_strs R ts (Keys ''owner:*:sessions'') r = (r1, x)" by fastforce
  show ?thesis
  proof (cases x)
    case (Inl e)
    with q query_reads(3) [OF assms q] show ?thesis by (simp add: warm_from_redis_def)
  next
    case (Inr zkeys)
    with q query_reads(3) [OF assms q] warm_owners_db [OF assms, of ts stamp zkeys "(ix, 0)" r1] show ?thesis
      by (auto simp: warm_from_redis_def split: prod.splits)
  qed
qed

subsection \<open>What a seeded token is worth\<close>

lemma write_record_keys:
  assumes "redis_laws R db" and "write_record R now k owner sc ph ttl r = (r', Inr u)" and "0 < ttl"
  shows "keyspace (db r') k \<noteq> None \<and> deadline (db r') k = Some (now + ttl)"
proof -
  from assms(2) obtain fs reps where "with_conn R (\<lambda>c. rpipe R c now [HSet k fs, Expire k ttl]) r = (r', Inr reps)"
    unfolding write_record_def Let_def by (auto split: prod.splits)
  from with_conn_Inr [OF this] rpipe_record [OF assms(1) _ assms(3)] show ?thesis by blast
qed

lemma seed_Inr:
  assumes "seed C R pepper now salt token owner sc ttl r = (r', Inr u)"
  obtains raw ph where "b64dec C token = Some raw" "length raw = TOKEN_TOTAL_BYTES" "argon_hash C salt (token @ pepper) = Some ph"
    "write_record R now (token_key (b64enc C (take TOKEN_ID_BYTES raw))) owner sc ph ttl r = (r', Inr u)"
  using assms by (auto simp: seed_def hash_token_def ok_or_def Let_def split: option.splits if_splits)

text \<open>
  What other commands leave alone. A history is a list of commands that Redis was sent, by any client,
  each with its time; a command that writes no key of a set keeps what Redis will show of that key.
\<close>

fun written :: "redis_cmd \<Rightarrow> string set" where
  "written (HSet k fs) = {k}"
| "written (HIncrBy k f n) = {k}"
| "written (Expire k s) = {k}"
| "written (Del ks) = set ks"
| "written (ZAdd k m s) = {k}"
| "written (ZRem k m) = {k}"
| "written _ = {}"

lemma redis_sem_frame:
  "redis_sem now cmd d = Some d' \<Longrightarrow> k \<notin> written cmd \<Longrightarrow> keyspace d' k = keyspace d k \<and> deadline d' k = deadline d k"
  by (cases cmd) (auto simp: put_key_def drop_keys_def bind_eq_Some_conv split: if_splits)

lemma rexec_frame:
  assumes "redis_laws R db" and "s \<le> t" and "k \<notin> written cmd"
  shows "hash_at (purge t (db (fst (rexec R c s cmd r)))) k = hash_at (purge t (db r)) k"
proof -
  obtain r' x where run: "rexec R c s cmd r = (r', x)" by fastforce
  have "db r' = purge s (db r) \<or> redis_sem s cmd (purge s (db r)) = Some (db r')"
    using rexec_ok [OF assms(1)] rexec_err [OF assms(1)] run by (cases x) blast+
  then have "keyspace (db r') k = keyspace (purge s (db r)) k \<and> deadline (db r') k = deadline (purge s (db r)) k"
    by (auto dest: redis_sem_frame [OF _ assms(3)])
  then have "hash_at (purge t (db r')) k = hash_at (purge t (purge s (db r))) k" by (simp add: hash_at_def purge_def Let_def)
  with run purge_later [OF assms(2)] show ?thesis by simp
qed

definition redis_history :: "'r redis \<Rightarrow> (conn \<times> int \<times> redis_cmd) list \<Rightarrow> 'r \<Rightarrow> 'r" where
  "redis_history R hist r = fold (\<lambda>(c, s, cmd) r. fst (rexec R c s cmd r)) hist r"

lemma redis_history_frame:
  assumes "redis_laws R db" and "\<forall>(c, s, cmd) \<in> set hist. s \<le> t \<and> k \<notin> written cmd"
  shows "hash_at (purge t (db (redis_history R hist r))) k = hash_at (purge t (db r)) k"
  using assms(2)
proof (induction hist arbitrary: r)
  case (Cons e hist)
  obtain c s cmd where e: "e = (c, s, cmd)" by (cases e)
  with Cons have "hash_at (purge t (db (redis_history R hist (fst (rexec R c s cmd r))))) k = hash_at (purge t (db (fst (rexec R c s cmd r)))) k"
    by auto
  also have "\<dots> = hash_at (purge t (db r)) k" using rexec_frame [OF assms(1)] Cons.prems e by auto
  finally show ?case using e by (simp add: redis_history_def)
qed (simp add: redis_history_def)

text \<open>The key of a token's record. A seeded token lasts for its lifetime and no longer, as long as its record is left alone.\<close>

definition token_row :: "crypto \<Rightarrow> string \<Rightarrow> string" where
  "token_row C token = token_key (b64enc C (take TOKEN_ID_BYTES (the (b64dec C token))))"

lemma seeded_token:
  assumes "redis_laws R db" and "crypto_laws C" and "seed C R pepper now salt token owner sc ttl r = (r1, Inr u)"
    and "0 < ttl" "0 \<le> now" "now + ttl < 2 ^ 63"
    and "hash_at (purge t (db r2)) (token_row C token) = hash_at (purge t (db r1)) (token_row C token)"
  shows "snd (verify C R pepper t token r2) \<in>
    (if t < now + ttl then {Inl Upstream, Inr \<lparr>p_owner = owner, p_scope = sc\<rparr>} else {Inl Upstream, Inl (Authz ''unknown token'')})"
proof -
  from seed_Inr [OF assms(3)] obtain raw ph where raw: "b64dec C token = Some raw" "length raw = TOKEN_TOTAL_BYTES"
    and ph: "argon_hash C salt (token @ pepper) = Some ph"
    and w: "write_record R now (token_key (b64enc C (take TOKEN_ID_BYTES raw))) owner sc ph ttl r = (r1, Inr u)" by blast
  let ?key = "token_key (b64enc C (take TOKEN_ID_BYTES raw))"
  have "token_row C token = ?key" by (simp add: token_row_def raw(1))
  with assms(7) have same: "hash_at (purge t (db r2)) ?key = hash_at (purge t (db r1)) ?key" by simp
  note dec = verify_decides [OF assms(1) raw, of pepper t r2, unfolded same]
  show ?thesis
  proof (cases "t < now + ttl")
    case True
    from write_record_Inr [OF assms(1) w assms(4) True] check_written_record [OF crypto_argon [OF assms(2) ph], of "now + ttl" t] assms(4-6) True
    have "\<exists>h. hash_at (purge t (db r1)) ?key = Some h \<and> check_record C pepper t token h = Inr \<lparr>p_owner = owner, p_scope = sc\<rparr>" by fastforce
    with dec True show ?thesis by fastforce
  next
    case False
    with write_record_keys [OF assms(1) w assms(4)] have "hash_at (purge t (db r1)) ?key = Some Map.empty"
      by (simp add: purge_def hash_at_def Let_def)
    with dec False show ?thesis by (fastforce simp: check_record_def ok_or_def)
  qed
qed

lemma build_state_admin:
  assumes "build_state C R env b cfg h r = Some bt" and "bt_admin_seed bt = Some (Inr u)" and "env ''VIHS_ADMIN_TOKEN'' = Some token"
  obtains r1 r2 where "token \<noteq> []" "tks_pepper (bt_tokens bt) = unwrap_or (env ''VIHS_TOKEN_PEPPER'') (bi_uuid b)"
    "seed C R (tks_pepper (bt_tokens bt)) (bi_admin_ts b) (bi_admin_salt b) token ''bootstrap'' Admin seed_ttl r1 = (r2, Inr u)"
    "ct_redis (ap_ctl (bt_app bt)) = fst (warm_from_redis R (bi_warm_ts b) (bi_warm_stamp b) new_index r2)"
proof -
  let ?p = "unwrap_or (env ''VIHS_TOKEN_PEPPER'') (bi_uuid b)"
  obtain r1 x where s1: "seed_env C R ?p (bi_pod_ts b) (bi_pod_salt b) (env ''VIHS_POD_TOKEN'') ''pod'' Pod r = (r1, x)" by fastforce
  obtain r2 y where s2: "seed_env C R ?p (bi_admin_ts b) (bi_admin_salt b) (env ''VIHS_ADMIN_TOKEN'') ''bootstrap'' Admin r1 = (r2, y)" by fastforce
  obtain r3 ix n where w: "warm_from_redis R (bi_warm_ts b) (bi_warm_stamp b) new_index r2 = (r3, ix, n)" by (metis prod_cases3)
  from assms(1) s1 s2 w have bt: "tks_pepper (bt_tokens bt) = ?p" "bt_admin_seed bt = y" "ct_redis (ap_ctl (bt_app bt)) = r3"
    by (auto simp: build_state_def connect_def bind_eq_Some_conv Let_def split: if_splits)
  with s2 assms(2,3) have "token \<noteq> []" "seed C R ?p (bi_admin_ts b) (bi_admin_salt b) token ''bootstrap'' Admin seed_ttl r1 = (r2, Inr u)"
    by (auto simp: seed_env_def split: prod.splits if_splits)
  moreover from bt(3) w have "ct_redis (ap_ctl (bt_app bt)) = fst (warm_from_redis R (bi_warm_ts b) (bi_warm_stamp b) new_index r2)" by simp
  ultimately show thesis using bt(1) by (intro that) simp_all
qed

lemma bootstrap_verify:
  assumes "redis_laws R db" and "crypto_laws C" and "build_state C R env b cfg h r = Some bt" and "bt_admin_seed bt = Some (Inr u)"
    and "env ''VIHS_ADMIN_TOKEN'' = Some token" and "0 \<le> bi_admin_ts b" "bi_admin_ts b + seed_ttl < 2 ^ 63" and "bi_warm_ts b \<le> t"
    and "\<forall>(c, s, cmd) \<in> set hist. s \<le> t \<and> token_row C token \<notin> written cmd"
  shows "token \<noteq> [] \<and> snd (verify C R (tks_pepper (bt_tokens bt)) t token (redis_history R hist (ct_redis (ap_ctl (bt_app bt))))) \<in>
    (if t < bi_admin_ts b + seed_ttl then {Inl Upstream, Inr \<lparr>p_owner = ''bootstrap'', p_scope = Admin\<rparr>}
     else {Inl Upstream, Inl (Authz ''unknown token'')})"
proof (rule build_state_admin [OF assms(3-5)])
  fix r1 r2
  assume t: "token \<noteq> []"
    and s: "seed C R (tks_pepper (bt_tokens bt)) (bi_admin_ts b) (bi_admin_salt b) token ''bootstrap'' Admin seed_ttl r1 = (r2, Inr u)"
    and w: "ct_redis (ap_ctl (bt_app bt)) = fst (warm_from_redis R (bi_warm_ts b) (bi_warm_stamp b) new_index r2)"
  have "purge t (db (ct_redis (ap_ctl (bt_app bt)))) = purge t (db r2)"
    unfolding w using purge_later_eq [OF warm_from_redis_db [OF assms(1)] assms(8)] .
  then have "hash_at (purge t (db (redis_history R hist (ct_redis (ap_ctl (bt_app bt)))))) (token_row C token) =
      hash_at (purge t (db r2)) (token_row C token)"
    by (simp add: redis_history_frame [OF assms(1,9)])
  from seeded_token [OF assms(1,2) s _ assms(6,7) this] t show ?thesis by (simp add: seed_ttl_def)
qed

text \<open>The admin routes accept the bootstrap token for a day, and refuse it from then on.\<close>

lemma bootstrap_admin_gate:
  assumes "redis_laws R db" and "crypto_laws C" and "build_state C R env b cfg h r = Some bt" and "bt_admin_seed bt = Some (Inr u)"
    and "env ''VIHS_ADMIN_TOKEN'' = Some token" and "0 \<le> bi_admin_ts b" "bi_admin_ts b + 86400 < 2 ^ 63" and "bi_warm_ts b \<le> tk_ts tk"
    and "\<forall>(c, s, cmd) \<in> set hist. s \<le> tk_ts tk \<and> token_row C token \<notin> written cmd"
    and "ct_redis (ap_ctl w) = redis_history R hist (ct_redis (ap_ctl (bt_app bt)))"
  shows "snd (admin_gate (boot_deps L net C R P cfg bt) tk token w) \<in>
    (if tk_ts tk < bi_admin_ts b + 86400 then {Inl OUpstream, Inr \<lparr>p_owner = ''bootstrap'', p_scope = Admin\<rparr>}
     else {Inl OUpstream, Inl (OAuthz ''unknown token'')})"
proof -
  obtain r' res where v: "verify C R (tks_pepper (bt_tokens bt)) (tk_ts tk) token (ct_redis (ap_ctl w)) = (r', res)" by fastforce
  from bootstrap_verify [OF assms(1-6) _ assms(8,9)] assms(7) v [unfolded assms(10)] have "token \<noteq> []"
    "res \<in> (if tk_ts tk < bi_admin_ts b + 86400 then {Inl Upstream, Inr \<lparr>p_owner = ''bootstrap'', p_scope = Admin\<rparr>}
       else {Inl Upstream, Inl (Authz ''unknown token'')})" by (simp_all add: seed_ttl_def)
  with v show ?thesis
    by (auto simp: admin_gate_def gate_def boot_deps_def allow_def from_token_error_def verb_allows_def split: if_splits)
qed

subsection \<open>Readiness\<close>

text \<open>
  The readiness of the control plane is that of the memory service, read without a token: 200 exactly
  when the probe is answered with a success, 503 otherwise. Redis is not asked.
\<close>

theorem readyz_follows_memoryd:
  "fst (snd (readyz_impl get status_text addr h)) =
     (case snd (get (client_base addr @ ''/readyz'') h) of Inr st \<Rightarrow> if is_success st then 200 else 503 | Inl _ \<Rightarrow> 503)"
  by (simp add: readyz_impl_def Let_def split: prod.splits sum.splits)

subsection \<open>Witnesses\<close>

definition boot_env0 :: "string \<Rightarrow> string option" where
  "boot_env0 = [''VIHS_TOKEN_PEPPER'' \<mapsto> ''0123456789abcdef'', ''VIHS_ADMIN_TOKEN'' \<mapsto> token0]"

definition boot_input0 :: boot_input where
  "boot_input0 = \<lparr>bi_uuid = ''u'', bi_pod_ts = 1, bi_pod_salt = ''s'', bi_admin_ts = 1, bi_admin_salt = ''s'', bi_warm_ts = 2, bi_warm_stamp = ''t''\<rparr>"

abbreviation boot_cfg0 :: orch_config where "boot_cfg0 \<equiv> orch_config_from_env boot_env0"

lemma seed_empty_ok:
  assumes "b64dec C token = Some raw" "length raw = TOKEN_TOTAL_BYTES" "argon_hash C salt (token @ pepper) = Some ph"
  shows "snd (seed C (mem_redis True) pepper now salt token ow sc ttl []) = Inr ()"
  using assms by (simp add: seed_def hash_token_def write_record_def with_conn_def mem_redis_def or_err_def mem_purge_def mem_hash_def Let_def)

lemma seeded0_ok: "snd (seed ref_crypto (mem_redis True) pepper 1 ''s'' token0 ''bootstrap'' Admin seed_ttl []) = Inr ()"
proof (rule seed_empty_ok)
  show "b64dec ref_crypto token0 = Some raw0" unfolding token0_def by (rule crypto_dec [OF ref_crypto_laws])
  show "length raw0 = TOKEN_TOTAL_BYTES" by (simp add: TOKEN_TOTAL_BYTES_def TOKEN_ID_BYTES_def)
  show "argon_hash ref_crypto ''s'' (token0 @ pepper) = Some (token0 @ pepper)" by (simp add: ref_crypto_def)
qed

lemma token0_nonempty: "token0 \<noteq> []"
  unfolding token0_def by (rule crypto_nonempty [OF ref_crypto_laws]) simp

lemma boot0:
  obtains bt :: "(nat, mem) boot" where "build_state ref_crypto (mem_redis True) boot_env0 boot_input0 boot_cfg0 (0 :: nat) [] = Some bt"
    "bt_admin_seed bt = Some (Inr ())"
proof -
  obtain r2 where s: "seed ref_crypto (mem_redis True) ''0123456789abcdef'' 1 ''s'' token0 ''bootstrap'' Admin seed_ttl [] = (r2, Inr ())"
    using seeded0_ok by (auto simp: prod_eq_iff)
  obtain r3 ix n where w: "warm_from_redis (mem_redis True) 2 ''t'' new_index r2 = (r3, ix, n)" by (metis prod_cases3)
  have "choose_driver boot_env0 boot_cfg0 = Some (MockDriver new_mock)"
    by (simp add: choose_driver_def orch_config_from_env_def env_or_def boot_env0_def)
  with s w token0_nonempty that show thesis
    by (simp add: build_state_def connect_def seed_env_def boot_env0_def boot_input0_def mem_redis_def)
qed

end
