(* ===== verification/Metrics.thy ===== *)
theory Metrics
  imports OrchApi Scaler
begin

text \<open>
  \<open>crates/orchestrator/src/metrics.rs\<close> and the places that record: the authorizer, the connect
  handler, the registry's \<open>ready\<close> and the autoscaler. A handler with its metrics is the handler with,
  in front of its result, the samples it records; dropping them gives back the handler. The series of
  the \<open>prometheus\<close> crate are a record: a gauge is its last value, a counter a \<open>u64\<close>, a histogram the
  list of its observations (nanoseconds), each by label. The text encoder is a parameter.
\<close>

subsection \<open>Series\<close>

datatype sample =
    PodSessions string u32
  | ScaleEvent string
  | ColdStart string int
  | ResumeTotal string
  | AuthzDenial

record metrics =
  mx_pod_sessions :: "string \<rightharpoonup> int"
  mx_scale_events :: "string \<rightharpoonup> u64"
  mx_cold_start :: "string \<rightharpoonup> int list"
  mx_resume_total :: "string \<rightharpoonup> u64"
  mx_authz_denials :: u64

definition no_metrics :: metrics where
  "no_metrics = \<lparr>mx_pod_sessions = Map.empty, mx_scale_events = Map.empty, mx_cold_start = Map.empty, mx_resume_total = Map.empty, mx_authz_denials = 0\<rparr>"

text \<open>\<open>with_label_values\<close> makes the child of a label at zero; \<open>inc\<close> adds one to it.\<close>

definition touch :: "string \<Rightarrow> (string \<rightharpoonup> u64) \<Rightarrow> (string \<rightharpoonup> u64)" where
  "touch l c = (case c l of None \<Rightarrow> c(l \<mapsto> 0) | Some _ \<Rightarrow> c)"

definition inc :: "string \<Rightarrow> (string \<rightharpoonup> u64) \<Rightarrow> (string \<rightharpoonup> u64)" where
  "inc l c = c(l \<mapsto> unwrap_or (c l) 0 + 1)"

definition record_pod_sessions :: "string \<Rightarrow> u32 \<Rightarrow> metrics \<Rightarrow> metrics" where
  "record_pod_sessions pod_id fill m = m\<lparr>mx_pod_sessions := (mx_pod_sessions m)(pod_id \<mapsto> uint fill)\<rparr>"

definition record_scale_event :: "string \<Rightarrow> metrics \<Rightarrow> metrics" where
  "record_scale_event dir m = m\<lparr>mx_scale_events := inc dir (mx_scale_events m)\<rparr>"

definition record_cold_start :: "string \<Rightarrow> int \<Rightarrow> metrics \<Rightarrow> metrics" where
  "record_cold_start pod_id d m = m\<lparr>mx_cold_start := (mx_cold_start m)(pod_id \<mapsto> unwrap_or (mx_cold_start m pod_id) [] @ [d])\<rparr>"

definition record_resume :: "string \<Rightarrow> metrics \<Rightarrow> metrics" where
  "record_resume result m = m\<lparr>mx_resume_total := inc result (mx_resume_total m)\<rparr>"

definition record_authz_denial :: "metrics \<Rightarrow> metrics" where
  "record_authz_denial m = m\<lparr>mx_authz_denials := mx_authz_denials m + 1\<rparr>"

fun record_sample :: "sample \<Rightarrow> metrics \<Rightarrow> metrics" where
  "record_sample (PodSessions pod_id fill) = record_pod_sessions pod_id fill"
| "record_sample (ScaleEvent dir) = record_scale_event dir"
| "record_sample (ColdStart pod_id d) = record_cold_start pod_id d"
| "record_sample (ResumeTotal result) = record_resume result"
| "record_sample AuthzDenial = record_authz_denial"

text \<open>The registry, made at the first scrape: it seeds the labels that are known in advance.\<close>

definition registry_init :: "metrics \<Rightarrow> metrics" where
  "registry_init m = m\<lparr>mx_scale_events := fold touch [''up'', ''down'', ''replace''] (mx_scale_events m),
     mx_resume_total := fold touch [''ok'', ''denied'', ''error''] (mx_resume_total m)\<rparr>"

text \<open>The names that are rendered: a vector without a child renders nothing.\<close>

definition rendered :: "metrics \<Rightarrow> string set" where
  "rendered m = {''vihs_authz_denials_total''} \<union>
     (if mx_pod_sessions m = Map.empty then {} else {''vihs_pod_sessions''}) \<union>
     (if mx_scale_events m = Map.empty then {} else {''vihs_scale_events_total''}) \<union>
     (if mx_cold_start m = Map.empty then {} else {''vihs_cold_start_secs''}) \<union>
     (if mx_resume_total m = Map.empty then {} else {''vihs_resume_total''})"

definition metrics_route :: "(metrics \<Rightarrow> string + string) \<Rightarrow> metrics \<Rightarrow> metrics \<times> nat \<times> string \<times> string" where
  "metrics_route encode m =
     (let m' = registry_init m in
      case encode m' of
        Inr body \<Rightarrow> (m', 200, ''text/plain; version=0.0.4; charset=utf-8'', body)
      | Inl e \<Rightarrow> (m', 500, ''text/plain'', ''metrics encode error: '' @ e))"

subsection \<open>The authorizer and the connect handler\<close>

text \<open>Early return on an error, with the state and the samples so far.\<close>

definition then_rec :: "'x list \<times> 'w \<times> ('e + 'a) \<Rightarrow> ('a \<Rightarrow> 'w \<Rightarrow> 'x list \<times> 'w \<times> ('e + 'b)) \<Rightarrow> 'x list \<times> 'w \<times> ('e + 'b)" where
  "then_rec m f =
     (case m of
        (ss, w, Inl e) \<Rightarrow> (ss, w, Inl e)
      | (ss, w, Inr a) \<Rightarrow> (case f a w of (ss', x) \<Rightarrow> (ss @ ss', x)))"

definition note_err :: "'x \<Rightarrow> 'x list \<times> 'w \<times> ('e + 'a) \<Rightarrow> 'x list \<times> 'w \<times> ('e + 'a)" where
  "note_err s m = (case m of (ss, w, Inl e) \<Rightarrow> (ss @ [s], w, Inl e) | (ss, w, Inr a) \<Rightarrow> (ss, w, Inr a))"

definition allow_rec ::
    "crypto \<Rightarrow> 'r redis \<Rightarrow> string \<Rightarrow> int \<Rightarrow> string \<Rightarrow> verb \<Rightarrow> 'r \<Rightarrow> sample list \<times> 'r \<times> (orch_error + principal)" where
  "allow_rec C R pepper now token v r =
     (if token = [] then ([AuthzDenial], r, Inl (OAuthz ''missing token''))
      else
        (case verify C R pepper now token r of
           (r', Inl e) \<Rightarrow> ([], r', Inl (from_token_error e))
         | (r', Inr p) \<Rightarrow>
             if \<not> verb_allows v (p_scope p) then ([AuthzDenial], r', Inl (OAuthz ''scope not permitted for route''))
             else ([], r', Inr p)))"

definition gate_rec ::
    "('h, 'r, 'p) app_deps \<Rightarrow> tick \<Rightarrow> string \<Rightarrow> verb \<Rightarrow> ('h, 'r) app \<Rightarrow> sample list \<times> ('h, 'r) app \<times> (orch_error + principal)" where
  "gate_rec D tk token v w =
     (case allow_rec (dp_crypto D) (dp_redis D) (dp_pepper D) (tk_ts tk) token v (ct_redis (ap_ctl w)) of
        (ss, r', res) \<Rightarrow> (ss, w\<lparr>ap_ctl := (ap_ctl w)\<lparr>ct_redis := r'\<rparr>\<rparr>, res))"

definition connect_session_rec ::
    "('h, 'r, 'p) app_deps \<Rightarrow> tick \<Rightarrow> (pod_registry \<times> channels \<Rightarrow> pod_registry \<times> channels) \<Rightarrow> string \<Rightarrow> string \<Rightarrow>
     ('h, 'r) app \<Rightarrow> sample list \<times> ('h, 'r) app \<times> (orch_error + api_reply)" where
  "connect_session_rec D tk env session_id token w =
     then_rec (note_err (ResumeTotal ''denied'') (gate_rec D tk token VSession w)) (\<lambda>p w.
     then_rec (note_err (ResumeTotal ''denied'') ([], rate_gate D tk token Resume w)) (\<lambda>_ w.
     case index_get (p_owner p) session_id (ap_sessions w) of
       None \<Rightarrow> ([ResumeTotal ''denied''], w, Inl (ONotFound session_id))
     | Some _ \<Rightarrow>
         (let assigned = assign_session (dp_libs D) (dp_net D) (dp_base D) (dp_crypto D) (dp_redis D) (dp_pepper D) (tk_fresh tk) env
                session_id token (ap_ctl w) in
          ([ResumeTotal (if is_ok (snd assigned) then ''ok'' else ''error'')], answer_assign D tk session_id token assigned w))))"

subsection \<open>The registry and the autoscaler\<close>

definition ready_rec :: "instant \<Rightarrow> string \<Rightarrow> pod_registry \<Rightarrow> sample list \<times> pod_registry" where
  "ready_rec now pid reg =
     (case pr_pods reg pid of
        None \<Rightarrow> []
      | Some p \<Rightarrow> if ps_state p \<noteq> Ready then [ColdStart pid (duration_since now (ps_created_at p))] else [],
      ready now pid reg)"

definition deploy_one_rec ::
    "'p provider \<Rightarrow> scaler_cfg \<Rightarrow> (nat \<Rightarrow> string \<times> instant) \<Rightarrow> sample list \<times> 'p fleet \<Rightarrow> sample list \<times> 'p fleet" where
  "deploy_one_rec P cfg fresh x =
     (case deploy_one P cfg fresh (snd x) of
        (fl, Some _) \<Rightarrow> (fst x @ [ScaleEvent ''up''], fl)
      | (fl, None) \<Rightarrow> (fst x, fl))"

text \<open>The samples of one action: deployments one by one, and a termination when it succeeds.\<close>

fun action_samples ::
    "'p provider \<Rightarrow> scaler_cfg \<Rightarrow> (nat \<Rightarrow> string \<times> instant) \<Rightarrow> scale_action \<Rightarrow> 'p fleet \<Rightarrow> sample list" where
  "action_samples P cfg fresh (Deploy n) fl = fst ((deploy_one_rec P cfg fresh ^^ unat n) ([], fl))"
| "action_samples P cfg fresh (Terminate pid) fl = (if snd (terminate_one P pid fl) then [ScaleEvent ''down''] else [])"
| "action_samples P cfg fresh (Replace pid) fl = (if snd (terminate_one P pid fl) then [ScaleEvent ''replace''] else [])"
| "action_samples P cfg fresh _ fl = []"

definition exec_action_rec ::
    "'p provider \<Rightarrow> scaler_cfg \<Rightarrow> (nat \<Rightarrow> string \<times> instant) \<Rightarrow> instant \<Rightarrow> scale_action \<Rightarrow>
     sample list \<times> 'p fleet \<times> json list \<Rightarrow> sample list \<times> 'p fleet \<times> json list" where
  "exec_action_rec P cfg fresh now a x =
     (fst x @ action_samples P cfg fresh a (fst (snd x)), exec_action P cfg fresh now a (snd x))"

definition scaler_tick_rec ::
    "'p provider \<Rightarrow> scaler_cfg \<Rightarrow> (nat \<Rightarrow> string \<times> instant) \<Rightarrow> instant \<Rightarrow> 'p fleet \<Rightarrow> sample list \<times> 'p fleet" where
  "scaler_tick_rec P cfg fresh now fl =
     (let fl = fl\<lparr>fl_registry := mark_stale now (fl_registry fl)\<rparr>;
          gauges = map (\<lambda>p. PodSessions (ps_id p) (ps_fill p)) (pods_snapshot (fl_registry fl));
          actions = decide (view_of cfg now fl);
          (ss, fl, decisions) = fold (exec_action_rec P cfg fresh now) actions (gauges, fl, []) in
      (ss, if decisions \<noteq> []
           then fl\<lparr>fl_last_scale_decisions := keep_last 32 (fl_last_scale_decisions fl @ decisions)\<rparr>
           else fl))"

subsection \<open>The share of a pod that is taken\<close>

definition capacity_used :: "pod_state \<Rightarrow> f32" where
  "capacity_used p = (if ps_cap p = 0 then Finite 0 else f32_div (u32_as_f32 (ps_fill p)) (u32_as_f32 (ps_cap p)))"

subsection \<open>Rounding keeps the order\<close>

lemma f32_round_pos: "0 < x \<Longrightarrow> 0 < f32_round x"
  using f32_round_lower by (rule less_le_trans [rotated]) simp_all

lemma f32_round_nonneg: "0 \<le> f32_round x"
proof (cases "0 < x")
  case True
  then show ?thesis by (intro less_imp_le f32_round_pos)
qed (simp add: f32_round_def)

lemma f32_round_mono:
  assumes "x \<le> y"
  shows "f32_round x \<le> f32_round y"
proof (cases "0 < x")
  case True
  with assms have y: "0 < y" by simp
  have "(2 :: rat) powi rat_exponent x < 2 powi (rat_exponent y + 1)"
    using rat_exponent_bounds(1) [OF True] assms rat_exponent_bounds(2) [OF y] by linarith
  then have "rat_exponent x \<le> rat_exponent y" using powi_less by fastforce
  then consider "rat_exponent x = rat_exponent y" | "rat_exponent x + 1 \<le> rat_exponent y" by linarith
  then show ?thesis
  proof cases
    case 1
    have "x / 2 powi (rat_exponent y - 23) \<le> y / 2 powi (rat_exponent y - 23)" using assms by (simp add: divide_right_mono)
    from round_even_mono [OF this] True y 1 show ?thesis by (simp add: f32_round_def Let_def)
  next
    case 2
    then have "(2 :: rat) powi (rat_exponent x + 1) \<le> 2 powi rat_exponent y" by (intro power_int_increasing) simp_all
    with f32_round_upper [OF True] f32_round_lower [OF y] show ?thesis by linarith
  qed
next
  case False
  with f32_round_nonneg [of y] show ?thesis by (simp add: f32_round_def)
qed

subsection \<open>The samples change nothing\<close>

lemma then_rec_erase: "snd (then_rec m f) = then_do (snd m) (\<lambda>a w. snd (f a w))"
  by (simp add: then_rec_def then_do_def split: prod.splits sum.splits)

lemma note_err_erase [simp]: "snd (note_err s m) = snd m"
  by (auto simp: note_err_def split: prod.splits sum.splits)

lemma allow_rec_erase: "snd (allow_rec C R pepper now token v r) = allow C R pepper now token v r"
  by (auto simp: allow_rec_def allow_def Let_def split: prod.splits sum.splits)

lemma gate_rec_erase: "snd (gate_rec D tk token v w) = gate D tk token v w"
  unfolding gate_rec_def gate_def
  by (simp flip: allow_rec_erase split: prod.splits)

lemma connect_rec_erase: "snd (connect_session_rec D tk env sid token w) = connect_session D tk env sid token w"
  unfolding connect_session_rec_def connect_session_def
  by (simp add: then_rec_erase gate_rec_erase Let_def option.case_distrib [of snd] cong: option.case_cong)

lemma deploys_rec_erase: "snd ((deploy_one_rec P cfg fresh ^^ n) x) = ((\<lambda>fl. fst (deploy_one P cfg fresh fl)) ^^ n) (snd x)"
  by (induction n) (auto simp: deploy_one_rec_def split: prod.splits option.splits)

lemma deploys_rec_prefix: "(deploy_one_rec P cfg fresh ^^ n) (zs, fl) = apfst ((@) zs) ((deploy_one_rec P cfg fresh ^^ n) ([], fl))"
proof (induction n)
  case (Suc n)
  have "deploy_one_rec P cfg fresh (apfst ((@) zs) y) = apfst ((@) zs) (deploy_one_rec P cfg fresh y)" for y
    by (cases y) (simp add: deploy_one_rec_def split: prod.splits option.splits)
  with Suc show ?case by simp
qed simp

lemma exec_rec_erase: "snd (fold (exec_action_rec P cfg fresh now) as x) = fold (exec_action P cfg fresh now) as (snd x)"
  by (induction "as" arbitrary: x) (simp_all add: exec_action_rec_def)

lemma tick_rec_erase: "snd (scaler_tick_rec P cfg fresh now fl) = scaler_tick P cfg fresh now fl"
proof -
  let ?fl = "fl\<lparr>fl_registry := mark_stale now (fl_registry fl)\<rparr>"
  let ?g = "map (\<lambda>p. PodSessions (ps_id p) (ps_fill p)) (pods_snapshot (fl_registry ?fl))"
  from exec_rec_erase [of P cfg fresh now "decide (view_of cfg now ?fl)" "(?g, ?fl, [])"] show ?thesis
    by (auto simp: scaler_tick_rec_def scaler_tick_def Let_def split: prod.splits)
qed

subsection \<open>One outcome per connection\<close>

text \<open>Every path of the handler ends in one sample of its outcome, after at most a denial.\<close>

lemma connect_rec_samples:
  obtains pre l where "fst (connect_session_rec D tk env sid token w) = pre @ [ResumeTotal l]" "set pre \<subseteq> {AuthzDenial}"
    "l \<in> {''ok'', ''denied'', ''error''}"
    "l = ''ok'' \<longleftrightarrow> (\<exists>body. snd (connect_session D tk env sid token w) = Inr (200, body))"
proof -
  obtain ss w1 res where g: "gate_rec D tk token VSession w = (ss, w1, res)" by (metis prod_cases3)
  then have ss: "set ss \<subseteq> {AuthzDenial}" by (auto simp: gate_rec_def allow_rec_def split: if_splits prod.splits sum.splits)
  have gate: "gate D tk token VSession w = (w1, res)" using g gate_rec_erase [of D tk token VSession w] by simp
  show thesis
  proof (cases res)
    case (Inl e)
    with g gate show thesis
      by (intro that [of ss "''denied''"]) (simp_all add: connect_session_rec_def connect_session_def then_rec_def note_err_def ss)
  next
    case (Inr p)
    obtain w2 x where r: "rate_gate D tk token Resume w1 = (w2, x)" by fastforce
    let ?a = "assign_session (dp_libs D) (dp_net D) (dp_base D) (dp_crypto D) (dp_redis D) (dp_pepper D) (tk_fresh tk) env sid token (ap_ctl w2)"
    have ok: "is_ok (snd ?a) \<longleftrightarrow> (\<exists>body. snd (answer_assign D tk sid token ?a w2) = Inr (200, body))"
      by (auto simp: answer_assign_def connect_reply_def queued_reply_def Let_def split: prod.splits sum.splits orch_error.splits)
    consider e where "x = Inl e" | "x = Inr ()" "index_get (p_owner p) sid (ap_sessions w2) = None"
      | sm where "x = Inr ()" "index_get (p_owner p) sid (ap_sessions w2) = Some sm" by (cases x) auto
    then show thesis
    proof cases
      case 3
      with g gate Inr r ok show thesis
        by (intro that [of ss "if is_ok (snd ?a) then ''ok'' else ''error''"])
          (simp_all add: connect_session_rec_def connect_session_def then_rec_def note_err_def ss Let_def)
    qed (use g gate Inr r in \<open>(intro that [of ss "''denied''"]; simp add: connect_session_rec_def connect_session_def then_rec_def note_err_def ss)+\<close>)
  qed
qed

text \<open>A counter of a vector, and what samples add to it.\<close>

abbreviation resumes :: "metrics \<Rightarrow> string \<Rightarrow> u64" where
  "resumes m l \<equiv> unwrap_or (mx_resume_total m l) 0"

lemma inc_lookup: "unwrap_or (inc l c k) 0 = unwrap_or (c k) 0 + (if k = l then 1 else 0)"
  by (simp add: inc_def)

lemma resumes_sample: "resumes (record_sample s m) k = resumes m k + (if s = ResumeTotal k then 1 else 0)"
  by (cases s) (auto simp: record_pod_sessions_def record_scale_event_def record_cold_start_def record_resume_def record_authz_denial_def inc_lookup)

lemma resumes_fold: "resumes (fold record_sample ss m) k = resumes m k + of_nat (count_list ss (ResumeTotal k))"
  by (induction ss arbitrary: m) (auto simp: resumes_sample)

text \<open>The samples of a sequence of requests, each with the state it finds.\<close>

definition connect_samples where
  "connect_samples D reqs = concat (map (\<lambda>(tk, env, sid, token, w). fst (connect_session_rec D tk env sid token w)) reqs)"

text \<open>
  C22. The resume counters add up. However requests to connect come in, and whatever happened in between,
  the counters of the three outcomes grow together by the number of requests, and the counter of
  successes by the number of requests that were answered 200.
\<close>

theorem resume_counters_add_up:
  "let m' = fold record_sample (connect_samples D reqs) m in
    resumes m' ''ok'' = resumes m ''ok'' +
      of_nat (length (filter (\<lambda>(tk, env, sid, token, w). \<exists>body. snd (connect_session D tk env sid token w) = Inr (200, body)) reqs)) \<and>
    resumes m' ''ok'' + resumes m' ''denied'' + resumes m' ''error'' =
      resumes m ''ok'' + resumes m ''denied'' + resumes m ''error'' + of_nat (length reqs)"
proof -
  let ?ok = "\<lambda>(tk, env, sid, token, w). \<exists>body. snd (connect_session D tk env sid token w) = Inr (200, body)"
  let ?n = "\<lambda>l. count_list (connect_samples D reqs) (ResumeTotal l)"
  have counts: "?n ''ok'' = length (filter ?ok reqs) \<and> ?n ''ok'' + ?n ''denied'' + ?n ''error'' = length reqs"
  proof (induction reqs)
    case Nil
    show ?case by (simp add: connect_samples_def)
  next
    case (Cons q reqs)
    obtain tk env sid token w where q: "q = (tk, env, sid, token, w)" by (cases q)
    obtain pre l where s: "fst (connect_session_rec D tk env sid token w) = pre @ [ResumeTotal l]" "set pre \<subseteq> {AuthzDenial}"
      "l \<in> {''ok'', ''denied'', ''error''}" "l = ''ok'' \<longleftrightarrow> (\<exists>body. snd (connect_session D tk env sid token w) = Inr (200, body))"
      by (rule connect_rec_samples)
    from s(2) have "ResumeTotal k \<notin> set pre" for k by auto
    then have pre: "count_list pre (ResumeTotal k) = 0" for k by simp
    have "connect_samples D (q # reqs) = pre @ ResumeTotal l # connect_samples D reqs" using s(1) q by (simp add: connect_samples_def)
    with Cons s(3,4) q pre show ?case by auto
  qed
  have "resumes m l + of_nat (?n l) + (resumes m l' + of_nat (?n l')) + (resumes m l'' + of_nat (?n l'')) =
      resumes m l + resumes m l' + resumes m l'' + of_nat (?n l + ?n l' + ?n l'')" for l l' l'' by simp
  with counts show ?thesis unfolding Let_def resumes_fold by metis
qed

subsection \<open>The fleet and its events\<close>

text \<open>The steps of the fleet with the samples they record.\<close>

fun fleet_step_rec ::
    "'p provider \<Rightarrow> scaler_cfg \<Rightarrow> (nat \<Rightarrow> string \<times> instant) \<Rightarrow> fleet_event \<Rightarrow> sample list \<times> 'p fleet \<Rightarrow> sample list \<times> 'p fleet" where
  "fleet_step_rec P cfg fresh (Tick now) (ss, fl) = (case scaler_tick_rec P cfg fresh now fl of (ss', fl') \<Rightarrow> (ss @ ss', fl'))"
| "fleet_step_rec P cfg fresh (PodReady now pid) (ss, fl) =
     (case ready_rec now pid (fl_registry fl) of (ss', reg) \<Rightarrow> (ss @ ss', fl\<lparr>fl_registry := reg\<rparr>))"
| "fleet_step_rec P cfg fresh ev (ss, fl) = (ss, fleet_step P cfg fresh ev fl)"

lemma fleet_step_rec_erase: "snd (fleet_step_rec P cfg fresh ev x) = fleet_step P cfg fresh ev (snd x)"
  by (cases x; cases ev) (simp_all add: ready_rec_def split: prod.splits, metis snd_conv tick_rec_erase)

lemma subseq_keeps: "subseq xs ys \<Longrightarrow> set xs \<subseteq> set ys" "subseq xs ys \<Longrightarrow> distinct ys \<Longrightarrow> distinct xs"
proof -
  show sub: "subseq xs ys \<Longrightarrow> set xs \<subseteq> set ys" for xs ys :: "'a list" by (induction xs ys rule: list_emb.induct) auto
  show "subseq xs ys \<Longrightarrow> distinct ys \<Longrightarrow> distinct xs"
    by (induction xs ys rule: list_emb.induct) (use sub in fastforce)+
qed

lemma snapshot_ids:
  assumes "reg_ok reg"
  shows "distinct (map ps_id (pods_snapshot reg))" and "set (map ps_id (pods_snapshot reg)) \<subseteq> dom (pr_pods reg)"
  using snapshot_rows [OF assms] assms by (auto simp: strict_sorted_iff ran_def reg_ok_def row_ok_def)

text \<open>Rule 4 terminates each pod of its view at most once.\<close>

lemma scale_down_terminations:
  "\<exists>ts. terminations (fst (fold (scale_down v) ps st)) = terminations (fst st) @ ts \<and> subseq ts (map ps_id ps)"
proof (induction ps arbitrary: st)
  case (Cons p ps)
  have step: "terminations (fst (scale_down v p st)) \<in> {terminations (fst st), terminations (fst st) @ [ps_id p]}"
    by (auto simp: scale_down_def terminations_snoc split: prod.splits option.splits)
  from Cons.IH [of "scale_down v p st"] obtain ts where
    ts: "terminations (fst (fold (scale_down v) ps (scale_down v p st))) = terminations (fst (scale_down v p st)) @ ts" "subseq ts (map ps_id ps)" by blast
  with step show ?case by (auto intro: exI [of _ "ps_id p # ts"])
qed simp

text \<open>
  On the mock provider every id is drawn once, every deployment and every termination succeeds.
  The number of pods is what the counters say, and only ids drawn so far are registered.
\<close>

definition counted :: "(nat \<Rightarrow> string \<times> instant) \<Rightarrow> sample list \<times> mock_provider fleet \<Rightarrow> bool" where
  "counted fresh x \<longleftrightarrow> reg_ok (fl_registry (snd x)) \<and> registered (snd x) \<subseteq> (fst \<circ> fresh) ` {..<fl_drawn (snd x)} \<and>
     card (registered (snd x)) + count_list (fst x) (ScaleEvent ''down'') = count_list (fst x) (ScaleEvent ''up'') \<and>
     ScaleEvent ''replace'' \<notin> set (fst x)"

lemma dom_register [simp]: "dom (pr_pods (register now pid addr cap versions reg)) = insert pid (dom (pr_pods reg))"
  by (simp add: register_def Let_def)

lemma counted_finite: "counted fresh x \<Longrightarrow> finite (registered (snd x))"
  unfolding counted_def by (meson finite_imageI finite_lessThan finite_subset)

lemma counted_deploy:
  assumes "counted fresh x" and "inj (fst \<circ> fresh)"
  shows "counted fresh (deploy_one_rec mock cfg fresh x)"
proof -
  obtain ss fl where x: "x = (ss, fl)" by fastforce
  obtain i t where f: "fresh (fl_drawn fl) = (i, t)" by fastforce
  let ?reg = "register t i ''127.0.0.1:0'' (sc_pod_max_sessions cfg) None (fl_registry fl)"
  have new: "i \<notin> registered fl"
  proof
    assume "i \<in> registered fl"
    with assms(1) obtain k where "k < fl_drawn fl" "(fst \<circ> fresh) k = i" by (auto simp: counted_def x)
    with f injD [OF assms(2), of k "fl_drawn fl"] show False by simp
  qed
  have d: "fl_drawn (snd (deploy_one_rec mock cfg fresh x)) = Suc (fl_drawn fl)" "fl_registry (snd (deploy_one_rec mock cfg fresh x)) = ?reg"
    "fst (deploy_one_rec mock cfg fresh x) = ss @ [ScaleEvent ''up'']"
    by (simp_all add: deploy_one_rec_def deploy_one_def x f mock_def mock_deploy_def Let_def)
  have "i \<in> (fst \<circ> fresh) ` {..<Suc (fl_drawn fl)}" using f by (force simp: image_iff)
  with assms(1) new counted_finite [OF assms(1)] show ?thesis
    unfolding counted_def d by (auto simp: x reg_ok_ops lessThan_Suc)
qed

lemma counted_action:
  assumes "counted fresh (ss, fl)" and "inj (fst \<circ> fresh)" and "\<forall>i. a \<noteq> Replace i" and "set (terminations [a]) \<subseteq> registered fl"
    and "exec_action_rec mock cfg fresh now a (ss, fl, ds) = (ss', fl', ds')"
  shows "counted fresh (ss', fl') \<and> registered fl - set (terminations [a]) \<subseteq> registered fl'"
proof (cases a)
  case (Deploy n)
  have c: "counted fresh ((deploy_one_rec mock cfg fresh ^^ k) (ss, fl)) \<and> registered fl \<subseteq> registered (snd ((deploy_one_rec mock cfg fresh ^^ k) (ss, fl)))" for k
  proof (induction k)
    case (Suc k)
    have "registered (snd x) \<subseteq> registered (snd (deploy_one_rec mock cfg fresh x))" for x
      by (auto simp: deploy_one_rec_def deploy_one_def mock_def mock_deploy_def register_def Let_def split: prod.splits)
    with Suc counted_deploy [OF _ assms(2)] show ?case by (simp, blast)
  qed (simp add: assms(1))
  from assms(5) Deploy have "(deploy_one_rec mock cfg fresh ^^ unat n) (ss, fl) = (ss', fl')"
    by (simp add: exec_action_rec_def deploys_rec_prefix [where zs = ss] prod_eq_iff deploys_rec_erase)
  with c [of "unat n"] show ?thesis by auto
next
  case (Terminate i)
  then have i: "i \<in> registered fl" using assms(4) by (simp add: terminations_def)
  from assms(5) Terminate have e: "ss' = ss @ [ScaleEvent ''down'']" "fl_registry fl' = remove_pod i (fl_registry fl)" "fl_drawn fl' = fl_drawn fl"
    by (auto simp: exec_action_rec_def terminate_one_def mock_def mock_terminate_def Let_def)
  have "registered fl' = registered fl - {i}" using e(2) by (auto simp: remove_pod_def)
  with assms(1) i e counted_finite [OF assms(1)] card_Suc_Diff1 [of "registered fl" i] show ?thesis
    by (auto simp: counted_def reg_ok_ops Terminate terminations_def)
next
  case (StartCooldown i)
  with assms(5) have "ss' = ss" "fl_registry fl' = start_cooldown i now (sc_pod_cooldown cfg) (fl_registry fl)" "fl_drawn fl' = fl_drawn fl"
    by (auto simp: exec_action_rec_def)
  moreover from this have "registered fl' = registered fl" by simp
  ultimately show ?thesis using assms(1) by (simp add: counted_def reg_ok_ops)
qed (use assms in \<open>auto simp: exec_action_rec_def counted_def\<close>)

lemma counted_actions:
  assumes "inj (fst \<circ> fresh)"
  shows "counted fresh (ss, fl) \<Longrightarrow> \<forall>a \<in> set as. \<forall>i. a \<noteq> Replace i \<Longrightarrow> distinct (terminations as) \<Longrightarrow> set (terminations as) \<subseteq> registered fl \<Longrightarrow>
    fold (exec_action_rec mock cfg fresh now) as (ss, fl, ds) = (ss', fl', ds') \<Longrightarrow> counted fresh (ss', fl')"
proof (induction "as" arbitrary: ss fl ds)
  case (Cons a "as")
  obtain ss1 fl1 ds1 where e: "exec_action_rec mock cfg fresh now a (ss, fl, ds) = (ss1, fl1, ds1)" by (metis prod_cases3)
  have t: "terminations (a # as) = terminations [a] @ terminations as" by (simp add: terminations_def)
  have "\<forall>i. a \<noteq> Replace i" "set (terminations [a]) \<subseteq> registered fl" using Cons.prems(2,4) by (auto simp: t)
  from counted_action [OF Cons.prems(1) assms this e] have
    c: "counted fresh (ss1, fl1)" "registered fl - set (terminations [a]) \<subseteq> registered fl1" by blast+
  have "set (terminations as) \<subseteq> registered fl - set (terminations [a])" "distinct (terminations as)"
    using Cons.prems(3,4) unfolding t by auto
  with c(2) have "set (terminations as) \<subseteq> registered fl1" "distinct (terminations as)" by blast+
  with Cons.IH [OF c(1)] Cons.prems(2,5) e show ?case by simp
qed simp

lemma counted_tick:
  assumes "counted fresh (ss, fl)" and "inj (fst \<circ> fresh)"
  shows "counted fresh (ss @ fst (scaler_tick_rec mock cfg fresh now fl), snd (scaler_tick_rec mock cfg fresh now fl))"
proof -
  let ?fl = "fl\<lparr>fl_registry := mark_stale now (fl_registry fl)\<rparr>"
  let ?g = "map (\<lambda>p. PodSessions (ps_id p) (ps_fill p)) (pods_snapshot (fl_registry ?fl))" and ?v = "view_of cfg now ?fl"
  have ok: "reg_ok (fl_registry ?fl)" using reg_ok_mark_stale assms(1) by (simp add: counted_def)
  have g: "count_list ?g (ScaleEvent d) = 0" "ScaleEvent d \<notin> set ?g" for d by (auto simp: count_list_0_iff)
  have start: "counted fresh (ss @ ?g, ?fl)" using assms(1) ok g by (simp add: counted_def)
  have safe: "(\<forall>a \<in> set (decide ?v). \<forall>i. a \<noteq> Replace i) \<and> distinct (terminations (decide ?v)) \<and> set (terminations (decide ?v)) \<subseteq> registered ?fl"
  proof (cases ?v rule: decide_cases)
    case replace
    with mark_stale_none_stale assms(1) show ?thesis by (simp add: view_of_def counted_def)
  next
    case down
    from scale_down_terminations [of ?v "fv_pods ?v" "([], 0)"] obtain ts where
      ts: "terminations (decide ?v) = ts" "subseq ts (map ps_id (fv_pods ?v))" unfolding down(1) by (auto simp: terminations_def)
    have "distinct (map ps_id (fv_pods ?v))" "set (map ps_id (fv_pods ?v)) \<subseteq> registered ?fl"
      unfolding view_of_def using snapshot_ids [OF ok] by simp_all
    with ts have "distinct (terminations (decide ?v))" "set (terminations (decide ?v)) \<subseteq> registered ?fl"
      using subseq_keeps by blast+
    moreover have "a \<noteq> Replace i" if "a \<in> set (decide ?v)" for a i
      using that down_actions [of a ?v "fv_pods ?v" "([], 0)"] by (auto simp: down(1))
    ultimately show ?thesis by blast
  qed (auto simp: terminations_def)
  obtain ss1 fl1 ds1 where f: "fold (exec_action_rec mock cfg fresh now) (decide ?v) (ss @ ?g, ?fl, []) = (ss1, fl1, ds1)" by (rule prod_cases3)
  from counted_actions [OF assms(2) start _ _ _ f] safe have c: "counted fresh (ss1, fl1)" by blast
  have "fold (exec_action_rec mock cfg fresh now) as (zs @ ys, y) = apfst ((@) zs) (fold (exec_action_rec mock cfg fresh now) as (ys, y))" for "as" zs ys y
    by (induction "as" arbitrary: ys y) (simp_all add: exec_action_rec_def)
  from this [of _ ss] f obtain zs where z: "fold (exec_action_rec mock cfg fresh now) (decide ?v) (?g, ?fl, []) = (zs, fl1, ds1)" "ss1 = ss @ zs"
    by (cases "fold (exec_action_rec mock cfg fresh now) (decide ?v) (?g, ?fl, [])") auto
  have "fst (scaler_tick_rec mock cfg fresh now fl) = zs" "fl_registry (snd (scaler_tick_rec mock cfg fresh now fl)) = fl_registry fl1"
    "fl_drawn (snd (scaler_tick_rec mock cfg fresh now fl)) = fl_drawn fl1"
    using z(1) by (simp_all add: scaler_tick_rec_def Let_def)
  with c z(2) show ?thesis by (simp add: counted_def)
qed

lemma counted_step:
  assumes "counted fresh x" and "inj (fst \<circ> fresh)" and "self_registered [ev] = {}"
  shows "counted fresh (fleet_step_rec mock cfg fresh ev x)"
proof -
  obtain ss fl where x: "x = (ss, fl)" by fastforce
  show ?thesis
  proof (cases ev)
    case (Tick now)
    with counted_tick [of fresh ss fl cfg now] assms x show ?thesis by (auto split: prod.splits)
  next
    case (PodReady now pid)
    have none: "ScaleEvent d \<notin> set (fst (ready_rec now pid (fl_registry fl)))" for d
      by (auto simp: ready_rec_def split: option.splits)
    then have "count_list (fst (ready_rec now pid (fl_registry fl))) (ScaleEvent d) = 0" for d by (simp add: count_list_0_iff)
    moreover have "dom (pr_pods (ready now pid (fl_registry fl))) = registered fl" by (simp add: ready_def)
    moreover obtain zs where "ready_rec now pid (fl_registry fl) = (zs, ready now pid (fl_registry fl))" by (simp add: ready_rec_def)
    ultimately show ?thesis using PodReady assms(1) none by (simp add: x counted_def reg_ok_ops)
  qed (use assms(1,3) in \<open>simp_all add: x counted_def reg_ok_ops, simp_all add: ping_def assign_def release_def drain_def\<close>)
qed

text \<open>
  The scale counters account for the fleet of the mock provider: with ids that are never drawn twice,
  after any sequence of ticks, reports and assignments in which no pod registers itself (such a row
  is counted by no deployment), from an empty fleet on, the pods in the registry are as many as the
  deployments counted less the terminations counted, and no replacement was ever counted; and the
  fleet is the one the loop reaches without metrics.
\<close>

theorem scale_events_track_fleet:
  assumes "inj (fst \<circ> fresh)" and "self_registered evs = {}"
  shows "let (ss, fl) = fold (fleet_step_rec mock cfg fresh) evs ([], empty_fleet new_mock) in
    fl = fold (fleet_step mock cfg fresh) evs (empty_fleet new_mock) \<and>
    card (dom (pr_pods (fl_registry fl))) + count_list ss (ScaleEvent ''down'') = count_list ss (ScaleEvent ''up'') \<and>
    ScaleEvent ''replace'' \<notin> set ss"
proof -
  have "counted fresh x \<Longrightarrow> counted fresh (fold (fleet_step_rec mock cfg fresh) evs x)" for x
    using assms(2)
  proof (induction evs arbitrary: x)
    case (Cons ev evs)
    then have "self_registered [ev] = {}" "self_registered evs = {}" by (simp_all add: self_registered_Cons [of ev evs])
    with Cons counted_step [OF _ assms(1)] show ?case by simp
  qed simp
  moreover have "counted fresh ([], empty_fleet new_mock)"
    by (simp add: counted_def empty_fleet_def reg_ok_new) (simp add: new_registry_def)
  ultimately have c: "counted fresh (fold (fleet_step_rec mock cfg fresh) evs ([], empty_fleet new_mock))" by blast
  have e: "snd (fold (fleet_step_rec mock cfg fresh) evs x) = fold (fleet_step mock cfg fresh) evs (snd x)" for x
    by (induction evs arbitrary: x) (simp_all add: fleet_step_rec_erase)
  obtain ss fl where r: "fold (fleet_step_rec mock cfg fresh) evs ([], empty_fleet new_mock) = (ss, fl)" by fastforce
  with e [of "([], empty_fleet new_mock)"] have "fl = fold (fleet_step mock cfg fresh) evs (empty_fleet new_mock)" by simp
  with c r show ?thesis by (simp add: counted_def)
qed

text \<open>
  The denial counter misses refused tokens: the authorizer counts a request without a token and one
  with the wrong scope, but not one whose token is malformed, unknown, expired, revoked or wrong.
\<close>

theorem refused_token_not_counted:
  "AuthzDenial \<in> set (fst (allow_rec C R pepper now token v r)) \<longleftrightarrow>
     token = [] \<or> (\<exists>p. snd (verify C R pepper now token r) = Inr p \<and> \<not> verb_allows v (p_scope p))"
  by (auto simp: allow_rec_def split: prod.splits sum.splits)

text \<open>
  A cold start is recorded whenever a pod that is not Ready becomes Ready, a drained or dead pod
  included, and measures the time since its registration.
\<close>

theorem cold_start_on_every_return:
  assumes "pr_pods reg pid = Some p"
  shows "fst (ready_rec now pid reg) = (if ps_state p = Ready then [] else [ColdStart pid (duration_since now (ps_created_at p))]) \<and>
    map_option ps_state (pr_pods (snd (ready_rec now pid reg)) pid) = Some Ready"
  using assms by (simp add: ready_rec_def ready_def update_row_def ready_row_def)

text \<open>
  The seeding of the registry keeps every counter and makes the series with known labels appear at
  every scrape; the two series that are labelled by pod appear only once a pod has been seen.
\<close>

theorem scrape_renders_seeded_series:
  "(let m' = fst (metrics_route encode m) in
    {''vihs_authz_denials_total'', ''vihs_scale_events_total'', ''vihs_resume_total''} \<subseteq> rendered m' \<and>
    (''vihs_pod_sessions'' \<in> rendered m' \<longleftrightarrow> mx_pod_sessions m \<noteq> Map.empty) \<and>
    (''vihs_cold_start_secs'' \<in> rendered m' \<longleftrightarrow> mx_cold_start m \<noteq> Map.empty) \<and>
    (\<forall>l. unwrap_or (mx_scale_events m' l) 0 = unwrap_or (mx_scale_events m l) 0 \<and> resumes m' l = resumes m l))"
proof -
  have t: "unwrap_or (touch k c l) 0 = unwrap_or (c l) 0" "touch k c k \<noteq> None" "c l \<noteq> None \<Longrightarrow> touch k c l \<noteq> None" for k l c
    by (auto simp: touch_def split: option.splits)
  have "fst (metrics_route encode m) = registry_init m" by (simp add: metrics_route_def Let_def split: sum.splits)
  moreover have "mx_scale_events (registry_init m) ''replace'' \<noteq> None" "mx_resume_total (registry_init m) ''error'' \<noteq> None"
    by (simp_all add: registry_init_def t(2))
  then have "mx_scale_events (registry_init m) \<noteq> Map.empty" "mx_resume_total (registry_init m) \<noteq> Map.empty" by metis+
  ultimately show ?thesis by (simp add: rendered_def) (simp add: registry_init_def t(1))
qed

text \<open>
  The share of a pod that is taken is a number between 0 and 1, for every pod of a registry that is
  in order, however the division is rounded; for a pod without capacity it is 0.
\<close>

theorem capacity_used_unit_interval:
  assumes "reg_ok reg" and "pr_pods reg pid = Some p"
  shows "\<exists>x. capacity_used p = Finite x \<and> 0 \<le> x \<and> x \<le> 1"
proof (cases "ps_cap p = 0")
  case False
  have "ps_fill p \<le> ps_cap p" using assms by (auto simp: reg_ok_def row_ok_def)
  then have "unat (ps_fill p) \<le> unat (ps_cap p)" by (simp add: word_le_nat_alt)
  then have le: "f32_round (of_nat (unat (ps_fill p))) \<le> f32_round (of_nat (unat (ps_cap p)))"
    by (intro f32_round_mono) (simp only: of_nat_le_iff)
  have "0 < unat (ps_cap p)" using False by (simp add: unat_gt_0)
  then have pos: "0 < f32_round (of_nat (unat (ps_cap p)))" by (intro f32_round_pos) (simp only: of_nat_0_less_iff)
  with le have "f32_round (of_nat (unat (ps_fill p))) / f32_round (of_nat (unat (ps_cap p))) \<le> 1" by simp
  with f32_round_mono [of _ 1] f32_round_exact [of 1] have
    "f32_round (f32_round (of_nat (unat (ps_fill p))) / f32_round (of_nat (unat (ps_cap p)))) \<le> 1" by fastforce
  with False pos show ?thesis by (simp add: capacity_used_def u32_as_f32_def f32_div_def f32_round_nonneg)
qed (simp add: capacity_used_def)

subsection \<open>Witnesses\<close>

lemma ids0_inj: "inj (fst \<circ> ids0)"
  by (rule injI) (auto simp: ids0_def dest: arg_cong [of _ _ length])

lemma scale_events_track_fleet_witness:
  "let (ss, fl) = fold (fleet_step_rec mock cfg0 ids0) [Tick 1, Tick 2] ([], empty_fleet new_mock) in
    card (dom (pr_pods (fl_registry fl))) + count_list ss (ScaleEvent ''down'') = count_list ss (ScaleEvent ''up'')"
  using scale_events_track_fleet [OF ids0_inj, of "[Tick 1, Tick 2]" cfg0] by (auto simp: Let_def self_registered_def split: prod.splits)

lemma cold_start_on_every_return_witness:
  "fst (ready_rec 9 ''p'' (drain ''p'' (register 2 ''p'' ''a'' 1 None new_registry))) = [ColdStart ''p'' 7]"
  using cold_start_on_every_return [of "drain ''p'' (register 2 ''p'' ''a'' 1 None new_registry)" "''p''"
      "drain_row (new_pod 2 ''p'' ''a'' 1 None)" 9]
  by (simp add: drain_def register_def update_row_def Let_def drain_row_def new_pod_def duration_since_def)

lemma capacity_used_unit_interval_witness: "\<exists>x. capacity_used (new_pod 1 ''p'' ''a'' 3 None) = Finite x \<and> 0 \<le> x \<and> x \<le> 1"
proof (rule capacity_used_unit_interval)
  show "reg_ok (register 1 ''p'' ''a'' 3 None new_registry)" by (simp add: reg_ok_ops reg_ok_new)
  show "pr_pods (register 1 ''p'' ''a'' 3 None new_registry) ''p'' = Some (new_pod 1 ''p'' ''a'' 3 None)"
    by (simp add: register_def Let_def)
qed

end
