(* ===== verification/MemMetrics.thy ===== *)
theory MemMetrics
  imports MemApi
begin

text \<open>
  \<open>crates/memoryd/src/metrics.rs\<close> and the places that record: the authorizer, the append handler and
  the compaction. The series are one more component of the state a procedure works on; forgetting
  them gives back the procedure without metrics. The latency histogram is the list of its
  observations (nanoseconds), the text encoder is a parameter.
\<close>

subsection \<open>Series\<close>

record mem_metrics =
  mm_append_latency :: "int list"
  mm_compactions :: u64
  mm_blob_tokens :: int
  mm_epoch_boundary :: u64
  mm_authz_denials :: u64

definition record_append_latency_ms :: "int \<Rightarrow> mem_metrics \<Rightarrow> mem_metrics" where
  "record_append_latency_ms d m = m\<lparr>mm_append_latency := mm_append_latency m @ [d]\<rparr>"

definition record_compaction :: "nat \<Rightarrow> mem_metrics \<Rightarrow> mem_metrics" where
  "record_compaction tokens m =
     m\<lparr>mm_compactions := mm_compactions m + 1, mm_blob_tokens := int tokens, mm_epoch_boundary := mm_epoch_boundary m + 1\<rparr>"

definition record_authz_denial :: "mem_metrics \<Rightarrow> mem_metrics" where
  "record_authz_denial m = m\<lparr>mm_authz_denials := mm_authz_denials m + 1\<rparr>"

definition mem_metrics_route :: "(mem_metrics \<Rightarrow> string + string) \<Rightarrow> mem_metrics \<Rightarrow> nat \<times> string \<times> string" where
  "mem_metrics_route encode m =
     (case encode m of
        Inr body \<Rightarrow> (200, ''text/plain; version=0.0.4; charset=utf-8'', body)
      | Inl e \<Rightarrow> (500, ''text/plain'', ''metrics encode error: '' @ e))"

subsection \<open>The procedures that record\<close>

definition observe :: "('m \<Rightarrow> 'm) \<Rightarrow> ('m \<times> 'w, 'e, unit) proc" where
  "observe f = (\<lambda>(m, w). Some ((f m, w), Inr ()))"

definition api_allow_rec ::
    "('s, 'r) api_state \<Rightarrow> clock \<Rightarrow> (string \<rightharpoonup> bytes) \<Rightarrow> string \<Rightarrow> mem_verb \<Rightarrow>
     (mem_metrics \<times> ('s, 'r) service, memoryd_error, principal) proc" where
  "api_allow_rec st clk headers sid v =
     pmatch (on_snd (api_allow st clk headers sid v)) (\<lambda>res.
     pbind (if is_ok res then pret () else observe record_authz_denial) (\<lambda>_. pof res))"

definition append_event_rec ::
    "int \<Rightarrow> ('s, 'r) api_state \<Rightarrow> clock \<Rightarrow> string \<Rightarrow> (string \<rightharpoonup> bytes) \<Rightarrow> json \<Rightarrow>
     (mem_metrics \<times> ('s, 'r) service, memoryd_error, response) proc" where
  "append_event_rec elapsed st clk sid headers body =
     pbind (api_allow_rec st clk headers sid VAppend) (\<lambda>p.
     pbind (on_snd (stamp_owner st clk sid p)) (\<lambda>_.
     pmatch (on_snd (handle_append (as_libs st) (as_store st) (as_redis st) clk sid body)) (\<lambda>res.
     pbind (observe (record_append_latency_ms elapsed)) (\<lambda>_.
     pbind (pof res) (\<lambda>r. pof (append_reply r))))))"

definition maybe_compact_rec ::
    "libs \<Rightarrow> 's store_ops \<Rightarrow> 'r redis \<Rightarrow> (json \<Rightarrow> event option) \<Rightarrow> (string option \<Rightarrow> json list \<Rightarrow> memoryd_error + string) \<Rightarrow>
     compact_config \<Rightarrow> clock \<Rightarrow> string \<Rightarrow> (mem_metrics \<times> ('s, 'r) service, memoryd_error, compacted) proc" where
  "maybe_compact_rec L St R event_of roll cfg clk sid =
     pbind (on_snd (maybe_compact L St R event_of roll cfg clk sid)) (\<lambda>res.
     case res of
       NotNeeded \<Rightarrow> pret NotNeeded
     | Done epoch tokens \<Rightarrow> pbind (observe (record_compaction tokens)) (\<lambda>_. pret (Done epoch tokens)))"

subsection \<open>Forgetting the series\<close>

definition forgets :: "('m \<times> 'w, 'e, 'a) proc \<Rightarrow> ('w, 'e, 'a) proc \<Rightarrow> bool" where
  "forgets p q \<longleftrightarrow> (\<forall>m w. map_option (apfst snd) (p (m, w)) = q w)"

named_theorems forgetting

lemma forgets_on_snd [forgetting]: "forgets (on_snd p) p"
  by (simp add: forgets_def on_snd_def option.map_comp comp_def case_prod_unfold option.map_ident)

lemma forgets_basic [forgetting]: "forgets (pret a) (pret a)" "forgets (pof x) (pof x)" "forgets (observe f) (pret ())"
  by (simp_all add: forgets_def pret_def pof_def observe_def)

lemma forgets_pmatch [forgetting]:
  assumes "forgets p q" and "\<And>x. forgets (f x) (g x)"
  shows "forgets (pmatch p f) (pmatch q g)"
  unfolding forgets_def
proof (intro allI)
  fix m w
  have q: "q w = map_option (apfst snd) (p (m, w))" and g: "map_option (apfst snd) (f x (m', w')) = g x w'" for x m' w'
    using assms by (simp_all add: forgets_def)
  show "map_option (apfst snd) (pmatch p f (m, w)) = pmatch q g w"
    by (cases "p (m, w)") (auto simp: pmatch_def q g)
qed

lemma pbind_pmatch: "pbind p f = pmatch p (\<lambda>x. case x of Inl e \<Rightarrow> perr e | Inr a \<Rightarrow> f a)"
  by (auto simp: pbind_def pmatch_def perr_def fun_eq_iff split: option.splits prod.splits sum.splits)

lemma forgets_pbind [forgetting]:
  assumes "forgets p q" and "\<And>a. forgets (f a) (g a)"
  shows "forgets (pbind p f) (pbind q g)"
  unfolding pbind_pmatch
proof (rule forgets_pmatch [OF assms(1)])
  show "forgets (case x of Inl e \<Rightarrow> perr e | Inr a \<Rightarrow> f a) (case x of Inl e \<Rightarrow> perr e | Inr a \<Rightarrow> g a)" for x
    using assms(2) by (cases x) (simp_all add: forgets_def perr_def)
qed

text \<open>An observation that a procedure without metrics does not make.\<close>

lemma pbind_unit: "pbind (pret ()) (\<lambda>_. p) = p"
  by (simp add: pbind_def pret_def)

lemma pmatch_pof: "pmatch p pof = p"
  by (auto simp: pmatch_def pof_def fun_eq_iff split: option.splits)

lemma pbind_as_match: "pbind m f = pmatch m (\<lambda>res. pbind (pof res) f)"
  by (auto simp: pbind_def pmatch_def pof_def fun_eq_iff split: option.splits)

lemma pbind_pret: "pbind m pret = m"
  by (auto simp: pbind_def pret_def fun_eq_iff split: option.splits sum.splits)

lemma forgets_observe:
  assumes "forgets p q" and "o' = pret () \<or> o' = observe h"
  shows "forgets (pbind o' (\<lambda>_. p)) q"
  using assms forgets_pbind [of o' "pret ()" "\<lambda>_. p" "\<lambda>_. q"] forgets_basic by (auto simp: pbind_unit)

lemma api_allow_forgets: "forgets (api_allow_rec st clk headers sid v) (api_allow st clk headers sid v)"
proof -
  have "forgets (api_allow_rec st clk headers sid v) (pmatch (api_allow st clk headers sid v) pof)"
    unfolding api_allow_rec_def by (intro forgets_pmatch forgetting forgets_observe [where h = record_authz_denial]) auto
  then show ?thesis by (simp add: pmatch_pof)
qed

lemma append_event_forgets: "forgets (append_event_rec elapsed st clk sid headers body) (append_event st clk sid headers body)"
proof -
  note third = pbind_as_match [of "handle_append (as_libs st) (as_store st) (as_redis st) clk sid body"]
  show ?thesis unfolding append_event_rec_def append_event_def third
    by (intro forgets_pbind forgets_pmatch forgetting api_allow_forgets forgets_observe [where h = "record_append_latency_ms elapsed"]) simp
qed

lemma maybe_compact_forgets:
  "forgets (maybe_compact_rec L St R event_of roll cfg clk sid) (maybe_compact L St R event_of roll cfg clk sid)"
proof -
  have "forgets (maybe_compact_rec L St R event_of roll cfg clk sid) (pbind (maybe_compact L St R event_of roll cfg clk sid) pret)"
    unfolding maybe_compact_rec_def
  proof (rule forgets_pbind [OF forgets_on_snd])
    show "forgets (case res of NotNeeded \<Rightarrow> pret NotNeeded | Done e n \<Rightarrow> pbind (observe (record_compaction n)) (\<lambda>_. pret (Done e n))) (pret res)" for res
      by (cases res) (auto intro: forgetting forgets_observe)
  qed
  then show ?thesis by (simp add: pbind_pret)
qed

subsection \<open>What is counted\<close>

lemma forgetsD: "forgets p q \<Longrightarrow> p (m, w) = Some ((m', w'), res) \<Longrightarrow> q w = Some (w', res)"
  unfolding forgets_def by (metis apfst_conv option.simps(9) snd_conv)

lemma on_snd_Some: "on_snd p (m, w) = Some ((m', w'), res) \<longleftrightarrow> m' = m \<and> p w = Some (w', res)"
  by (auto simp: on_snd_def)

lemma pmatch_Some: "pmatch p f s = Some y \<longleftrightarrow> (\<exists>s' x. p s = Some (s', x) \<and> f x s' = Some y)"
  by (auto simp: pmatch_def split: option.splits)

lemma api_allow_rec_metrics:
  "api_allow_rec st clk headers sid v (m, w) = Some ((m', w'), res) \<longleftrightarrow>
     api_allow st clk headers sid v w = Some (w', res) \<and> m' = (if is_ok res then m else record_authz_denial m)"
proof -
  have "api_allow_rec st clk headers sid v (m, w) =
      map_option (\<lambda>(w', res). ((if is_ok res then m else record_authz_denial m, w'), res)) (api_allow st clk headers sid v w)"
    by (cases "api_allow st clk headers sid v w") (auto simp: api_allow_rec_def pmatch_def on_snd_def pbind_def pret_def pof_def observe_def)
  then show ?thesis by (cases w') auto
qed

text \<open>
  The metrics of an append: the handler answers as it does without them; a request that is denied is
  counted as a denial and nothing else, every append that reaches the writer leaves one latency,
  whatever the writer answers, and an append that fails before leaves nothing.
\<close>

theorem append_metrics_exact:
  assumes "append_event_rec elapsed st clk sid headers body (m, w) = Some ((m', w'), res)"
  shows "append_event st clk sid headers body w = Some (w', res) \<and>
    (case api_allow st clk headers sid VAppend w of
       Some (w1, Inl e) \<Rightarrow> res = Inl e \<and> m' = record_authz_denial m
     | Some (w1, Inr p) \<Rightarrow>
         (case stamp_owner st clk sid p w1 of
            Some (w2, Inl e) \<Rightarrow> res = Inl e \<and> m' = m
          | _ \<Rightarrow> m' = record_append_latency_ms elapsed m)
     | None \<Rightarrow> False)"
proof
  show "append_event st clk sid headers body w = Some (w', res)" by (rule forgetsD [OF append_event_forgets assms])
  from assms obtain w1 a where a: "api_allow st clk headers sid VAppend w = Some (w1, a)"
    by (auto simp: append_event_rec_def pbind_pmatch pmatch_Some api_allow_rec_metrics)
  show "case api_allow st clk headers sid VAppend w of
       Some (w1, Inl e) \<Rightarrow> res = Inl e \<and> m' = record_authz_denial m
     | Some (w1, Inr p) \<Rightarrow>
         (case stamp_owner st clk sid p w1 of
            Some (w2, Inl e) \<Rightarrow> res = Inl e \<and> m' = m
          | _ \<Rightarrow> m' = record_append_latency_ms elapsed m)
     | None \<Rightarrow> False"
  proof (cases a)
    case (Inl e)
    with a assms show ?thesis
      by (auto simp: append_event_rec_def pbind_pmatch pmatch_Some api_allow_rec_metrics perr_def)
  next
    case (Inr p)
    from assms a Inr obtain w2 y where y: "stamp_owner st clk sid p w1 = Some (w2, y)"
      by (auto simp: append_event_rec_def pbind_pmatch pmatch_Some api_allow_rec_metrics on_snd_Some)
    with a Inr assms show ?thesis
      by (cases y) (auto simp: append_event_rec_def pbind_pmatch pmatch_Some api_allow_rec_metrics on_snd_Some perr_def pof_def observe_def
          split: sum.splits, metis sum.exhaust)
  qed
qed

text \<open>
  The metrics of a compaction: it is counted, with the size of the blob and as an epoch boundary,
  exactly when the compaction reports that it is done. One that fails after the epoch has been
  advanced is not counted.
\<close>

theorem compaction_metrics_exact:
  assumes "maybe_compact_rec L St R event_of roll cfg clk sid (m, w) = Some ((m', w'), res)"
  shows "maybe_compact L St R event_of roll cfg clk sid w = Some (w', res) \<and>
    m' = (case res of Inr (Done epoch tokens) \<Rightarrow> record_compaction tokens m | _ \<Rightarrow> m)"
proof
  show "maybe_compact L St R event_of roll cfg clk sid w = Some (w', res)" by (rule forgetsD [OF maybe_compact_forgets assms])
  from assms obtain w1 x where x: "maybe_compact L St R event_of roll cfg clk sid w = Some (w1, x)"
    by (auto simp: maybe_compact_rec_def pbind_pmatch pmatch_Some on_snd_Some)
  then have x': "on_snd (maybe_compact L St R event_of roll cfg clk sid) (m, w) = Some ((m, w1), x)" by (simp add: on_snd_def)
  show "m' = (case res of Inr (Done epoch tokens) \<Rightarrow> record_compaction tokens m | _ \<Rightarrow> m)"
  proof (cases x)
    case (Inl e)
    with assms x' show ?thesis by (auto simp: maybe_compact_rec_def pbind_def)
  next
    case (Inr c)
    with assms x' show ?thesis by (cases c) (auto simp: maybe_compact_rec_def pbind_def pret_def observe_def)
  qed
qed

text \<open>
  An outage of Redis is counted as a denial: when the token cannot be checked the append is answered
  as retryable, and the counter of denials goes up all the same.
\<close>

theorem outage_counted_as_denial:
  assumes "as_authz st = mem_allow C R pepper" and "bearer headers = Some token" and "token \<noteq> []"
    and "verify C R pepper (fst clk) token r = (r', Inl Upstream)"
  shows "append_event_rec elapsed st clk sid headers body (m, reg, s, r) = Some ((record_authz_denial m, reg, s, r'), Inl (AuthzE AuthzUpstream))"
proof -
  have "api_allow st clk headers sid VAppend (reg, s, r) = Some ((reg, s, r'), Inl (AuthzE AuthzUpstream))"
    using assms by (simp add: api_allow_def mem_allow_def pmap_err_def pmatch_def pbind_def perr_def on_snd_def authz_of_token_def)
  then have "api_allow_rec st clk headers sid VAppend (m, reg, s, r) = Some ((record_authz_denial m, reg, s, r'), Inl (AuthzE AuthzUpstream))"
    by (simp add: api_allow_rec_metrics)
  then show ?thesis by (simp add: append_event_rec_def pbind_def)
qed

end
