(* ===== verification/Routes.thy ===== *)
theory Routes
  imports Mcp
begin

text \<open>
  The route tables: \<open>public_routes\<close>, \<open>admin_routes\<close>, \<open>internal_routes\<close>, \<open>client_routes\<close> and \<open>app\<close> of the
  orchestrator (\<open>api_public.rs\<close>, \<open>api_admin.rs\<close>, \<open>api_internal.rs\<close>, \<open>signal_route.rs\<close>, \<open>main.rs\<close>), \<open>router\<close>
  of the memory service (\<open>api.rs\<close>), and the address the MCP server sends to (\<open>mcpd/src/main.rs\<close>). Axum's
  dispatch is modelled as it documents it: a segment in braces matches one segment that is not empty,
  any other segment matches itself; no route is 404, a route without the method is 405.
\<close>

subsection \<open>Tables\<close>

datatype orch_handler =
    CreateSession | ListSessions | ConnectSession | Transcript | DeleteSession
  | Pods | DrainPod | Scale | MintToken
  | RegisterPod | PodHealth | AssignWs
  | IndexHtml | SessionJs | WsSignal | Healthz | Readyz | Metrics

datatype mem_handler =
    MAppendEvent | MLoadSession | MGetMemory | MGetTranscript | MCompactSession | MDeleteSession | MHealthz | MReadyz | MMetrics

type_synonym 'h routes = "(string \<times> (http_method \<times> 'h) list) list"

definition public_routes :: "orch_handler routes" where
  "public_routes =
     [(''/v1/sessions'', [(POST, CreateSession), (GET, ListSessions)]),
      (''/v1/sessions/{id}/resume'', [(POST, ConnectSession)]),
      (''/v1/sessions/{id}/connect'', [(POST, ConnectSession)]),
      (''/v1/sessions/{id}/transcript'', [(GET, Transcript)]),
      (''/v1/sessions/{id}'', [(DELETE, DeleteSession)])]"

definition admin_routes :: "orch_handler routes" where
  "admin_routes =
     [(''/admin/pods'', [(GET, Pods)]),
      (''/admin/pods/{id}/drain'', [(POST, DrainPod)]),
      (''/admin/scale'', [(GET, Scale)]),
      (''/admin/tokens'', [(POST, MintToken)])]"

definition internal_routes :: "orch_handler routes" where
  "internal_routes =
     [(''/internal/pods/register'', [(POST, RegisterPod)]),
      (''/internal/pods/{id}/health'', [(POST, PodHealth)]),
      (''/internal/pods/{id}/assign'', [(GET, AssignWs)])]"

definition client_routes :: "orch_handler routes" where
  "client_routes = [(''/'', [(GET, IndexHtml)]), (''/session.js'', [(GET, SessionJs)])]"

definition public_app :: "orch_handler routes" where
  "public_app = public_routes @ admin_routes @ internal_routes @ client_routes @
     [(''/v1/signal/{connection_id}'', [(GET, WsSignal)]), (''/healthz'', [(GET, Healthz)]), (''/readyz'', [(GET, Readyz)]),
      (''/metrics'', [(GET, Metrics)])]"

definition admin_app :: "orch_handler routes" where
  "admin_app = admin_routes @ [(''/metrics'', [(GET, Metrics)])]"

definition memoryd_router :: "mem_handler routes" where
  "memoryd_router =
     [(''/v1/sessions/{sid}/events'', [(POST, MAppendEvent)]),
      (''/v1/sessions/{sid}/load'', [(POST, MLoadSession)]),
      (''/v1/sessions/{sid}/memory'', [(GET, MGetMemory)]),
      (''/v1/sessions/{sid}/transcript'', [(GET, MGetTranscript)]),
      (''/v1/sessions/{sid}/compact'', [(POST, MCompactSession)]),
      (''/v1/sessions/{sid}'', [(DELETE, MDeleteSession)]),
      (''/healthz'', [(GET, MHealthz)]), (''/readyz'', [(GET, MReadyz)]), (''/metrics'', [(GET, MMetrics)])]"

subsection \<open>Dispatch\<close>

fun segments :: "string \<Rightarrow> string list" where
  "segments [] = [[]]"
| "segments (c # s) = (if c = CHR ''/'' then [] # segments s else (case segments s of [] \<Rightarrow> [[c]] | x # xs \<Rightarrow> (c # x) # xs))"

definition is_param :: "string \<Rightarrow> bool" where
  "is_param t = (t \<noteq> [] \<and> hd t = CHR ''{'')"

definition seg_match :: "string \<Rightarrow> string \<Rightarrow> bool" where
  "seg_match t s = (if is_param t then s \<noteq> [] else s = t)"

definition path_match :: "string \<Rightarrow> string \<Rightarrow> bool" where
  "path_match t path = list_all2 seg_match (segments t) (segments path)"

definition dispatch :: "'h routes \<Rightarrow> http_method \<Rightarrow> string \<Rightarrow> nat + 'h" where
  "dispatch tbl m path =
     (case find (\<lambda>r. path_match (fst r) path) tbl of
        None \<Rightarrow> Inl 404
      | Some (_, ms) \<Rightarrow> (case map_of ms m of None \<Rightarrow> Inl 405 | Some h \<Rightarrow> Inr h))"

subsection \<open>The MCP server's base\<close>

text \<open>\<open>str::replace\<close>, from left to right and without overlap.\<close>

function replace_all :: "string \<Rightarrow> string \<Rightarrow> string \<Rightarrow> string" where
  "replace_all pat rep s =
     (if pat = [] \<or> s = [] then s
      else if starts_with s pat then rep @ replace_all pat rep (drop (length pat) s)
      else hd s # replace_all pat rep (tl s))"
  by auto
termination
  by (relation "measure (\<lambda>(pat, rep, s). length s)") (simp_all add: diff_less)

declare replace_all.simps [simp del]

definition mcpd_base :: "(string \<Rightarrow> string option) \<Rightarrow> string" where
  "mcpd_base env = ''http://'' @ replace_all ''0.0.0.0'' ''127.0.0.1'' (unwrap_or (env ''VIHS_ORCH_ADDR'') ''127.0.0.1:8080'')"

subsection \<open>Paths\<close>

text \<open>An id that a URL carries as it is, one segment long.\<close>

definition plain_id :: "string \<Rightarrow> bool" where
  "plain_id i \<longleftrightarrow> i \<noteq> [] \<and> (\<forall>c \<in> set i. c \<in> set ''abcdefghijklmnopqrstuvwxyzABCDEFGHIJKLMNOPQRSTUVWXYZ0123456789-_'')"

lemma plain_no_slash: "CHR ''/'' \<notin> set ''abcdefghijklmnopqrstuvwxyzABCDEFGHIJKLMNOPQRSTUVWXYZ0123456789-_''"
  by code_simp

lemma plain_id_clean: "plain_id i \<Longrightarrow> i \<noteq> [] \<and> CHR ''/'' \<notin> set i"
  unfolding plain_id_def using plain_no_slash by blast

lemma segments_ne: "segments s \<noteq> []"
  by (induction s) (auto split: list.splits)

lemma segments_single: "CHR ''/'' \<notin> set s \<Longrightarrow> segments s = [s]"
  by (induction s) auto

lemma segments_append: "CHR ''/'' \<notin> set i \<Longrightarrow> segments (i @ CHR ''/'' # s) = i # segments s"
  by (induction i) auto

text \<open>Templates that differ in length or in a fixed segment are never matched by one path.\<close>

definition apart :: "string \<Rightarrow> string \<Rightarrow> bool" where
  "apart t u \<longleftrightarrow> length (segments t) \<noteq> length (segments u) \<or>
     list_ex (\<lambda>(a, b). \<not> is_param a \<and> \<not> is_param b \<and> a \<noteq> b \<or> a = [] \<and> is_param b \<or> is_param a \<and> b = []) (zip (segments t) (segments u))"

lemma apart_match:
  assumes "apart t u" and "path_match t path"
  shows "\<not> path_match u path"
proof
  assume u: "path_match u path"
  have len: "length (segments t) = length (segments path)" "length (segments u) = length (segments path)"
    using assms(2) u by (simp_all add: path_match_def list_all2_lengthD)
  with assms(1) obtain k where k: "k < length (segments path)"
    "\<not> is_param (segments t ! k) \<and> \<not> is_param (segments u ! k) \<and> segments t ! k \<noteq> segments u ! k \<or>
     segments t ! k = [] \<and> is_param (segments u ! k) \<or> is_param (segments t ! k) \<and> segments u ! k = []"
    by (auto simp: apart_def list_ex_iff in_set_zip)
  have "seg_match (segments t ! k) (segments path ! k)" "seg_match (segments u ! k) (segments path ! k)"
    using assms(2) u k(1) len by (auto simp: path_match_def list_all2_conv_all_nth)
  with k(2) show False by (auto simp: seg_match_def is_param_def split: if_splits)
qed

text \<open>A table whose templates are pairwise apart: the order of its entries does not matter.\<close>

definition unambiguous :: "'h routes \<Rightarrow> bool" where
  "unambiguous tbl \<longleftrightarrow> sorted_wrt (\<lambda>r q. apart (fst r) (fst q)) tbl"

lemma unambiguous_match:
  assumes "unambiguous tbl"
  shows "length (filter (\<lambda>r. path_match (fst r) path) tbl) \<le> 1"
  using assms
proof (induction tbl)
  case (Cons r tbl)
  have "filter (\<lambda>q. path_match (fst q) path) tbl = []" if "path_match (fst r) path"
    using Cons.prems that apart_match by (fastforce simp: unambiguous_def filter_empty_conv)
  with Cons show ?case by (auto simp: unambiguous_def)
qed simp

lemma public_app_unambiguous: "unambiguous public_app"
  by code_simp

lemma memoryd_router_unambiguous: "unambiguous memoryd_router"
  by code_simp

lemma dispatch_entry:
  assumes "unambiguous tbl" and "(t, ms) \<in> set tbl" and "path_match t path"
  shows "dispatch tbl m path = (case map_of ms m of None \<Rightarrow> Inl 405 | Some h \<Rightarrow> Inr h)"
proof -
  have "filter (\<lambda>r. path_match (fst r) path) tbl = [(t, ms)]"
  proof -
    have "(t, ms) \<in> set (filter (\<lambda>r. path_match (fst r) path) tbl)" using assms(2,3) by simp
    with unambiguous_match [OF assms(1), of path] show ?thesis
      by (cases "filter (\<lambda>r. path_match (fst r) path) tbl") (auto simp: le_Suc_eq)
  qed
  then have "find (\<lambda>r. path_match (fst r) path) tbl = Some (t, ms)"
    by (induction tbl) (auto split: if_splits)
  then show ?thesis by (simp add: dispatch_def)
qed

text \<open>The paths the clients of the two services build.\<close>

lemma session_path_match:
  assumes "plain_id i"
  shows "path_match ''/v1/sessions/{id}/resume'' (''/v1/sessions/'' @ i @ ''/resume'')"
    "path_match ''/v1/sessions/{id}/transcript'' (''/v1/sessions/'' @ i @ ''/transcript'')"
    "path_match ''/v1/sessions/{id}'' (''/v1/sessions/'' @ i)"
    "path_match ''/admin/pods/{id}/drain'' (''/admin/pods/'' @ i @ ''/drain'')"
    "path_match ''/internal/pods/{id}/assign'' (''/internal/pods/'' @ i @ ''/assign'')"
    "path_match ''/v1/signal/{connection_id}'' (''/v1/signal/'' @ i)"
    "path_match ''/v1/sessions/{sid}/events'' (''/v1/sessions/'' @ i @ ''/events'')"
    "path_match ''/v1/sessions/{sid}/load'' (''/v1/sessions/'' @ i @ ''/load'')"
    "path_match ''/v1/sessions/{sid}/transcript'' (''/v1/sessions/'' @ i @ ''/transcript'')"
    "path_match ''/v1/sessions/{sid}'' (''/v1/sessions/'' @ i)"
  using plain_id_clean [OF assms]
  by (simp_all add: path_match_def segments_append segments_single seg_match_def is_param_def)

lemmas public_dispatch = dispatch_entry [OF public_app_unambiguous]
lemmas memoryd_dispatch = dispatch_entry [OF memoryd_router_unambiguous]

lemma public_entries:
  assumes "plain_id i"
  shows "dispatch public_app POST (''/v1/sessions/'' @ i @ ''/resume'') = Inr ConnectSession"
    "dispatch public_app GET (''/v1/sessions/'' @ i @ ''/transcript'') = Inr Transcript"
    "dispatch public_app DELETE (''/v1/sessions/'' @ i) = Inr DeleteSession"
    "dispatch public_app POST (''/admin/pods/'' @ i @ ''/drain'') = Inr DrainPod"
    "dispatch public_app GET (''/internal/pods/'' @ i @ ''/assign'') = Inr AssignWs"
    "dispatch public_app GET (''/v1/signal/'' @ i) = Inr WsSignal"
  by (subst public_dispatch [OF _ session_path_match(1) [OF assms], of "[(POST, ConnectSession)]"]
      public_dispatch [OF _ session_path_match(2) [OF assms], of "[(GET, Transcript)]"]
      public_dispatch [OF _ session_path_match(3) [OF assms], of "[(DELETE, DeleteSession)]"]
      public_dispatch [OF _ session_path_match(4) [OF assms], of "[(POST, DrainPod)]"]
      public_dispatch [OF _ session_path_match(5) [OF assms], of "[(GET, AssignWs)]"]
      public_dispatch [OF _ session_path_match(6) [OF assms], of "[(GET, WsSignal)]"];
      simp add: public_app_def public_routes_def admin_routes_def internal_routes_def)+

lemma fixed_entries:
  "dispatch public_app POST ''/v1/sessions'' = Inr CreateSession" "dispatch public_app GET ''/v1/sessions'' = Inr ListSessions"
  "dispatch public_app GET ''/admin/pods'' = Inr Pods" "dispatch public_app GET ''/admin/scale'' = Inr Scale"
  "dispatch public_app POST ''/admin/tokens'' = Inr MintToken"
  by code_simp+

lemma memoryd_entries:
  assumes "plain_id i"
  shows "dispatch memoryd_router POST (''/v1/sessions/'' @ i @ ''/events'') = Inr MAppendEvent"
    "dispatch memoryd_router POST (''/v1/sessions/'' @ i @ ''/load'') = Inr MLoadSession"
    "dispatch memoryd_router GET (''/v1/sessions/'' @ i @ ''/transcript'') = Inr MGetTranscript"
    "dispatch memoryd_router DELETE (''/v1/sessions/'' @ i) = Inr MDeleteSession"
  by (subst memoryd_dispatch [OF _ session_path_match(7) [OF assms], of "[(POST, MAppendEvent)]"]
      memoryd_dispatch [OF _ session_path_match(8) [OF assms], of "[(POST, MLoadSession)]"]
      memoryd_dispatch [OF _ session_path_match(9) [OF assms], of "[(GET, MGetTranscript)]"]
      memoryd_dispatch [OF _ session_path_match(10) [OF assms], of "[(DELETE, MDeleteSession)]"];
      simp add: memoryd_router_def)+

subsection \<open>Properties\<close>

text \<open>The handler each tool is the twin of.\<close>

definition tool_handler :: "string \<rightharpoonup> orch_handler" where
  "tool_handler = [''vihs_session_create'' \<mapsto> CreateSession, ''vihs_session_resume'' \<mapsto> ConnectSession, ''vihs_session_list'' \<mapsto> ListSessions,
     ''vihs_session_transcript'' \<mapsto> Transcript, ''vihs_session_delete'' \<mapsto> DeleteSession, ''vihs_pods_list'' \<mapsto> Pods,
     ''vihs_pod_drain'' \<mapsto> DrainPod, ''vihs_scale_status'' \<mapsto> Scale, ''vihs_token_mint'' \<mapsto> MintToken]"

text \<open>
  C29. Every tool call reaches its handler: when a tool call with ids of letters, digits, hyphens and
  underscores makes a request, the orchestrator's table sends it to the handler that is the tool's
  twin, at the base address the MCP server is given; no other route of the merged table matches it.
\<close>

theorem tool_calls_reach_handlers:
  assumes "call_request base token name args = Inr rq"
    and "\<forall>a \<in> {''session_id'', ''pod_id''}. \<forall>i. jget args a = Some (JStr i) \<longrightarrow> plain_id i"
  shows "\<exists>path h. rq_url rq = base @ path \<and> dispatch public_app (rq_method rq) path = Inr h \<and> tool_handler name = Some h \<and>
    length (filter (\<lambda>r. path_match (fst r) path) public_app) \<le> 1"
proof -
  from assms(1) obtain m path body where t: "twin name args = Inr (m, path, body)" and rq: "rq = http_of base token (m, path, body)"
    by (cases "twin name args") (auto simp: call_request_twin)
  have "\<exists>h. dispatch public_app m path = Inr h \<and> tool_handler name = Some h"
    using t assms(2) unfolding twin_def
    by (auto simp: tool_handler_def need_def text_arg_def public_entries [unfolded append.simps] fixed_entries split: if_splits option.splits json.splits)
  with rq unambiguous_match [OF public_app_unambiguous] show ?thesis by (auto simp: http_of_def)
qed

text \<open>A network that only carries the requests of which a condition holds; the others fail.\<close>

definition only :: "(http_request \<Rightarrow> bool) \<Rightarrow> 'h http \<Rightarrow> 'h http" where
  "only ok net rq h = (if ok rq then net rq h else (h, None))"

definition reaches :: "string \<Rightarrow> mem_handler \<Rightarrow> http_request \<Rightarrow> bool" where
  "reaches base target rq \<longleftrightarrow> (\<exists>path. rq_url rq = base @ path \<and> dispatch memoryd_router (rq_method rq) path = Inr target)"

text \<open>
  The control plane's client speaks the memory service's routes: with a plain session id, each of its
  calls does exactly what it does on a network that carries nothing but requests for the handler the
  call is meant for.
\<close>

theorem memory_client_reaches_handlers:
  assumes "plain_id sid"
  shows "client_load L net base sid token h = client_load L (only (reaches base MLoadSession) net) base sid token h \<and>
    client_append_event L net base sid token body h = client_append_event L (only (reaches base MAppendEvent) net) base sid token body h \<and>
    client_create_session L net base sid owner now token h =
      client_create_session L (only (reaches base MAppendEvent) net) base sid owner now token h \<and>
    client_transcript net base sid token h = client_transcript (only (reaches base MGetTranscript) net) base sid token h \<and>
    client_delete_session net base sid token h = client_delete_session (only (reaches base MDeleteSession) net) base sid token h"
proof -
  have "reaches base MLoadSession \<lparr>rq_method = POST, rq_url = session_url base sid ''/load'', rq_bearer = token, rq_body = b\<rparr>"
    "reaches base MAppendEvent \<lparr>rq_method = POST, rq_url = session_url base sid ''/events'', rq_bearer = token, rq_body = b\<rparr>"
    "reaches base MGetTranscript \<lparr>rq_method = GET, rq_url = session_url base sid ''/transcript'', rq_bearer = token, rq_body = b\<rparr>"
    "reaches base MDeleteSession \<lparr>rq_method = DELETE, rq_url = session_url base sid [], rq_bearer = token, rq_body = b\<rparr>" for b
    using memoryd_entries [OF assms] unfolding reaches_def session_url_def by force+
  then show ?thesis
    by (simp add: client_load_def client_append_event_def client_create_session_def client_transcript_def client_delete_session_def json_call_def only_def)
qed

text \<open>The public listener serves every route of the admin listener.\<close>

theorem admin_routes_public:
  assumes "dispatch admin_app m path = Inr h"
  shows "dispatch public_app m path = Inr h"
proof -
  from assms obtain t ms where f: "find (\<lambda>r. path_match (fst r) path) admin_app = Some (t, ms)" and h: "map_of ms m = Some h"
    by (auto simp: dispatch_def split: option.splits)
  then have "(t, ms) \<in> set admin_app" "path_match t path"
    by (auto simp: find_Some_iff) (metis fst_conv)
  moreover have "set admin_app \<subseteq> set public_app" by (auto simp: admin_app_def public_app_def)
  ultimately show ?thesis using h by (subst public_dispatch [of t ms]) auto
qed

subsection \<open>Witnesses\<close>

lemma plain0: "plain_id ''s1''"
  by code_simp

definition args0 :: json where
  "args0 = jobject [(''session_id'', JStr ''s1'')]"

lemma args0_get: "jget args0 ''session_id'' = Some (JStr ''s1'')" "jget args0 ''pod_id'' = None"
  by code_simp+

lemma tool_calls_reach_handlers_witness:
  "\<exists>path. (''http://o'' @ ''/v1/sessions/s1/resume'') = ''http://o'' @ path \<and> dispatch public_app POST path = Inr ConnectSession"
proof -
  have t: "call_request ''http://o'' ''tok'' ''vihs_session_resume'' args0 = Inr \<lparr>rq_method = POST, rq_url = ''http://o'' @ ''/v1/sessions/s1/resume'', rq_bearer = ''tok'', rq_body = None\<rparr>"
    by (simp add: call_request_twin twin_def need_def text_arg_def args0_get http_of_def)
  have "\<forall>a \<in> {''session_id'', ''pod_id''}. \<forall>i. jget args0 a = Some (JStr i) \<longrightarrow> plain_id i"
    by (simp add: args0_get plain0)
  from tool_calls_reach_handlers [OF t this] show ?thesis by (auto simp: tool_handler_def)
qed

lemma memory_client_reaches_handlers_witness:
  "client_transcript echo0 ''http://m'' ''s1'' ''tok'' 0 = client_transcript (only (reaches ''http://m'' MGetTranscript) echo0) ''http://m'' ''s1'' ''tok'' 0"
  using memory_client_reaches_handlers [OF plain0, of ref_libs echo0 "''http://m''" "''tok''" 0 JNull "[]" "[]"] by blast

lemma admin_routes_public_witness: "dispatch public_app GET ''/admin/pods'' = Inr Pods"
  by (rule admin_routes_public) code_simp

end
