(* ===== verification/Wire.thy ===== *)
theory Wire
  imports Routes MemApi OrchApi
begin

text \<open>
  The control plane on top of the memory service: the transport the control plane's client works
  with is the memory service itself, behind its route table (\<open>router\<close> of \<open>crates/memoryd/src/api.rs\<close>).
  A request finds its handler by \<open>dispatch\<close>, the bearer token travels in the \<open>authorization\<close> header, and
  the handler's response, or the one of its error, comes back as status and bytes. The properties
  follow a request of a user through both services.
\<close>

subsection \<open>Responses as bytes\<close>

text \<open>
  What the two ends rely on: the printer, the text of an error, the body axum answers with when a
  value cannot be printed, the metrics page, and what a handler that does not return leaves behind.
\<close>

record 'w wire =
  wi_libs :: libs
  wi_display :: "memoryd_error \<Rightarrow> string"
  wi_unprintable :: bytes
  wi_metrics :: http_response
  wi_lost :: "'w \<Rightarrow> 'w"

definition reply_bytes :: "nat \<Rightarrow> bytes \<Rightarrow> http_response" where
  "reply_bytes st b = \<lparr>http_response.rs_status = st, http_response.rs_body = Some b\<rparr>"

definition reply_json :: "'w wire \<Rightarrow> nat \<Rightarrow> json \<Rightarrow> http_response" where
  "reply_json W st j = (case to_vec (wi_libs W) j of Some b \<Rightarrow> reply_bytes st b | None \<Rightarrow> reply_bytes 500 (wi_unprintable W))"

definition error_json :: "string \<Rightarrow> string \<Rightarrow> bool \<Rightarrow> json" where
  "error_json c message again =
     jobject [(''error'', jobject [(''code'', JStr c), (''message'', JStr message), (''retryable'', JBool again)])]"

definition http_reply :: "'w wire \<Rightarrow> response \<Rightarrow> http_response" where
  "http_reply W resp =
     (case response.rs_body resp of
        JsonBody j \<Rightarrow> reply_json W (response.rs_status resp) j
      | PlainBody t \<Rightarrow> reply_bytes (response.rs_status resp) t
      | MarkdownBody b \<Rightarrow> reply_bytes (response.rs_status resp) b
      | ErrorBody c e again \<Rightarrow> reply_json W (response.rs_status resp) (error_json c (wi_display W e) again)
      | NoBody \<Rightarrow> reply_bytes (response.rs_status resp) [])"

subsection \<open>Requests\<close>

text \<open>The bytes a header value may hold; blanks around a value do not arrive.\<close>

definition header_byte :: "char \<Rightarrow> bool" where
  "header_byte c = (32 \<le> (of_char c :: nat) \<and> of_char c \<noteq> (127 :: nat) \<or> of_char c = (9 :: nat))"

definition blank :: "char \<Rightarrow> bool" where
  "blank c = (of_char c = (32 :: nat) \<or> of_char c = (9 :: nat))"

definition bearer_header :: "string \<Rightarrow> (string \<rightharpoonup> bytes)" where
  "bearer_header token = [''authorization'' \<mapsto> rev (dropWhile blank (rev (''Bearer '' @ token)))]"

text \<open>The route of a handler that works on a session, the body decoded: an append without one is refused by axum.\<close>

fun session_route :: "mem_handler \<Rightarrow> json option \<Rightarrow> route option" where
  "session_route MAppendEvent body = map_option Events_post body"
| "session_route MLoadSession body = Some Load_post"
| "session_route MGetMemory body = Some Memory_get"
| "session_route MGetTranscript body = Some Transcript_get"
| "session_route MCompactSession body = Some Compact_post"
| "session_route MDeleteSession body = Some Session_delete"
| "session_route _ body = None"

definition answered :: "'w wire \<Rightarrow> 'w \<Rightarrow> ('w \<times> response) option \<Rightarrow> 'w \<times> http_response option" where
  "answered W w run = (case run of None \<Rightarrow> (wi_lost W w, None) | Some (w', resp) \<Rightarrow> (w', Some (http_reply W resp)))"

definition run_handler ::
    "('s, 'r) service wire \<Rightarrow> ('s, 'r) api_state \<Rightarrow> clock \<Rightarrow> mem_handler \<Rightarrow> string \<Rightarrow> http_request \<Rightarrow> ('s, 'r) service \<Rightarrow>
     ('s, 'r) service \<times> http_response option" where
  "run_handler W st clk h path rq w =
     (case session_route h (rq_body rq) of
        Some rt \<Rightarrow> answered W w (serve st clk (segments path ! 3) (bearer_header (rq_bearer rq)) rt w)
      | None \<Rightarrow>
          (case h of
             MHealthz \<Rightarrow> (w, Some (http_reply W healthz))
           | MReadyz \<Rightarrow> answered W w (map_option (\<lambda>(w', res). (w', case res of Inr resp \<Rightarrow> resp | Inl e \<Rightarrow> error_response e)) (readyz st clk w))
           | MMetrics \<Rightarrow> (w, Some (wi_metrics W))
           | _ \<Rightarrow> (w, Some (reply_bytes 415 (wi_unprintable W)))))"

text \<open>The service as the transport: a header that cannot be sent fails before the request.\<close>

definition memoryd_http ::
    "('s, 'r) service wire \<Rightarrow> ('s, 'r) api_state \<Rightarrow> clock \<Rightarrow> string \<Rightarrow> ('s, 'r) service http" where
  "memoryd_http W st clk base rq w =
     (if \<not> list_all header_byte (rq_bearer rq) then (w, None)
      else
        (case strip_prefix (rq_url rq) base of
           None \<Rightarrow> (w, None)
         | Some path \<Rightarrow>
             (case dispatch memoryd_router (rq_method rq) path of
                Inl n \<Rightarrow> (w, Some (reply_bytes n []))
              | Inr h \<Rightarrow> run_handler W st clk h path rq w)))"

subsection \<open>A session request over the wire\<close>

lemma session_segment:
  assumes "plain_id i"
  shows "segments (''/v1/sessions/'' @ i @ CHR ''/'' # t) ! 3 = i" "segments (''/v1/sessions/'' @ i) ! 3 = i"
  using plain_id_clean [OF assms] by (simp_all add: segments_append segments_single)

lemma error_response_status: "\<not> is_success (response.rs_status (error_response e))"
  by (auto simp: error_response_def error_class_def is_success_def split: memoryd_error.splits authz_err.splits)

lemma http_reply_success:
  assumes "is_success (http_response.rs_status (http_reply W resp))"
  shows "is_success (response.rs_status resp)"
  using assms by (auto simp: http_reply_def reply_json_def reply_bytes_def is_success_def split: resp_body.splits option.splits)

text \<open>A successful answer to a request for a session is the handler's own.\<close>

lemma answered_success:
  assumes "answered W w (serve st clk sid headers rt w) = (w', Some rs)" and "is_success (http_response.rs_status rs)"
  obtains resp where "route_handler st clk sid headers rt w = Some (w', Inr resp)" "rs = http_reply W resp"
proof -
  from assms(1) obtain resp where resp: "serve st clk sid headers rt w = Some (w', resp)" "rs = http_reply W resp"
    by (auto simp: answered_def split: option.splits)
  from resp(1) obtain res where res: "route_handler st clk sid headers rt w = Some (w', res)"
    "resp = (case res of Inr x \<Rightarrow> x | Inl e \<Rightarrow> error_response e)" by (auto simp: serve_def)
  from http_reply_success [OF assms(2) [unfolded resp(2)]] res(2) error_response_status have "res = Inr resp" by (cases res) auto
  with res(1) resp(2) show ?thesis by (intro that) simp_all
qed

lemma delete_wire:
  assumes "plain_id sid"
  shows "memoryd_http W st clk base \<lparr>rq_method = DELETE, rq_url = session_url base sid [], rq_bearer = token, rq_body = None\<rparr> w =
    (if \<not> list_all header_byte token then (w, None) else answered W w (serve st clk sid (bearer_header token) Session_delete w))"
  using memoryd_entries(4) [OF assms] session_segment(2) [OF assms] strip_prefix_append [of base "''/v1/sessions/'' @ sid"]
  by (simp add: memoryd_http_def session_url_def run_handler_def del: strip_prefix_append)

lemma append_wire:
  assumes "plain_id sid"
  shows "memoryd_http W st clk base \<lparr>rq_method = POST, rq_url = session_url base sid ''/events'', rq_bearer = token, rq_body = Some body\<rparr> w =
    (if \<not> list_all header_byte token then (w, None) else answered W w (serve st clk sid (bearer_header token) (Events_post body) w))"
  using memoryd_entries(1) [OF assms] session_segment(1) [OF assms, of "''events''"] strip_prefix_append [of base "''/v1/sessions/'' @ sid @ ''/events''"]
  by (simp add: memoryd_http_def session_url_def run_handler_def del: strip_prefix_append)

subsection \<open>What a successful call leaves\<close>

lemma client_delete_Inr:
  assumes "client_delete_session (memoryd_http W st clk base) base sid token h = (h', Inr ())" and "plain_id sid"
  obtains resp where "route_handler st clk sid (bearer_header token) Session_delete h = Some (h', Inr resp)"
proof -
  from assms obtain rs where "answered W h (serve st clk sid (bearer_header token) Session_delete h) = (h', Some rs)"
    "is_success (http_response.rs_status rs)"
    by (auto simp: client_delete_session_def delete_wire rbind_def ok_or_def split: prod.splits option.splits if_splits)
  then show ?thesis by (rule answered_success) (rule that)
qed

lemma client_create_Inr:
  assumes "client_create_session L (memoryd_http W st clk base) base sid owner now token h = (h', Inr ())" and "plain_id sid"
  obtains resp where "route_handler st clk sid (bearer_header token) (Events_post (create_note sid owner now)) h = Some (h', Inr resp)"
proof -
  from assms obtain rs where "answered W h (serve st clk sid (bearer_header token) (Events_post (create_note sid owner now)) h) = (h', Some rs)"
    "is_success (http_response.rs_status rs)"
    by (auto simp: client_create_session_def client_append_event_def json_call_def append_wire rbind_def ok_or_def split: prod.splits option.splits if_splits sum.splits)
  then show ?thesis by (rule answered_success) (rule that)
qed

lemma delete_handler_erases:
  assumes "s3_laws S objs after" and "redis_laws (as_redis st) db" and "as_store st = s3_store L S"
    and "route_handler st clk sid headers Session_delete (reg, s, r) = Some (w', Inr resp)"
  obtains s' r' where "w' = (reg, s', r')" "outside (session_prefix sid) (objs s') = outside (session_prefix sid) (objs s)"
    "kept sid (objs s') = []" "\<And>ts. snd (the (snapshot (as_redis st) ts sid r')) \<in> {Inl RedisErr, Inl (Missing sid)}"
proof -
  from assms(4) obtain w1 p w2 row x where a: "api_allow st clk headers sid VDelete (reg, s, r) = Some (w1, Inr p)"
    and b: "session_row st clk sid w1 = Some (w2, Inr row)"
    and d: "on_snd (hard_delete (as_store st) (as_redis st) (fst clk) sid (Some (p_owner p))) w2 = Some (w', Inr x)"
    by (auto simp: route_handler_def MemApi.delete_session_def pbind_Inr)
  from a obtain r1 where w1: "w1 = (reg, s, r1)"
    by (auto simp: api_allow_def pmap_err_def pmatch_def on_snd_def split: option.splits sum.splits)
  with b obtain r2 where w2: "w2 = (reg, s, r2)"
    by (auto simp: session_row_def pmap_err_def pmatch_def on_snd_def split: option.splits sum.splits)
  note spec = hard_delete_spec [OF assms(1,2), of L "fst clk" sid "Some (p_owner p)" s r2]
  from d w2 obtain s' r' where w': "w' = (reg, s', r')"
    and run: "hard_delete (s3_store L S) (as_redis st) (fst clk) sid (Some (p_owner p)) (s, r2) = Some ((s', r'), Inr x)"
    by (auto simp: on_snd_def assms(3))
  then have "outside (session_prefix sid) (objs s') = outside (session_prefix sid) (objs s) \<and> kept sid (objs s') = [] \<and>
    snd (the (snapshot (as_redis st) ts sid r')) \<in> {Inl RedisErr, Inl (Missing sid)}" for ts
    using spec [of ts] by auto
  with w' show ?thesis by (intro that) blast+
qed

text \<open>The first event of a session that has no log yet and no writer.\<close>

lemma append_handler_first:
  assumes "s3_laws S objs after" and "serde_laws L" and "has_log (objs s) sid (print_log L [])" and "reg sid = None"
    and "body_ok body" and "as_libs st = L" and "as_store st = s3_store L S"
    and "route_handler st clk sid headers (Events_post body) (reg, s, r) = Some (w', Inr resp)"
  obtains s' r' e wr p r1 where "w' = (reg(sid \<mapsto> wr), s', r')" "seal L body GENESIS = Inr e" "has_log (objs s') sid (print_log L [e])"
    "as_authz st (fst clk) (token_of headers) sid VAppend r = Some (r1, Inr p)"
proof -
  from assms(8) obtain w1 p w2 w3 reply where a: "api_allow st clk headers sid VAppend (reg, s, r) = Some (w1, Inr p)"
    and b: "stamp_owner st clk sid p w1 = Some (w2, Inr ())"
    and c: "handle_append L (s3_store L S) (as_redis st) clk sid body w2 = Some (w3, Inr reply)"
    and d: "append_reply reply = Inr resp" "w3 = w'"
    by (auto simp: route_handler_def append_event_def pbind_Inr assms(6,7) pof_def)
  from a obtain r1 where w1: "w1 = (reg, s, r1)" "as_authz st (fst clk) (token_of headers) sid VAppend r = Some (r1, Inr p)"
    by (auto simp: api_allow_def token_of_def pmap_err_def pmatch_def on_snd_def split: option.splits sum.splits)
  have "\<exists>r. at_log (s3_holds S objs after) L sid [] reg r w1" using assms(1,3) w1(1) by (simp add: at_log_def s3_holds_def)
  then have "\<exists>r. at_log (s3_holds S objs after) L sid [] reg r w2"
    by (rule hoareE [OF hoare_stamp_owner [where st = st and clk = clk and p = p]]) (use b in simp)
  then obtain s2 r2 where w2: "w2 = (reg, s2, r2)" "s3_holds S objs after s2 sid (print_log L [])"
    by (auto simp: at_log_def)
  from s3c.recover_spec [OF assms(2) w2(2) valid_log_Nil, of "as_redis st" clk r2] obtain s3 r3 turn where
    rec: "recover_tail L (s3_store L S) (as_redis st) clk sid (s2, r2) = Some ((s3, r3), Inr (GENESIS, turn))"
      "s3_holds S objs after s3 sid (print_log L [])" by (auto simp: log_tip_def)
  from assms(5) obtain m where m: "body = JObj m" "jwf (JObj m)" "no_float (JObj m)" by (auto simp: body_ok_def)
  from s3c.step_spec [OF assms(2) m(2) no_float_obj_float_free [OF m(3)] rec(2), of "as_redis st" clk "fresh_writer (GENESIS, turn)" r3]
  obtain s' r' wr reply' where ws: "writer_step L (s3_store L S) (as_redis st) clk sid body (fresh_writer (GENESIS, turn)) (s3, r3) = Some ((s', r'), wr, reply')"
    "step_post L (s3_holds S objs after s' sid) [] body (fresh_writer (GENESIS, turn)) wr reply'" unfolding m(1) by auto
  have w': "w' = (reg(sid \<mapsto> wr), s', r')" "reply' = reply"
    using c d(2) rec(1) ws(1) assms(4) w2(1) by (auto simp: handle_append_def registry_append_def)
  with ws(2) d(1) obtain e where "seal L body GENESIS = Inr e" "has_log (objs s') sid (print_log L [e])"
    by (cases reply) (auto simp: step_post_def append_reply_def fresh_writer_def s3_holds_def)
  with w' w1(2) show ?thesis by (intro that)
qed

text \<open>The note of a new session: what an event must be, and the owner it carries.\<close>

lemma create_note_ok: "body_ok (create_note sid owner now)"
proof -
  have "no_float (jobject fs)" if "\<forall>(k, v) \<in> set fs. no_float v" for fs
  proof -
    have "no_float (JObj m) \<Longrightarrow> \<forall>(k, v) \<in> set fs. no_float v \<Longrightarrow> no_float (JObj (fold (\<lambda>(k, v). bt_insert k v) fs m))" for m
      by (induction fs arbitrary: m) (auto simp: no_float_insert simp del: no_float.simps)
    from this [of "[]"] that show ?thesis by (simp add: jobject_def del: no_float.simps) simp
  qed
  then show ?thesis unfolding body_ok_def create_note_def by (intro conjI jwf_jobject) (simp_all add: jobject_def [of "(''v'', _) # _"] jwf_jobject)
qed

lemma note_sealed:
  assumes "seal L (create_note sid owner now) GENESIS = Inr e"
  shows "valid_log L [e]" "owner_from_log [e] = Some owner"
proof -
  obtain m where m: "create_note sid owner now = JObj m" "bt_ok m" using create_note_ok [of sid owner now] by (auto simp: body_ok_def)
  have k: "map_of m ''turn_id'' = Some (ju64 0)" "map_of m ''kind'' = Some (JStr ''note'')" "map_of m ''role'' = Some (JStr ''system'')"
    "map_of m ''meta'' = Some (jobject [(''interrupted'', JBool False), (''owner'', JStr owner)])"
    using m(1) by (auto simp: create_note_def jobject_def [of "(''v'', _) # _"] bt_simps)
  have ow: "jidx (jobject [(''interrupted'', JBool False), (''owner'', JStr owner)]) ''owner'' = JStr owner"
    by (simp add: jobject_def jidx_def bt_simps)
  note f = seal_fields [OF assms [unfolded m(1)] m(2)]
  from valid_log_seal [of L "[]" m e 0] assms m k show "valid_log L [e]" by (simp add: log_tip_def log_turn_def)
  show "owner_from_log [e] = Some owner"
    using f(3) k ow by (simp add: owner_from_log_def List.map_filter_def jidx_def)
qed

lemma map_err_Inr [simp]: "map_err f res = Inr x \<longleftrightarrow> res = Inr x"
  by (cases res) (simp_all add: map_err_def)

lemma create_call:
  assumes "OrchApi.create_session D tk token persona w = (w', Inr r)"
  obtains p where "snd (allowed D tk token VSession w) = Inr p" "fst r = 201"
    "ap_sessions w' = index_upsert (p_owner p) \<lparr>sm_session_id = tk_uuid tk, sm_updated_at = tk_stamp tk, sm_turns = 0\<rparr> (ap_sessions w)"
    "client_create_session (dp_libs D) (dp_net D) (dp_base D) (tk_uuid tk) (p_owner p) (tk_stamp tk) token (ct_net (ap_ctl w)) = (ct_net (ap_ctl w'), Inr ())"
proof -
  from assms obtain w1 p w2 u where g: "gate D tk token VSession w = (w1, Inr p)"
    and rg: "rate_gate D tk token Create w1 = (w2, Inr u)" by (auto simp: OrchApi.create_session_def then_do_Inr)
  from gates_ctl [OF g rg] assms g rg show ?thesis
    by (intro that [of p]) (auto simp: OrchApi.create_session_def then_do_Inr gate_Inr memoryd_call_def split: if_splits prod.splits)
qed

lemma delete_call:
  assumes "OrchApi.delete_session D tk sid token w = (w', Inr r)"
  obtains p where "snd (allowed D tk token VSession w) = Inr p" "r = (204, REmpty)" "ap_sessions w' = index_remove (p_owner p) sid (ap_sessions w)"
    "client_delete_session (dp_net D) (dp_base D) sid token (ct_net (ap_ctl w)) = (ct_net (ap_ctl w'), Inr ())"
  using assms
  by (auto simp: audit_delete_def emit_def OrchApi.delete_session_def then_do_Inr owned_Inr gate_Inr memoryd_call_def split: prod.splits)

subsection \<open>Properties\<close>

text \<open>
  C14. A session that a user was told of is in the store. When the control plane, working over the
  memory service, answers a user's request for a new session with 201, and the id was not in use, then
  the memory service let the same token append, the log of the new session consists of one event, the
  system note sealed on the genesis marker, which passes verification and from which a rebuild of the
  index reads the user as the owner, and the session is in the list of that user.
\<close>

theorem created_session_is_stored:
  assumes "s3_laws S objs after" and "serde_laws L" and "as_libs st = L" and "as_store st = s3_store L S"
    and "dp_net D = memoryd_http W st clk (dp_base D)" and "plain_id (tk_uuid tk)" and "index_ok (ap_sessions w)"
    and "ct_net (ap_ctl w) = (reg, s, r0)" and "reg (tk_uuid tk) = None" and "has_log (objs s) (tk_uuid tk) []"
    and "OrchApi.create_session D tk token persona w = (w', Inr r)"
  shows "\<exists>p q rd1 e wr s' r'. fst r = 201 \<and> snd (allowed D tk token VSession w) = Inr p \<and>
    as_authz st (fst clk) (token_of (bearer_header token)) (tk_uuid tk) VAppend r0 = Some (rd1, Inr q) \<and>
    ct_net (ap_ctl w') = (reg(tk_uuid tk \<mapsto> wr), s', r') \<and> has_log (objs s') (tk_uuid tk) (print_log L [e]) \<and>
    seal L (create_note (tk_uuid tk) (p_owner p) (tk_stamp tk)) GENESIS = Inr e \<and> valid_log L [e] \<and>
    owner_from_log [e] = Some (p_owner p) \<and>
    index_get (p_owner p) (tk_uuid tk) (ap_sessions w') = Some \<lparr>sm_session_id = tk_uuid tk, sm_updated_at = tk_stamp tk, sm_turns = 0\<rparr>"
proof (rule create_call [OF assms(11)])
  fix p
  assume p: "snd (allowed D tk token VSession w) = Inr p" "fst r = 201"
    "ap_sessions w' = index_upsert (p_owner p) \<lparr>sm_session_id = tk_uuid tk, sm_updated_at = tk_stamp tk, sm_turns = 0\<rparr> (ap_sessions w)"
    and c: "client_create_session (dp_libs D) (dp_net D) (dp_base D) (tk_uuid tk) (p_owner p) (tk_stamp tk) token (ct_net (ap_ctl w)) =
      (ct_net (ap_ctl w'), Inr ())"
  have none: "has_log (objs s) (tk_uuid tk) (print_log L [])" using assms(10) by (simp add: print_log_def)
  from client_create_Inr [OF c [unfolded assms(5,8)] assms(6)] obtain resp where
    "route_handler st clk (tk_uuid tk) (bearer_header token) (Events_post (create_note (tk_uuid tk) (p_owner p) (tk_stamp tk))) (reg, s, r0) =
      Some (ct_net (ap_ctl w'), Inr resp)" .
  from append_handler_first [OF assms(1,2) none assms(9) create_note_ok assms(3,4) this]
  obtain s' r' e wr q r1 where "ct_net (ap_ctl w') = (reg(tk_uuid tk \<mapsto> wr), s', r')" "seal L (create_note (tk_uuid tk) (p_owner p) (tk_stamp tk)) GENESIS = Inr e"
    "has_log (objs s') (tk_uuid tk) (print_log L [e])" "as_authz st (fst clk) (token_of (bearer_header token)) (tk_uuid tk) VAppend r0 = Some (r1, Inr q)" .
  moreover from this(2) have "valid_log L [e]" "owner_from_log [e] = Some (p_owner p)" by (rule note_sealed)+
  ultimately show ?thesis using p assms(7) by (simp add: oc.lookup_upsert) blast
qed

text \<open>
  C18. A deletion goes through both services. When the control plane, working over the memory service,
  answers a delete, then the session is gone from the list of the user, no object of it is left in the
  store, objects of other sessions are untouched, and no later read of its index row succeeds. When
  the delete fails on the way, in either service or between them, the control plane's lists, queue and
  routes are as they were.
\<close>

theorem deletion_reaches_store:
  assumes "s3_laws S objs after" and "redis_laws (as_redis st) db" and "as_store st = s3_store L S"
    and "dp_net D = memoryd_http W st clk (dp_base D)" and "plain_id sid" and "index_ok (ap_sessions w)"
    and "ct_net (ap_ctl w) = (reg, s, r0)" and "OrchApi.delete_session D tk sid token w = (w', res)"
  shows "case res of
      Inl e \<Rightarrow> same_state w w'
    | Inr r \<Rightarrow> (\<exists>p s' r'. r = (204, REmpty) \<and> snd (allowed D tk token VSession w) = Inr p \<and>
        index_get (p_owner p) sid (ap_sessions w') = None \<and>
        ct_net (ap_ctl w') = (reg, s', r') \<and> kept sid (objs s') = [] \<and>
        outside (session_prefix sid) (objs s') = outside (session_prefix sid) (objs s) \<and>
        (\<forall>ts. snd (the (snapshot (as_redis st) ts sid r')) \<in> {Inl RedisErr, Inl (Missing sid)}))"
proof (cases res)
  case (Inl e)
  with assms(8) delete_session_Inl show ?thesis by auto
next
  case (Inr r)
  show ?thesis
  proof (rule delete_call [OF assms(8) [unfolded Inr]])
    fix p
    assume p: "snd (allowed D tk token VSession w) = Inr p" "r = (204, REmpty)" "ap_sessions w' = index_remove (p_owner p) sid (ap_sessions w)"
      and c: "client_delete_session (dp_net D) (dp_base D) sid token (ct_net (ap_ctl w)) = (ct_net (ap_ctl w'), Inr ())"
    from client_delete_Inr [OF c [unfolded assms(4,7)] assms(5)] obtain resp where
      "route_handler st clk sid (bearer_header token) Session_delete (reg, s, r0) = Some (ct_net (ap_ctl w'), Inr resp)" .
    from delete_handler_erases [OF assms(1-3) this] obtain s' r' where "ct_net (ap_ctl w') = (reg, s', r')"
      "outside (session_prefix sid) (objs s') = outside (session_prefix sid) (objs s)" "kept sid (objs s') = []"
      "\<forall>ts. snd (the (snapshot (as_redis st) ts sid r')) \<in> {Inl RedisErr, Inl (Missing sid)}" by blast
    with p Inr show ?thesis by (simp add: oc.lookup_delete [OF assms(6)])
  qed
qed

subsection \<open>Witnesses\<close>

definition wire0 :: "(bucket, mem) service wire" where
  "wire0 = \<lparr>wi_libs = ref_libs, wi_display = (\<lambda>_. ''error''), wi_unprintable = [], wi_metrics = reply_bytes 200 [], wi_lost = (\<lambda>w. w)\<rparr>"

definition wdeps0 :: "((bucket, mem) service, mem, mock_provider) app_deps" where
  "wdeps0 = \<lparr>dp_libs = ref_libs, dp_net = memoryd_http wire0 dev_state (1, ''t'') ''http://m'', dp_base = ''http://m'', dp_crypto = ref_crypto,
     dp_redis = mem_redis True, dp_pepper = ''pp'', dp_provider = mock, dp_warm_floor = 1\<rparr>"

definition wapp0 :: "((bucket, mem) service, mem) app" where
  "wapp0 = \<lparr>ap_ctl = \<lparr>ct_registry = new_registry, ct_channels = Map.empty, ct_net = (Map.empty, bucket_empty, []), ct_redis = store0 ''alice'' ''user''\<rparr>,
     ap_sessions = new_index, ap_queue = new_queue, ap_relay = Map.empty, ap_rates = Map.empty, ap_audit = []\<rparr>"

definition wcreated0 where "wcreated0 = OrchApi.create_session wdeps0 tick0 token0 ''sage'' wapp0"

definition wdeleted0 where "wdeleted0 = OrchApi.delete_session wdeps0 tick0 ''s1'' token0 (fst wcreated0)"

lemma wdeleted0_ok: "is_ok (snd wdeleted0)"
  by code_simp

text \<open>What was deleted had been created.\<close>

lemma wcreated0_ok: "is_ok (snd wcreated0)"
proof (cases "snd wcreated0")
  case (Inl e)
  then have "OrchApi.create_session wdeps0 tick0 token0 ''sage'' wapp0 = (fst wcreated0, Inl e)" by (simp add: wcreated0_def prod_eq_iff)
  from create_session_Inl [OF this] have "ap_sessions (fst wcreated0) = new_index" by (simp add: same_state_def wapp0_def)
  then have "index_get ow sid (ap_sessions (fst wcreated0)) = None" for ow sid by (simp add: index_get_def new_index_def)
  moreover obtain r where "OrchApi.delete_session wdeps0 tick0 ''s1'' token0 (fst wcreated0) = (fst wdeleted0, Inr r)"
    using wdeleted0_ok by (cases "snd wdeleted0") (auto simp: wdeleted0_def prod_eq_iff)
  then obtain p :: principal and sm where "index_get (p_owner p) ''s1'' (ap_sessions (fst wcreated0)) = Some sm" by (rule delete_session_Inr) (rule that)
  ultimately show ?thesis by simp
qed simp

lemma wdeps0_facts:
  "dp_net wdeps0 = memoryd_http wire0 dev_state (1, ''t'') (dp_base wdeps0)" "as_libs dev_state = ref_libs" "as_store dev_state = s3_store ref_libs mem_s3"
  "redis_laws (as_redis dev_state) mem_abs" "tk_uuid tick0 = ''s1''" "ct_net (ap_ctl wapp0) = (Map.empty, bucket_empty, [])"
  "index_ok (ap_sessions wapp0)"
  by (simp_all add: wdeps0_def dev_state_def mem_redis_laws tick0_def wapp0_def new_index_def index_ok_def)

lemma created_session_is_stored_witness:
  "\<exists>p e s' r' wr. ct_net (ap_ctl (fst wcreated0)) = ([''s1'' \<mapsto> wr], s', r') \<and> has_log (bucket_objs s') ''s1'' (print_log ref_libs [e]) \<and>
     owner_from_log [e] = Some (p_owner p) \<and> snd (allowed wdeps0 tick0 token0 VSession wapp0) = Inr p"
proof -
  obtain r where r: "OrchApi.create_session wdeps0 tick0 token0 ''sage'' wapp0 = (fst wcreated0, Inr r)"
    using wcreated0_ok by (cases "snd wcreated0") (auto simp: wcreated0_def prod_eq_iff)
  have "plain_id (tk_uuid tick0)" "(Map.empty :: registry) (tk_uuid tick0) = None" "has_log (bucket_objs bucket_empty) (tk_uuid tick0) []"
    using plain0 by (simp_all add: wdeps0_facts(5) empty_has_log)
  from created_session_is_stored [OF mem_s3_laws ref_serde wdeps0_facts(2,3,1) this(1) wdeps0_facts(7,6) this(2,3) r]
  show ?thesis unfolding wdeps0_facts(5) by blast
qed

lemma deletion_reaches_store_witness:
  "\<exists>p reg s' r'. ct_net (ap_ctl (fst wdeleted0)) = (reg, s', r') \<and> kept ''s1'' (bucket_objs s') = [] \<and>
     snd (allowed wdeps0 tick0 token0 VSession (fst wcreated0)) = Inr p \<and> index_get (p_owner p) ''s1'' (ap_sessions (fst wdeleted0)) = None"
proof -
  obtain r where r: "OrchApi.delete_session wdeps0 tick0 ''s1'' token0 (fst wcreated0) = (fst wdeleted0, Inr r)"
    using wdeleted0_ok by (cases "snd wdeleted0") (auto simp: wdeleted0_def prod_eq_iff)
  obtain reg s r0 where net: "ct_net (ap_ctl (fst wcreated0)) = (reg, s, r0)" by (rule prod_cases3)
  obtain r' where "OrchApi.create_session wdeps0 tick0 token0 ''sage'' wapp0 = (fst wcreated0, Inr r')"
    using wcreated0_ok by (cases "snd wcreated0") (auto simp: wcreated0_def prod_eq_iff)
  then have ix: "index_ok (ap_sessions (fst wcreated0))" by (rule create_call) (simp add: oc.inv_upsert wdeps0_facts(7))
  from deletion_reaches_store [OF mem_s3_laws wdeps0_facts(4,3,1) plain0 ix net r] show ?thesis by auto
qed

end
