(* ===== verification/Spec2Isabelle.thy ===== *)
theory Spec2Isabelle
  imports Render ChainFsck WriterSpec Router Scaler RateLimit MemApi Signal SessionIndex PodApi OrchApi RunPod Mcp MemStart OrchStart
    Metrics MemMetrics Routes Wire
begin

text \<open>
  Verification of the VIHS core: the Rust services under \<open>crates/\<close> that keep the memory of voice
  sessions and route the sessions to GPU pods.

  \<^bold>\<open>The program.\<close> \<open>vihs-core\<close> is the library of the event log: every turn of a session is an event,
  sealed with the hash of the event before it. \<open>vihs-auth\<close> keeps bearer tokens in Redis. \<open>memoryd\<close>
  owns the sessions' logs: one writer task per session appends to an object store, an index in Redis
  holds the tip, a compactor folds old turns into summaries, and an HTTP API serves appends, loads,
  transcripts and deletions to the orchestrator and to pods. \<open>orchestrator\<close> is the control plane: users
  create and connect sessions over its public API, the router picks a pod and pushes an assignment on
  the pod's channel, the signalling route relays the client's WebSocket to the pod and revokes the
  assignment at the end, the autoscaler deploys and terminates pods over a provider driver. \<open>mcpd\<close>
  offers the orchestrator's routes as MCP tools.

  \<^bold>\<open>The theories\<close>, in the order of their imports, with the source each models:
  \<^item> prelude: \<open>Base\<close> (machine words, results, ordered maps, strings), \<open>Decimal\<close> (integer formatting and
    parsing), \<open>Json\<close> and \<open>Codec\<close> (\<open>serde_json\<close> values and a concrete printer and parser), \<open>Proc\<close> (procedures
    over external services, with a Hoare logic), \<open>Redis\<close> (the server's commands and laws, and a server in
    memory), \<open>F32\<close> (single-precision arithmetic);
  \<^item> \<open>vihs-core\<close>: \<open>Chain\<close> (\<open>chain.rs\<close>), \<open>ChainFsck\<close> (\<open>bin/chain_fsck.rs\<close>), \<open>Events\<close> (\<open>event.rs\<close>, \<open>ids.rs\<close>), \<open>Render\<close>
    (\<open>render.rs\<close>), \<open>Redact\<close> (\<open>redact.rs\<close>); \<open>vihs-auth\<close>: \<open>Tokens\<close> (\<open>store.rs\<close>);
  \<^item> \<open>memoryd\<close>: \<open>Store\<close>, \<open>StoreSpec\<close>, \<open>ArtifactSpec\<close> (\<open>store.rs\<close>), \<open>Index\<close> (\<open>index.rs\<close>), \<open>MemError\<close> (\<open>error.rs\<close>), \<open>Writer\<close>,
    \<open>WriterSpec\<close> (\<open>writer.rs\<close>), \<open>Maintenance\<close> (\<open>rebuild.rs\<close>, \<open>sweep.rs\<close>), \<open>Compact\<close> (\<open>compact.rs\<close>), \<open>MemAuthz\<close> (\<open>authz.rs\<close>),
    \<open>MemApi\<close> (\<open>api.rs\<close>), \<open>MemMetrics\<close> (\<open>metrics.rs\<close> and the places that record), \<open>MemStart\<close> (\<open>config.rs\<close>, \<open>main.rs\<close>);
  \<^item> \<open>orchestrator\<close>: \<open>OrchErr\<close> (\<open>error.rs\<close>, \<open>tokens.rs\<close>, \<open>authz.rs\<close>, \<open>memoryd_client.rs\<close>), \<open>Registry\<close> (\<open>registry.rs\<close>),
    \<open>Provider\<close> (\<open>provider.rs\<close>, \<open>provider_mock.rs\<close>), \<open>RunPod\<close> (\<open>provider_runpod.rs\<close>), \<open>Queue\<close> (\<open>queue.rs\<close>), \<open>Router\<close>
    (\<open>router.rs\<close>), \<open>Scaler\<close> (\<open>scaler.rs\<close> and the loop of \<open>main.rs\<close>), \<open>RateLimit\<close> (\<open>ratelimit.rs\<close>), \<open>SessionIndex\<close>
    (\<open>session_index.rs\<close>), \<open>Signal\<close> (\<open>signal.rs\<close>, \<open>signal_route.rs\<close>), \<open>PodApi\<close> (\<open>api_internal.rs\<close>), \<open>OrchApi\<close>
    (\<open>api_public.rs\<close>, \<open>api_admin.rs\<close>, \<open>audit.rs\<close>), \<open>OrchStart\<close> (\<open>config.rs\<close>, \<open>build_state\<close> of \<open>lib.rs\<close>, the readiness probe
    of \<open>metrics.rs\<close>, \<open>client_static.rs\<close>, and \<open>connect\<close> and \<open>ping\<close> of \<open>vihs-auth\<close>), \<open>Metrics\<close> (\<open>metrics.rs\<close> and the
    places that record, \<open>capacity_used\<close> of \<open>registry.rs\<close>);
  \<^item> \<open>mcpd\<close>: \<open>Mcp\<close> (\<open>lib.rs\<close>);
  \<^item> between the services: \<open>Routes\<close> (the route tables of both services and the base address of \<open>mcpd\<close>'s \<open>main.rs\<close>),
    \<open>Wire\<close> (the control plane with the memory service, behind its table, as its transport).

  \<^bold>\<open>How state and operations correspond.\<close> A struct is a record and an enum a datatype, with the
  source's fields and constructors. A method is a function from the state to the new state and its
  result; a \<open>Result\<close> is a sum with the error on the left, a panic is \<open>None\<close>, and an early return by the
  question mark is \<open>rbind\<close>, \<open>pbind\<close> or \<open>then_do\<close>. Machine integers are words and keep their wrap-around and
  saturation. The single writer is a function of one message on its in-memory state and the services;
  interference of other tasks is an argument (\<open>env\<close>) where a handler awaits between a check and a commit
  (\<open>Router\<close>, \<open>Signal\<close>), and a step relation where tasks share a map (\<open>Registry\<close>, \<open>PodApi\<close>). Clocks, fresh ids
  and random bytes are arguments.

  \<^bold>\<open>Third-party code\<close> is a parameter with its documented behaviour as named laws: \<open>serde_laws\<close> and
  \<open>digest_laws\<close> (\<open>serde_json\<close>, blake3) on the record \<open>libs\<close>, \<open>crypto_laws\<close> (argon2, base64), \<open>redis_laws\<close>, the laws
  of the S3 service in \<open>Store\<close>, \<open>runpod_laws\<close>, and HTTP as a function \<open>'h http\<close>. Each has a concrete instance
  (\<open>ref_libs\<close>, \<open>ref_crypto\<close>, \<open>mem_redis\<close>, an object store and a RunPod service in memory), on which the witnesses
  evaluate.

  \<^bold>\<open>Interfaces\<close> are locales, interpreted on the model's own operations: \<open>ordered_map\<close> on the B-tree map,
  the object store's contract on the S3 client (\<open>StoreSpec\<close>, \<open>ArtifactSpec\<close>), under which the writer, the
  rebuild and the compaction are proved once, \<open>pod_provider\<close> on the mock driver and, through the
  sublocale \<open>runpod_cloud\<close> (every answer arrives and can be read), on the RunPod driver, \<open>removable_queue\<close> on the session queue, \<open>owner_cache\<close> on the
  session cache.

  \<^bold>\<open>What is shown.\<close> The log: a tip determines its log, and fsck accepts exactly the valid ones; the writer
  keeps the log valid, commits or rejects with a stated reason, finds the tip again on recovery, and
  does not log a retry in its window twice; canonical bytes determine the event; compaction, rebuild
  and deletion keep or end it as they promise. Who may do what: verification and revocation of
  tokens, scopes, tenant isolation in both services, denied requests that change nothing. The control
  plane: the registry's two copies agree in sequence, the router takes one free slot of a least loaded
  pod, a connection sends the pod exactly its assignment and its revocation, the relay lets through
  clean frames only and ends at the third strike, the rate limiter's bound over any interval, what
  the autoscaler may terminate (its floor counts draining pods) and how its registry and the cloud agree
  on a provider that keeps its contract, self-registered pods apart, each MCP tool is its HTTP twin and reaches the
  handler it is the twin of. Both services together: a session a user was told of is in the store with
  that user as its owner, a deletion goes through to the store, and how the first administrator comes up.
  The metrics: recording changes no result, and the counters add up to the connects and, on the mock provider, to the fleet.
  And where the
  code does not do what it means to, the theorem that shows it: a Redis outage tears a log, a foreign
  append takes over a session, a pod that never comes up stops the autoscaler, and the RunPod driver
  brings exactly that about and loses a pod whose answer is lost, a timestamp cut inside a character
  panics the renderer, and the credentials seeded at the start lapse after a day in both services.

  \<^bold>\<open>Loops, bounds and fuel.\<close> Loops over data are structural recursion, or \<open>function\<close> with a termination
  proof. The three paging loops over a listing of the object store end only when the service's
  continuation tokens do; they are partial functions whose value is \<open>None\<close> when they do not return, and
  the laws of \<open>StoreSpec\<close> show that they return. No theorem rests on fuel. A relay is a run over the list of the events of both sides, with
  a flag for whether it has ended; its properties hold for every such list.

  \<^bold>\<open>Not modelled:\<close> the text encoding of the metrics and the buckets of their histograms (the encoder is an
  argument, a histogram the list of its observations), log lines other than the audit log (they decide
  nothing), the listeners of the three \<open>main.rs\<close> and the timer of the retention sweep, axum's decoding of
  bodies (the handlers take its result as arguments; the matching of paths and methods is \<open>dispatch\<close> of
  \<open>Routes\<close>), and everything outside the Rust services: the pod agent (Python), the browser client and the
  deployment files. The other lines no definition models are tests, comments, imports and log statements.
\<close>

subsection \<open>A connection from assignment to release\<close>

text \<open>
  C8. What a client's connection does to the pods, over the public API, the router, the relay and the
  signalling route. When a session connects and its client then opens and closes the signalling
  socket with the same token, exactly one pod is involved, one that was eligible: it is sent the
  assignment and then, whichever way the socket ended, the revocation of that same session and
  connection, and nothing else; no other pod is sent anything, and no route is left behind.
\<close>

theorem connection_balanced:
  assumes "reg_ok (ct_registry (ap_ctl w))" and "cid = fr_connection_id (tk_fresh tk)"
    and "connect_session D tk (\<lambda>s. s) sid token w = (w1, Inr (200, body))"
    and "handle_signal L C R pepper describe now dial_pod (\<lambda>v. v) cid (Some token) received events (signal_view w1) = (v, out, True)"
  shows "\<exists>pod load tok sent. pod \<in> eligible (ct_registry (ap_ctl w)) (- 1) (ct_channels (ap_ctl w)) \<and>
    ct_channels (ap_ctl w) (ps_id pod) = Some sent \<and>
    ss_channels v = (ct_channels (ap_ctl w))(ps_id pod \<mapsto> sent @ [assign_frame sid cid tok load, revoke_frame sid cid]) \<and>
    ss_relay v = (ap_relay w)(cid := None)"
proof (rule connect_200 [OF assms(3)])
  fix o1
  assume asg: "connect_assign D tk (\<lambda>s. s) sid token w = (ap_ctl w1, Inr o1)"
    and relay: "ap_relay w1 = relay_bind (ao_connection_id o1) (ao_pod_id o1) sid (ap_relay w)"
    and oid: "ao_connection_id o1 = fr_connection_id (tk_fresh tk)"
  from asg [unfolded connect_assign_def] obtain pod tok load sent where
    pick: "pick (ct_registry (ap_ctl w)) (- 1) (ct_channels (ap_ctl w)) = Some pod" and
    sent: "ct_channels (ap_ctl w) (ps_id pod) = Some sent" and o1: "ao_pod_id o1 = ps_id pod" and
    ch: "ct_channels (ap_ctl w1) = (ct_channels (ap_ctl w))(ps_id pod \<mapsto> sent @ [assign_frame sid cid tok load])"
    by (rule assign_session_Inr) (use assms(2) in \<open>simp add: that\<close>)
  have bound: "ss_relay (signal_view w1) cid = Some \<lparr>rr_pod_id = ps_id pod, rr_session_id = sid\<rparr>"
    and rel: "ss_relay (signal_view w1) = (ap_relay w)(cid \<mapsto> \<lparr>rr_pod_id = ps_id pod, rr_session_id = sid\<rparr>)"
    using relay oid o1 assms(2) by (simp_all add: signal_view_def relay_bind_def)
  from handle_signal_releases [OF bound assms(4)] have
    "ss_relay v = (ss_relay (signal_view w1))(cid := None)"
    "ss_channels v = push_frame (ps_id pod) (revoke_frame sid cid) (ss_channels (signal_view w1))"
    by (auto simp: socket_token_def)
  with rel ch have "ss_relay v = (ap_relay w)(cid := None)"
    "ss_channels v = (ct_channels (ap_ctl w))(ps_id pod \<mapsto> sent @ [assign_frame sid cid tok load, revoke_frame sid cid])"
    by (simp_all add: signal_view_def push_frame_def)
  with pick_Some(1) [OF assms(1) pick] sent show ?thesis by blast
qed

lemma connection_balanced_witness:
  "\<exists>v out tok load. handle_signal ref_libs ref_crypto (mem_redis True) ''pp'' (\<lambda>_. []) 2 (\<lambda>_. DialTimeout) (\<lambda>v. v) ''c'' (Some token0) None []
      (signal_view (fst connected0)) = (v, out, True) \<and>
     ss_relay v ''c'' = None \<and> (\<exists>pod. ss_channels v pod = Some [assign_frame ''s1'' ''c'' tok load, revoke_frame ''s1'' ''c''])"
proof -
  obtain body where b: "connect_session deps0 tick0 (\<lambda>s. s) ''s1'' token0 ready0 = (fst connected0, Inr (200, body))"
    using connected0_ok by (auto simp: connected0_def prod_eq_iff)
  have reg: "reg_ok (ct_registry (ap_ctl ready0))" and ch: "ct_channels (ap_ctl ready0) = [''p'' \<mapsto> []]"
    using reg0_ok by (simp_all add: app0_def world0_def)
  have cid: "''c'' = fr_connection_id (tk_fresh tick0)" by (simp add: tick0_def fresh0_def)
  obtain route where "ap_relay (fst connected0) ''c'' = Some route"
    using connect_200 [OF b] cid by (metis fun_upd_same relay_bind_def)
  then obtain v out where run: "handle_signal ref_libs ref_crypto (mem_redis True) ''pp'' (\<lambda>_. []) 2 (\<lambda>_. DialTimeout) (\<lambda>v. v) ''c'' (Some token0) None []
      (signal_view (fst connected0)) = (v, out, True)"
    by (cases "get_pod (rr_pod_id route) (ct_registry (ap_ctl (fst connected0)))")
      (simp_all add: handle_signal_def socket_token_def relay_socket_def signal_view_def)
  from connection_balanced [OF reg cid b run] obtain pod :: pod_state and load tok sent where
    sent: "ct_channels (ap_ctl ready0) (ps_id pod) = Some sent"
    and v: "ss_channels v = (ct_channels (ap_ctl ready0))(ps_id pod \<mapsto> sent @ [assign_frame ''s1'' ''c'' tok load, revoke_frame ''s1'' ''c''])"
      "ss_relay v = (ap_relay ready0)(''c'' := None)" by blast
  have "sent = []" using sent unfolding ch by (simp split: if_splits)
  then have "ss_channels v (ps_id pod) = Some [assign_frame ''s1'' ''c'' tok load, revoke_frame ''s1'' ''c'']" "ss_relay v ''c'' = None"
    by (simp_all add: v)
  with run show ?thesis by blast
qed

subsection \<open>The first administrator\<close>

lemma mem_allow_admin:
  assumes "token \<noteq> []" and "verify C R pepper t token r = (r', res)" and "\<And>p. res = Inr p \<Longrightarrow> p_scope p = Admin"
  shows "mem_allow C R pepper t token sid v r = Some (r', map_err authz_of_token res)"
  using assms by (cases res) (auto simp: mem_allow_def pbind_def pmap_err_def pmatch_def perr_def pret_def)

text \<open>
  C38. How the two services come up together. When the control plane reports that it has seeded the
  administrator's token of its environment, and the memory service comes up with the same pepper in
  its own, then for a day after the start both accept that token as an administrator's, the memory
  service for every session and operation, unless Redis is unreachable; from then on both refuse it.
  This holds whatever state the control plane is in and whatever commands Redis was sent in between,
  by any client, as long as none of them writes the record of that token (as its revocation does).
\<close>

theorem bootstrap_admin_lasts_a_day:
  assumes "redis_laws R db" and "crypto_laws C" and "build_state C R env b cfg h r = Some bt" and "bt_admin_seed bt = Some (Inr u)"
    and "env ''VIHS_ADMIN_TOKEN'' = Some token" and "0 \<le> bi_admin_ts b" "bi_admin_ts b + 86400 < 2 ^ 63" and "bi_warm_ts b \<le> tk_ts tk"
    and "memoryd_main L s3_at R C event_of clk args env' w = Some (w', Serving st ttl)"
    and "env' ''VIHS_TOKEN_PEPPER'' = env ''VIHS_TOKEN_PEPPER''"
    and "\<forall>(c, s, cmd) \<in> set hist. s \<le> tk_ts tk \<and> token_row C token \<notin> written cmd"
    and "ct_redis (ap_ctl app) = redis_history R hist (ct_redis (ap_ctl (bt_app bt)))"
  shows "\<exists>r' res. as_authz st (tk_ts tk) token sid v (ct_redis (ap_ctl app)) = Some (r', res) \<and>
    (if tk_ts tk < bi_admin_ts b + 86400
     then snd (admin_gate (boot_deps L net C R P cfg bt) tk token app) \<in> {Inl OUpstream, Inr \<lparr>p_owner = ''bootstrap'', p_scope = Admin\<rparr>} \<and>
       res \<in> {Inl AuthzUpstream, Inr \<lparr>p_owner = ''bootstrap'', p_scope = Admin\<rparr>}
     else \<not> is_ok (snd (admin_gate (boot_deps L net C R P cfg bt) tk token app)) \<and> \<not> is_ok res)"
proof -
  let ?r = "ct_redis (ap_ctl app)"
  have pepper: "as_authz st = mem_allow C R (tks_pepper (bt_tokens bt))"
    using memoryd_serving_authz [OF assms(9)] build_state_admin [OF assms(3-5)] assms(10) by (metis unwrap_or_simps(2))
  obtain r' res where v: "verify C R (tks_pepper (bt_tokens bt)) (tk_ts tk) token ?r = (r', res)" by fastforce
  from bootstrap_verify [OF assms(1-6) _ assms(8,11)] assms(7) v [unfolded assms(12)] have t: "token \<noteq> []"
    and res: "res \<in> (if tk_ts tk < bi_admin_ts b + 86400 then {Inl Upstream, Inr \<lparr>p_owner = ''bootstrap'', p_scope = Admin\<rparr>}
       else {Inl Upstream, Inl (Authz ''unknown token'')})" by (simp_all add: seed_ttl_def)
  from res have "p_scope p = Admin" if "res = Inr p" for p using that by (auto split: if_splits)
  with t v have "as_authz st (tk_ts tk) token sid v ?r = Some (r', map_err authz_of_token res)"
    unfolding pepper by (rule mem_allow_admin)
  moreover have "snd (admin_gate (boot_deps L net C R P cfg bt) tk token app) \<in>
    (if tk_ts tk < bi_admin_ts b + 86400 then {Inl OUpstream, Inr \<lparr>p_owner = ''bootstrap'', p_scope = Admin\<rparr>}
     else {Inl OUpstream, Inl (OAuthz ''unknown token'')})" using bootstrap_admin_gate [OF assms(1-8,11,12)] .
  ultimately show ?thesis using res by (auto simp: authz_of_token_def split: if_splits)
qed

text \<open>A session is indexed between the start and the request.\<close>

definition hist0 :: "(conn \<times> int \<times> redis_cmd) list" where
  "hist0 = [(Pooled, 2, HSet ''session:s1'' [(''owner'', ''u'')])]"

lemma bootstrap_admin_lasts_a_day_witness:
  "\<exists>(bt :: (nat, mem) boot) st ttl app r' res.
     build_state ref_crypto (mem_redis True) boot_env0 boot_input0 boot_cfg0 (0 :: nat) [] = Some bt \<and>
     memoryd_main ref_libs (\<lambda>_. mem_s3) (mem_redis True) ref_crypto event_of0 (0, []) [''memoryd''] mem_env0 (bucket_empty, []) = Some ((bucket_empty, []), Serving st ttl) \<and>
     ct_redis (ap_ctl app) = redis_history (mem_redis True) hist0 (ct_redis (ap_ctl (bt_app bt))) \<and>
     as_authz st 2 token0 ''s1'' VLoad (ct_redis (ap_ctl app)) = Some (r', res) \<and>
     res \<in> {Inl AuthzUpstream, Inr \<lparr>p_owner = ''bootstrap'', p_scope = Admin\<rparr>} \<and>
     snd (admin_gate (boot_deps ref_libs net0 ref_crypto (mem_redis True) mock boot_cfg0 bt) tick0 token0 app) \<in>
       {Inl OUpstream, Inr \<lparr>p_owner = ''bootstrap'', p_scope = Admin\<rparr>}"
proof -
  obtain bt :: "(nat, mem) boot" where bt: "build_state ref_crypto (mem_redis True) boot_env0 boot_input0 boot_cfg0 (0 :: nat) [] = Some bt"
    "bt_admin_seed bt = Some (Inr ())" by (rule boot0)
  obtain st ttl where m: "memoryd_main ref_libs (\<lambda>_. mem_s3) (mem_redis True) ref_crypto event_of0 (0, []) [''memoryd''] mem_env0 (bucket_empty, []) =
     Some ((bucket_empty, []), Serving st ttl)" by (rule mem_run0)
  let ?app = "(bt_app bt)\<lparr>ap_ctl := (ap_ctl (bt_app bt))\<lparr>ct_redis := redis_history (mem_redis True) hist0 (ct_redis (ap_ctl (bt_app bt)))\<rparr>\<rparr>"
  have t: "tk_ts tick0 = 2" by (simp add: tick0_def)
  have h: "\<forall>(c, s, cmd) \<in> set hist0. s \<le> tk_ts tick0 \<and> token_row ref_crypto token0 \<notin> written cmd"
    by (simp add: hist0_def t token_row_def token_key_def)
  have a: "ct_redis (ap_ctl ?app) = redis_history (mem_redis True) hist0 (ct_redis (ap_ctl (bt_app bt)))" by simp
  from bootstrap_admin_lasts_a_day [OF mem_redis_laws ref_crypto_laws bt, where token = token0 and tk = tick0 and sid = "''s1''" and v = VLoad and net = net0 and P = mock,
    OF _ _ _ _ m _ h a]
  have "\<exists>r' res. as_authz st 2 token0 ''s1'' VLoad (ct_redis (ap_ctl ?app)) = Some (r', res) \<and>
     snd (admin_gate (boot_deps ref_libs net0 ref_crypto (mem_redis True) mock boot_cfg0 bt) tick0 token0 ?app) \<in>
       {Inl OUpstream, Inr \<lparr>p_owner = ''bootstrap'', p_scope = Admin\<rparr>} \<and> res \<in> {Inl AuthzUpstream, Inr \<lparr>p_owner = ''bootstrap'', p_scope = Admin\<rparr>}"
    unfolding t by (simp add: boot_env0_def boot_input0_def mem_env0_def)
  with bt m a show ?thesis by blast
qed

end
